(* ===== verification/GK_Prelude.thy ===== *)
theory GK_Prelude
  imports Complex_Main "HOL-Library.Char_ord" "HOL-Library.List_Lexorder"
begin

text \<open>
  Shared ground of the gatekeeper development: the fact collections, the character classes
  of the C library the program uses, the searching operations of \<open>std::string\<close>, and two
  generic interfaces. A byte string (\<open>std::string\<close>) is a HOL \<open>string\<close>, one \<open>char\<close> per
  byte; a position that may run past the end is avoided by passing the rest of the input,
  so that \<open>p >= size()\<close> is the empty list.
\<close>

named_theorems text_simps "characteristic equations of the text routines"
named_theorems result_iff "inversion of option-valued operations"
named_theorems inv_intros "an operation keeps its component's invariant"

section \<open>Character classes\<close>

abbreviation DQ :: char where "DQ \<equiv> CHR 0x22"
abbreviation SQ :: char where "SQ \<equiv> CHR 0x27"
abbreviation BS :: char where "BS \<equiv> CHR 0x5C"
abbreviation NL :: char where "NL \<equiv> CHR 0x0A"
abbreviation CR :: char where "CR \<equiv> CHR 0x0D"
abbreviation TAB :: char where "TAB \<equiv> CHR 0x09"
abbreviation SP :: char where "SP \<equiv> CHR 0x20"

abbreviation code :: "char \<Rightarrow> nat" where "code c \<equiv> of_char c"

text \<open>\<open>isdigit\<close> and the open-coded \<open>c >= '0' && c <= '9'\<close>.\<close>

definition is_digit :: "char \<Rightarrow> bool" where
  "is_digit c \<longleftrightarrow> 48 \<le> code c \<and> code c \<le> 57"

text \<open>\<open>isspace\<close> of the C locale: blank and the codes 9 to 13.\<close>

definition is_space :: "char \<Rightarrow> bool" where
  "is_space c \<longleftrightarrow> code c = 32 \<or> (9 \<le> code c \<and> code c \<le> 13)"

text \<open>The four blanks the parsers of the program skip.\<close>

definition is_blank4 :: "char \<Rightarrow> bool" where
  "is_blank4 c \<longleftrightarrow> c = SP \<or> c = TAB \<or> c = NL \<or> c = CR"

definition is_alpha :: "char \<Rightarrow> bool" where
  "is_alpha c \<longleftrightarrow> (65 \<le> code c \<and> code c \<le> 90) \<or> (97 \<le> code c \<and> code c \<le> 122)"

definition is_alnum :: "char \<Rightarrow> bool" where
  "is_alnum c \<longleftrightarrow> is_alpha c \<or> is_digit c"

definition digit_val :: "char \<Rightarrow> nat" where
  "digit_val c = code c - 48"

definition digit_char :: "nat \<Rightarrow> char" where
  "digit_char d = char_of (48 + d)"

lemma digit_char_is_digit [simp]: "d < 10 \<Longrightarrow> is_digit (digit_char d)"
  by (simp add: is_digit_def digit_char_def)

lemma digit_val_digit_char [simp]: "d < 10 \<Longrightarrow> digit_val (digit_char d) = d"
  by (simp add: digit_val_def digit_char_def)

lemma is_digit_not_space: "is_digit c \<Longrightarrow> \<not> is_space c"
  by (auto simp: is_digit_def is_space_def)

lemma is_digit_not_blank4: "is_digit c \<Longrightarrow> \<not> is_blank4 c"
  by (auto simp: is_digit_def is_blank4_def)

section \<open>Searching\<close>

text \<open>
  \<open>std::string::find(c)\<close> and \<open>rfind(c)\<close>: the index of the first and of the last
  occurrence, \<open>None\<close> for \<open>npos\<close>.
\<close>

fun find_char :: "char \<Rightarrow> string \<Rightarrow> nat option" where
  "find_char c [] = None"
| "find_char c (x # xs) = (if x = c then Some 0 else map_option Suc (find_char c xs))"

fun rfind_char :: "char \<Rightarrow> string \<Rightarrow> nat option" where
  "rfind_char c [] = None"
| "rfind_char c (x # xs) =
     (case rfind_char c xs of Some i \<Rightarrow> Some (Suc i) | None \<Rightarrow> if x = c then Some 0 else None)"

text \<open>\<open>std::string::find(pat)\<close> for a string, and \<open>rfind(pat, 0) == 0\<close>, which tests a prefix.\<close>

fun starts_with :: "string \<Rightarrow> string \<Rightarrow> bool" where
  "starts_with [] s = True"
| "starts_with (p # ps) [] = False"
| "starts_with (p # ps) (c # cs) = (p = c \<and> starts_with ps cs)"

fun find_sub :: "string \<Rightarrow> string \<Rightarrow> nat option" where
  "find_sub pat [] = (if pat = [] then Some 0 else None)"
| "find_sub pat (c # cs) =
     (if starts_with pat (c # cs) then Some 0 else map_option Suc (find_sub pat cs))"

lemma find_char_None [result_iff]: "find_char c s = None \<longleftrightarrow> c \<notin> set s"
  by (induction s) auto

lemma rfind_char_None [result_iff]: "rfind_char c s = None \<longleftrightarrow> c \<notin> set s"
  by (induction s) (auto split: option.splits)

lemma find_char_append:
  "find_char c (xs @ ys) =
     (case find_char c xs of Some i \<Rightarrow> Some i | None \<Rightarrow> map_option ((+) (length xs)) (find_char c ys))"
proof (induction xs)
  case Nil
  then show ?case by (cases "find_char c ys") auto
next
  case (Cons x xs)
  then show ?case by (cases "find_char c xs"; cases "find_char c ys") auto
qed

lemma find_char_first [text_simps]:
  "c \<notin> set xs \<Longrightarrow> find_char c (xs @ c # ys) = Some (length xs)"
  by (induction xs) auto

lemma rfind_char_last [text_simps]:
  "c \<notin> set ys \<Longrightarrow> rfind_char c (xs @ c # ys) = Some (length xs)"
proof (induction xs)
  case Nil
  then show ?case by (cases "rfind_char c ys") (auto simp: rfind_char_None [symmetric])
qed auto

lemma find_char_Some:
  "find_char c s = Some i \<Longrightarrow> i < length s \<and> s ! i = c \<and> c \<notin> set (take i s)"
proof (induction s arbitrary: i)
  case (Cons x xs)
  then show ?case by (cases "x = c") (auto split: if_splits)
qed simp

lemma starts_with_append [simp]: "starts_with p (p @ s)"
  by (induction p) auto

lemma starts_with_iff: "starts_with p s \<longleftrightarrow> (\<exists>t. s = p @ t)"
  by (induction p s rule: starts_with.induct) auto

section \<open>Two generic interfaces\<close>

text \<open>
  A consuming scanner: it reads a value off the front of its input and returns the rest, which is
  a suffix of the input. Every text routine of the program that advances a position is one.
\<close>

definition suffix_of :: "'c list \<Rightarrow> 'c list \<Rightarrow> bool" where
  "suffix_of t s \<longleftrightarrow> (\<exists>u. s = u @ t)"

lemma suffix_of_refl [simp, intro]: "suffix_of s s"
  by (simp add: suffix_of_def)

lemma suffix_of_Nil [simp, intro]: "suffix_of [] s"
  by (simp add: suffix_of_def)

lemma suffix_of_Cons: "suffix_of t s \<Longrightarrow> suffix_of t (c # s)"
  unfolding suffix_of_def by (metis append_Cons)

lemma suffix_of_ConsD: "suffix_of (c # t) s \<Longrightarrow> suffix_of t s"
  unfolding suffix_of_def by (metis append_Cons append_Nil append_assoc)

lemma suffix_of_trans: "suffix_of t s \<Longrightarrow> suffix_of s r \<Longrightarrow> suffix_of t r"
  unfolding suffix_of_def by (metis append_assoc)

lemma suffix_of_drop [simp, intro]: "suffix_of (drop n s) s"
  unfolding suffix_of_def by (metis append_take_drop_id)

lemma suffix_of_dropWhile [simp, intro]: "suffix_of (dropWhile P s) s"
  unfolding suffix_of_def by (metis takeWhile_dropWhile_id)

lemma suffix_of_length: "suffix_of t s \<Longrightarrow> length t \<le> length s"
  by (auto simp: suffix_of_def)

lemma suffix_of_same_length: "suffix_of t s \<Longrightarrow> length t = length s \<Longrightarrow> t = s"
  by (auto simp: suffix_of_def)

lemma suffix_of_set: "suffix_of t s \<Longrightarrow> set t \<subseteq> set s"
  by (auto simp: suffix_of_def)

locale scanner =
  fixes scan :: "'c list \<Rightarrow> 'a \<times> 'c list"
  assumes scan_suffix: "suffix_of (snd (scan s)) s"
begin

lemma scan_length: "length (snd (scan s)) \<le> length s"
  by (rule suffix_of_length [OF scan_suffix])

lemma scan_set: "set (snd (scan s)) \<subseteq> set s"
  by (rule suffix_of_set [OF scan_suffix])

lemma scan_stuck: "length (snd (scan s)) = length s \<Longrightarrow> snd (scan s) = s"
  by (rule suffix_of_same_length [OF scan_suffix])

lemma scan_then: "suffix_of t (snd (scan s)) \<Longrightarrow> suffix_of t s"
  by (rule suffix_of_trans [OF _ scan_suffix])

end

text \<open>
  A step machine with an invariant: what one step keeps, every run keeps.
\<close>

locale machine_inv =
  fixes step :: "'s \<Rightarrow> 'e \<Rightarrow> 's" and inv :: "'s \<Rightarrow> bool"
  assumes step_inv: "inv s \<Longrightarrow> inv (step s e)"
begin

lemma run_inv: "inv s \<Longrightarrow> inv (foldl step s es)"
  by (induction es arbitrary: s) (auto intro: step_inv)

lemma run_prefix_inv: "inv s \<Longrightarrow> inv (foldl step s (take n es))"
  by (rule run_inv)

end

text \<open>
  A step relation with an invariant; every step machine is one.
\<close>

locale step_rel =
  fixes rel :: "'s \<Rightarrow> 's \<Rightarrow> bool" and inv :: "'s \<Rightarrow> bool"
  assumes rel_inv: "rel s s' \<Longrightarrow> inv s \<Longrightarrow> inv s'"
begin

lemma star_inv: "rel\<^sup>*\<^sup>* s s' \<Longrightarrow> inv s \<Longrightarrow> inv s'"
  by (induction rule: rtranclp_induct) (auto intro: rel_inv)

end

sublocale machine_inv \<subseteq> as_rel: step_rel "\<lambda>s s'. \<exists>e. s' = step s e" inv
  by unfold_locales (auto intro: step_inv)

text \<open>
  What a component prints and the other side reads back, for the values \<open>ok\<close>. So the printed form tells them apart.
\<close>

locale codec =
  fixes ok :: "'a \<Rightarrow> bool" and enc :: "'a \<Rightarrow> 'c list" and dec :: "'c list \<Rightarrow> 'a option"
  assumes dec_enc: "ok x \<Longrightarrow> dec (enc x) = Some x"
begin

lemma enc_eq_iff: "ok x \<Longrightarrow> ok y \<Longrightarrow> enc x = enc y \<longleftrightarrow> x = y"
  by (metis dec_enc option.inject)

lemma enc_inj: "inj_on enc (Collect ok)"
  by (rule inj_onI) (simp add: enc_eq_iff)

lemma dec_list: "list_all ok xs \<Longrightarrow> those (map (dec \<circ> enc) xs) = Some xs"
  by (induction xs) (simp_all add: dec_enc)

end

end
