(* ===== verification/GK_Text.thy ===== *)
theory GK_Text
  imports GK_Prelude
begin

text \<open>
  The numeric conversions of the C++ library the program calls: \<open>std::to_string\<close>,
  \<open>std::stoi\<close>, \<open>std::strtol\<close> and \<open>std::stod\<close>, on byte strings. \<open>None\<close> stands for the
  exception that every caller of \<open>stoi\<close> and \<open>stod\<close> in the program catches. A \<open>double\<close> is the
  exact rational the decimal literal denotes; rounding to 53 bits is not modelled.
\<close>

section \<open>Decimal output\<close>

fun nat_digits :: "nat \<Rightarrow> string" where
  "nat_digits n = (if n < 10 then [digit_char n] else nat_digits (n div 10) @ [digit_char (n mod 10)])"

declare nat_digits.simps [simp del]

definition to_string :: "int \<Rightarrow> string" where
  "to_string i = (if i < 0 then CHR ''-'' # nat_digits (nat (- i)) else nat_digits (nat i))"

section \<open>Decimal input\<close>

definition digits_val :: "string \<Rightarrow> nat" where
  "digits_val ds = foldl (\<lambda>a c. 10 * a + digit_val c) 0 ds"

text \<open>
  \<open>strtol(s, &end, 10)\<close> before saturation: blanks, an optional sign, digits. \<open>None\<close> when there
  is no digit; otherwise the value and the text from \<open>end\<close> on.
\<close>

definition scan_sign :: "string \<Rightarrow> bool \<times> string" where
  "scan_sign s = (case s of
      [] \<Rightarrow> (False, [])
    | c # cs \<Rightarrow> if c = CHR ''-'' then (True, cs) else if c = CHR ''+'' then (False, cs) else (False, s))"

definition scan_long :: "string \<Rightarrow> (int \<times> string) option" where
  "scan_long s =
     (let (neg, t) = scan_sign (dropWhile is_space s);
          ds = takeWhile is_digit t; rest = dropWhile is_digit t
      in if ds = [] then None
         else Some (if neg then - int (digits_val ds) else int (digits_val ds), rest))"

text \<open>\<open>strtol\<close> itself saturates at the ends of a 64-bit \<open>long\<close>.\<close>

definition LONG_MAX :: int where "LONG_MAX = 2 ^ 63 - 1"
definition LONG_MIN :: int where "LONG_MIN = - (2 ^ 63)"
definition INT_MAX :: int where "INT_MAX = 2 ^ 31 - 1"
definition INT_MIN :: int where "INT_MIN = - (2 ^ 31)"

definition strtol :: "string \<Rightarrow> (int \<times> string) option" where
  "strtol s = map_option (\<lambda>(v, r). (max LONG_MIN (min LONG_MAX v), r)) (scan_long s)"

text \<open>\<open>std::stoi\<close>: invalid input and values outside a 32-bit \<open>int\<close> throw.\<close>

definition stoi :: "string \<Rightarrow> int option" where
  "stoi s = (case scan_long s of
      None \<Rightarrow> None
    | Some (v, _) \<Rightarrow> if INT_MIN \<le> v \<and> v \<le> INT_MAX then Some v else None)"

section \<open>Decimal floating point\<close>

text \<open>
  \<open>std::stod\<close> on a literal \<open>[-]digits[.digits][e[+-]digits]\<close>, the only texts the program
  passes. No digit in the mantissa throws; so do magnitudes that overflow a \<open>double\<close> and
  non-zero ones below the smallest normal \<open>double\<close> (\<open>ERANGE\<close>). An exponent mark without digits
  is not part of the number.
\<close>

definition pow10 :: "int \<Rightarrow> rat" where
  "pow10 e = (if 0 \<le> e then 10 ^ nat e else 1 / 10 ^ nat (- e))"

definition scan_exp :: "string \<Rightarrow> int" where
  "scan_exp s = (case s of
      [] \<Rightarrow> 0
    | c # cs \<Rightarrow>
        if c = CHR ''e'' \<or> c = CHR ''E''
        then (let (neg, t) = scan_sign cs; ds = takeWhile is_digit t
              in if neg then - int (digits_val ds) else int (digits_val ds))
        else 0)"

definition scan_frac :: "string \<Rightarrow> string \<times> string" where
  "scan_frac s = (case s of
      [] \<Rightarrow> ([], [])
    | c # cs \<Rightarrow> if c = CHR ''.'' then (takeWhile is_digit cs, dropWhile is_digit cs) else ([], s))"

definition stod_mag :: "string \<Rightarrow> rat option" where
  "stod_mag s =
     (let ip = takeWhile is_digit s;
          (fp, t) = scan_frac (dropWhile is_digit s);
          mag = rat_of_nat (digits_val (ip @ fp)) * pow10 (scan_exp t - int (length fp))
      in if ip = [] \<and> fp = [] then None
         else if mag \<ge> 2 ^ 1024 \<or> (mag \<noteq> 0 \<and> mag < 1 / 2 ^ 1022) then None
         else Some mag)"

definition stod :: "string \<Rightarrow> rat option" where
  "stod s = (case s of
      [] \<Rightarrow> None
    | c # cs \<Rightarrow> if c = CHR ''-'' then map_option uminus (stod_mag cs) else stod_mag s)"

text \<open>The conversion \<open>(int)d\<close>: truncation towards zero.\<close>

definition to_int :: "rat \<Rightarrow> int" where
  "to_int d = (if d < 0 then - \<lfloor>- d\<rfloor> else \<lfloor>d\<rfloor>)"

lemma to_int_of_int [simp]: "to_int (of_int i) = i"
  by (simp add: to_int_def)

section \<open>Round trips\<close>

lemma digits_val_append: "digits_val (xs @ [c]) = 10 * digits_val xs + digit_val c"
  by (simp add: digits_val_def)

lemma digits_val_Nil [simp]: "digits_val [] = 0"
  by (simp add: digits_val_def)

lemma nat_digits_all: "\<forall>c \<in> set (nat_digits n). is_digit c"
proof (induction n rule: nat_digits.induct)
  case (1 n)
  then show ?case by (subst nat_digits.simps) auto
qed

lemma nat_digits_is_digit [simp]: "c \<in> set (nat_digits n) \<Longrightarrow> is_digit c"
  using nat_digits_all by blast

lemma nat_digits_nonempty [simp]: "nat_digits n \<noteq> []"
  by (subst nat_digits.simps) simp

lemma digits_val_nat_digits [simp]: "digits_val (nat_digits n) = n"
proof (induction n rule: nat_digits.induct)
  case (1 n)
  show ?case
  proof (cases "n < 10")
    case True
    then show ?thesis by (subst nat_digits.simps) (simp add: digits_val_def)
  next
    case False
    with 1 have "digits_val (nat_digits (n div 10)) = n div 10" by simp
    with False show ?thesis by (subst nat_digits.simps) (simp add: digits_val_append)
  qed
qed

lemma takeWhile_digits [text_simps]:
  assumes "\<And>c. c \<in> set ds \<Longrightarrow> is_digit c" and "rest = [] \<or> \<not> is_digit (hd rest)"
  shows "takeWhile is_digit (ds @ rest) = ds" and "dropWhile is_digit (ds @ rest) = rest"
proof -
  from assms(2) have "takeWhile is_digit rest = []" "dropWhile is_digit rest = rest"
    by (cases rest; auto)+
  then show "takeWhile is_digit (ds @ rest) = ds" "dropWhile is_digit (ds @ rest) = rest"
    using assms(1) by (simp_all add: takeWhile_append2 dropWhile_append2)
qed

lemma nat_digits_hd: "\<exists>d ds. nat_digits n = d # ds \<and> is_digit d"
  by (metis list.exhaust list.set_intros(1) nat_digits_is_digit nat_digits_nonempty)

lemma scan_long_to_string:
  assumes "rest = [] \<or> \<not> is_digit (hd rest)"
  shows "scan_long (to_string i @ rest) = Some (i, rest)"
proof -
  let ?ds = "nat_digits (nat \<bar>i\<bar>)"
  obtain d ds where hd: "?ds = d # ds" and dig: "is_digit d" using nat_digits_hd by blast
  have nsp: "\<not> is_space d" "d \<noteq> CHR ''-''" "d \<noteq> CHR ''+''"
    using dig by (auto simp: is_digit_def is_space_def)
  have tw: "takeWhile is_digit (?ds @ rest) = ?ds" "dropWhile is_digit (?ds @ rest) = rest"
    using takeWhile_digits [of ?ds rest] assms by auto
  have "\<not> is_space (CHR ''-'')" by (simp add: is_space_def)
  then show ?thesis
  proof (cases "i < 0")
    case True
    then have "to_string i = CHR ''-'' # ?ds" by (simp add: to_string_def)
    with True tw \<open>\<not> is_space (CHR ''-'')\<close> show ?thesis
      by (simp add: scan_long_def scan_sign_def)
  next
    case False
    then have ts: "to_string i = ?ds" by (simp add: to_string_def)
    have "dropWhile is_space (?ds @ rest) = ?ds @ rest" using nsp hd by simp
    moreover have "scan_sign (?ds @ rest) = (False, ?ds @ rest)"
      using nsp hd by (simp add: scan_sign_def)
    ultimately show ?thesis using False tw unfolding scan_long_def ts by simp
  qed
qed

lemma stoi_to_string:
  assumes "rest = [] \<or> \<not> is_digit (hd rest)" and "INT_MIN \<le> i" and "i \<le> INT_MAX"
  shows "stoi (to_string i @ rest) = Some i"
  using assms by (simp add: stoi_def scan_long_to_string)

interpretation numbers: codec "\<lambda>i. INT_MIN \<le> i \<and> i \<le> INT_MAX" to_string stoi
  by unfold_locales (use stoi_to_string [of "[]"] in simp)

lemma stoi_range: "stoi s = Some v \<Longrightarrow> INT_MIN \<le> v \<and> v \<le> INT_MAX"
  by (auto simp: stoi_def split: option.splits if_splits)

lemma set_to_string: "c \<in> set (to_string i) \<Longrightarrow> is_digit c \<or> c = CHR ''-''"
  by (auto simp: to_string_def split: if_splits)

lemma to_string_nonempty [simp]: "to_string i \<noteq> []"
  by (simp add: to_string_def)

lemma to_string_not_char: "\<not> is_digit c \<Longrightarrow> c \<noteq> CHR ''-'' \<Longrightarrow> c \<notin> set (to_string i)"
  using set_to_string by blast

end
