(* ===== verification/GK_Json.thy ===== *)
theory GK_Json
  imports GK_Text
begin

text \<open>
  The JSON reader, \<open>json.h\<close> and \<open>json.cpp\<close>. A position \<open>p\<close> into the text is the rest of the text
  from \<open>p\<close>; \<open>p >= in.size()\<close> is the empty rest, so the unguarded \<open>p++\<close> of the source is \<open>drop 1\<close>.
  The two \<open>while (true)\<close> loops need not end, so the parsing functions carry fuel: \<open>None\<close> means
  that the fuel ran out. It is shown in \<open>GK_JsonProps\<close> that the budget of \<open>parse_json\<close> is
  enough whenever the loops end at all, so \<open>parse_json s = None\<close> is exactly divergence.
\<close>

section \<open>Values\<close>

text \<open>
  \<open>struct JsonValue\<close>: the \<open>type\<close> tag is the constructor, the fields a tag does not use keep their
  default, which the accessors return.
\<close>

datatype json =
    JNull
  | JBool bool
  | JNum rat
  | JStr string
  | JArr "json list"
  | JObj "(string \<times> json) list"

fun is_obj :: "json \<Rightarrow> bool" where
  "is_obj (JObj _) = True"
| "is_obj _ = False"

fun is_arr :: "json \<Rightarrow> bool" where
  "is_arr (JArr _) = True"
| "is_arr _ = False"

fun is_str :: "json \<Rightarrow> bool" where
  "is_str (JStr _) = True"
| "is_str _ = False"

fun jfields :: "json \<Rightarrow> (string \<times> json) list" where
  "jfields (JObj o') = o'"
| "jfields _ = []"

fun jelems :: "json \<Rightarrow> json list" where
  "jelems (JArr a) = a"
| "jelems _ = []"

definition jget :: "json \<Rightarrow> string \<Rightarrow> json option" where
  "jget v key = map_of (jfields v) key"

definition jidx :: "json \<Rightarrow> nat \<Rightarrow> json option" where
  "jidx v i = (if i < length (jelems v) then Some (jelems v ! i) else None)"

fun as_str :: "json \<Rightarrow> string" where
  "as_str (JStr s) = s"
| "as_str _ = []"

fun as_bool :: "json \<Rightarrow> bool" where
  "as_bool (JBool b) = b"
| "as_bool _ = False"

fun as_num :: "json \<Rightarrow> rat" where
  "as_num (JNum n) = n"
| "as_num _ = 0"

section \<open>The reader\<close>

definition skipws :: "string \<Rightarrow> string" where
  "skipws s = dropWhile is_blank4 s"

text \<open>The \<open>switch\<close> on the character after a backslash; every other one stands for itself.\<close>

definition unescape :: "char \<Rightarrow> char" where
  "unescape c =
     (if c = CHR ''b'' then CHR 0x08 else if c = CHR ''f'' then CHR 0x0C
      else if c = CHR ''n'' then NL else if c = CHR ''r'' then CR
      else if c = CHR ''t'' then TAB else c)"

fun str_body :: "string \<Rightarrow> string \<times> string" where
  "str_body [] = ([], [])"
| "str_body (c # cs) =
     (if c = DQ then ([], cs)
      else if c = BS then
        (case cs of
           [] \<Rightarrow> ([], [])
         | e # cs' \<Rightarrow> (let (r, rest) = str_body cs' in (unescape e # r, rest)))
      else (let (r, rest) = str_body cs in (c # r, rest)))"

definition parse_str :: "string \<Rightarrow> string \<times> string" where
  "parse_str s = str_body (drop 1 s)"

text \<open>\<open>parse_num\<close>: the extent of the literal, then \<open>std::stod\<close>, whose exceptions give 0.\<close>

definition take_sign :: "string \<Rightarrow> string" where
  "take_sign s = (case s of [] \<Rightarrow> [] | c # cs \<Rightarrow> if c = CHR ''-'' then cs else s)"

definition take_frac :: "string \<Rightarrow> string" where
  "take_frac s = (case s of [] \<Rightarrow> [] | c # cs \<Rightarrow> if c = CHR ''.'' then dropWhile is_digit cs else s)"

definition take_expo :: "string \<Rightarrow> string" where
  "take_expo s = (case s of
      [] \<Rightarrow> []
    | c # cs \<Rightarrow>
        if c = CHR ''e'' \<or> c = CHR ''E''
        then dropWhile is_digit (case cs of [] \<Rightarrow> [] | d # ds \<Rightarrow> if d = CHR ''+'' \<or> d = CHR ''-'' then ds else cs)
        else s)"

definition parse_num :: "string \<Rightarrow> rat \<times> string" where
  "parse_num s =
     (let rest = take_expo (take_frac (dropWhile is_digit (take_sign s)));
          lit = take (length s - length rest) s
      in (case stod lit of Some d \<Rightarrow> d | None \<Rightarrow> 0, rest))"

text \<open>
  \<open>parse_val\<close> after the blanks: a string, the literals, a number, and \<open>null\<close> without moving on
  any other character. Objects and arrays, which \<open>parse_val\<close> tests between the string and
  the literals, are the recursive part below.
\<close>

definition parse_scalar :: "char \<Rightarrow> string \<Rightarrow> json \<times> string" where
  "parse_scalar c cs =
     (if c = DQ then (let (t, r) = parse_str (c # cs) in (JStr t, r))
      else if starts_with ''true'' (c # cs) then (JBool True, drop 4 (c # cs))
      else if starts_with ''false'' (c # cs) then (JBool False, drop 5 (c # cs))
      else if starts_with ''null'' (c # cs) then (JNull, drop 4 (c # cs))
      else if c = CHR ''-'' \<or> is_digit c then (let (d, r) = parse_num (c # cs) in (JNum d, r))
      else (JNull, c # cs))"

fun parse_val :: "nat \<Rightarrow> string \<Rightarrow> (json \<times> string) option"
and parse_obj :: "nat \<Rightarrow> string \<Rightarrow> (json \<times> string) option"
and parse_arr :: "nat \<Rightarrow> string \<Rightarrow> (json \<times> string) option"
and obj_loop :: "nat \<Rightarrow> string \<Rightarrow> ((string \<times> json) list \<times> string) option"
and arr_loop :: "nat \<Rightarrow> string \<Rightarrow> (json list \<times> string) option"
where
  "parse_val 0 s = None"
| "parse_val (Suc n) s =
     (case skipws s of
        [] \<Rightarrow> Some (JNull, [])
      | c # cs \<Rightarrow>
          if c = CHR ''{'' then parse_obj n (c # cs)
          else if c = CHR ''['' then parse_arr n (c # cs)
          else Some (parse_scalar c cs))"
| "parse_obj 0 s = None"
| "parse_obj (Suc n) s =
     (case skipws (drop 1 s) of
        [] \<Rightarrow> map_option (\<lambda>(kvs, r). (JObj kvs, r)) (obj_loop n [])
      | c # cs \<Rightarrow>
          if c = CHR ''}'' then Some (JObj [], cs)
          else map_option (\<lambda>(kvs, r). (JObj kvs, r)) (obj_loop n (c # cs)))"
| "parse_arr 0 s = None"
| "parse_arr (Suc n) s =
     (case skipws (drop 1 s) of
        [] \<Rightarrow> map_option (\<lambda>(vs, r). (JArr vs, r)) (arr_loop n [])
      | c # cs \<Rightarrow>
          if c = CHR '']'' then Some (JArr [], cs)
          else map_option (\<lambda>(vs, r). (JArr vs, r)) (arr_loop n (c # cs)))"
| "obj_loop 0 s = None"
| "obj_loop (Suc n) s =
     (let (k, s1) = parse_str (skipws s) in
      case parse_val n (drop 1 (skipws s1)) of
        None \<Rightarrow> None
      | Some (v, s2) \<Rightarrow>
          (case skipws s2 of
             [] \<Rightarrow> map_option (\<lambda>(kvs, r). ((k, v) # kvs, r)) (obj_loop n [])
           | c # cs \<Rightarrow>
               if c = CHR '','' then map_option (\<lambda>(kvs, r). ((k, v) # kvs, r)) (obj_loop n cs)
               else if c = CHR ''}'' then Some ([(k, v)], cs)
               else map_option (\<lambda>(kvs, r). ((k, v) # kvs, r)) (obj_loop n (c # cs))))"
| "arr_loop 0 s = None"
| "arr_loop (Suc n) s =
     (case parse_val n s of
        None \<Rightarrow> None
      | Some (v, s2) \<Rightarrow>
          (case skipws s2 of
             [] \<Rightarrow> map_option (\<lambda>(vs, r). (v # vs, r)) (arr_loop n [])
           | c # cs \<Rightarrow>
               if c = CHR '','' then map_option (\<lambda>(vs, r). (v # vs, r)) (arr_loop n cs)
               else if c = CHR '']'' then Some ([v], cs)
               else map_option (\<lambda>(vs, r). (v # vs, r)) (arr_loop n (c # cs))))"

text \<open>The budget: three calls per character, and the outermost one.\<close>

definition json_fuel :: "string \<Rightarrow> nat" where
  "json_fuel s = 3 * length s + 2"

definition parse_json :: "string \<Rightarrow> json option" where
  "parse_json s = map_option fst (parse_val (json_fuel s) s)"

section \<open>Every routine consumes its input\<close>

lemma skipws_suffix [simp]: "suffix_of (skipws s) s"
  by (simp add: skipws_def)

lemma str_body_suffix: "suffix_of (snd (str_body s)) s"
proof (induction s rule: str_body.induct)
  case (2 c cs)
  then show ?case
    by (cases cs) (simp_all add: split_beta Let_def suffix_of_Cons)
qed simp

lemma take_sign_suffix: "suffix_of (take_sign s) s"
  by (auto simp: take_sign_def suffix_of_Cons split: list.splits)

lemma take_frac_suffix: "suffix_of (take_frac s) s"
  by (auto simp: take_frac_def suffix_of_Cons split: list.splits)

lemma take_expo_suffix: "suffix_of (take_expo s) s"
  by (auto simp: take_expo_def suffix_of_Cons simp del: dropWhile.simps split: list.splits)

lemma parse_num_suffix: "suffix_of (snd (parse_num s)) s"
proof -
  have "suffix_of (take_expo (take_frac (dropWhile is_digit (take_sign s)))) s"
    by (meson suffix_of_dropWhile suffix_of_trans take_expo_suffix take_frac_suffix take_sign_suffix)
  then show ?thesis by (simp add: parse_num_def Let_def)
qed

interpretation str_scan: scanner parse_str
  by unfold_locales
    (simp add: parse_str_def, meson str_body_suffix suffix_of_drop suffix_of_trans)

interpretation num_scan: scanner parse_num
  by unfold_locales (rule parse_num_suffix)

end
