(* ===== verification/GK_JsonProps.thy ===== *)
theory GK_JsonProps
  imports GK_Json
begin

text \<open>
  The two loops advance in the same way: after the value, a comma moves on, the closing bracket ends
  the loop, anything else (also the end of the text) starts the next round where it stands.
\<close>

definition after_value :: "char \<Rightarrow> string \<Rightarrow> (string + string)" where
  "after_value close s = (case skipws s of
      [] \<Rightarrow> Inl []
    | c # cs \<Rightarrow> if c = CHR '','' then Inl cs else if c = close then Inr cs else Inl (c # cs))"

lemma obj_loop_Suc:
  "obj_loop (Suc n) s =
     (let (k, s1) = parse_str (skipws s) in
      case parse_val n (drop 1 (skipws s1)) of
        None \<Rightarrow> None
      | Some (v, s2) \<Rightarrow>
          (case after_value (CHR ''}'') s2 of
             Inl t \<Rightarrow> map_option (\<lambda>(kvs, r). ((k, v) # kvs, r)) (obj_loop n t)
           | Inr t \<Rightarrow> Some ([(k, v)], t)))"
  by (auto simp: after_value_def split: option.splits list.splits prod.splits)

lemma arr_loop_Suc:
  "arr_loop (Suc n) s =
     (case parse_val n s of
        None \<Rightarrow> None
      | Some (v, s2) \<Rightarrow>
          (case after_value (CHR '']'') s2 of
             Inl t \<Rightarrow> map_option (\<lambda>(vs, r). (v # vs, r)) (arr_loop n t)
           | Inr t \<Rightarrow> Some ([v], t)))"
  by (auto simp: after_value_def split: option.splits list.splits prod.splits)

definition open_list :: "char \<Rightarrow> string \<Rightarrow> (string + string)" where
  "open_list close s = (case skipws (drop 1 s) of
      [] \<Rightarrow> Inl [] | c # cs \<Rightarrow> if c = close then Inr cs else Inl (c # cs))"

lemma parse_obj_Suc:
  "parse_obj (Suc n) s = (case open_list (CHR ''}'') s of
      Inl t \<Rightarrow> map_option (\<lambda>(kvs, r). (JObj kvs, r)) (obj_loop n t)
    | Inr t \<Rightarrow> Some (JObj [], t))"
  by (auto simp: open_list_def split: list.splits)

lemma parse_arr_Suc:
  "parse_arr (Suc n) s = (case open_list (CHR '']'') s of
      Inl t \<Rightarrow> map_option (\<lambda>(vs, r). (JArr vs, r)) (arr_loop n t)
    | Inr t \<Rightarrow> Some (JArr [], t))"
  by (auto simp: open_list_def split: list.splits)

lemmas raw_eqs = parse_obj.simps(2) parse_arr.simps(2) obj_loop.simps(2) arr_loop.simps(2)

declare raw_eqs [simp del]

text \<open>The successful runs as rules: how a result is built, and what a result came from.\<close>

lemma parse_obj_intros:
  "open_list (CHR ''}'') s = Inr r \<Longrightarrow> parse_obj (Suc n) s = Some (JObj [], r)"
  "open_list (CHR ''}'') s = Inl t \<Longrightarrow> obj_loop n t = Some (kvs, r) \<Longrightarrow> parse_obj (Suc n) s = Some (JObj kvs, r)"
  by (simp_all add: parse_obj_Suc)

lemma parse_arr_intros:
  "open_list (CHR '']'') s = Inr r \<Longrightarrow> parse_arr (Suc n) s = Some (JArr [], r)"
  "open_list (CHR '']'') s = Inl t \<Longrightarrow> arr_loop n t = Some (vs, r) \<Longrightarrow> parse_arr (Suc n) s = Some (JArr vs, r)"
  by (simp_all add: parse_arr_Suc)

lemma obj_loop_intros:
  assumes "parse_str (skipws s) = (k, s1)" and "parse_val n (drop 1 (skipws s1)) = Some (v, s2)"
  shows "after_value (CHR ''}'') s2 = Inr r \<Longrightarrow> obj_loop (Suc n) s = Some ([(k, v)], r)"
    and "after_value (CHR ''}'') s2 = Inl t \<Longrightarrow> obj_loop n t = Some (kvs, r) \<Longrightarrow>
         obj_loop (Suc n) s = Some ((k, v) # kvs, r)"
  using assms by (simp_all add: obj_loop_Suc)

lemma arr_loop_intros:
  assumes "parse_val n s = Some (v, s2)"
  shows "after_value (CHR '']'') s2 = Inr r \<Longrightarrow> arr_loop (Suc n) s = Some ([v], r)"
    and "after_value (CHR '']'') s2 = Inl t \<Longrightarrow> arr_loop n t = Some (vs, r) \<Longrightarrow>
         arr_loop (Suc n) s = Some (v # vs, r)"
  using assms by (simp_all add: arr_loop_Suc)

lemma parse_obj_SomeE:
  assumes "parse_obj (Suc n) s = Some (j, r)"
  obtains (last) "open_list (CHR ''}'') s = Inr r" "j = JObj []"
  | (more) t kvs where "open_list (CHR ''}'') s = Inl t" "obj_loop n t = Some (kvs, r)" "j = JObj kvs"
  using assms by (auto simp: parse_obj_Suc split: sum.splits)

lemma parse_arr_SomeE:
  assumes "parse_arr (Suc n) s = Some (j, r)"
  obtains (last) "open_list (CHR '']'') s = Inr r" "j = JArr []"
  | (more) t vs where "open_list (CHR '']'') s = Inl t" "arr_loop n t = Some (vs, r)" "j = JArr vs"
  using assms by (auto simp: parse_arr_Suc split: sum.splits)

lemma obj_loop_SomeE:
  assumes "obj_loop (Suc n) s = Some (kvs, r)"
  obtains (last) k s1 v s2 where "parse_str (skipws s) = (k, s1)"
      "parse_val n (drop 1 (skipws s1)) = Some (v, s2)" "after_value (CHR ''}'') s2 = Inr r" "kvs = [(k, v)]"
  | (more) k s1 v s2 t kvs' where "parse_str (skipws s) = (k, s1)"
      "parse_val n (drop 1 (skipws s1)) = Some (v, s2)" "after_value (CHR ''}'') s2 = Inl t"
      "obj_loop n t = Some (kvs', r)" "kvs = (k, v) # kvs'"
proof -
  obtain k s1 where ks: "parse_str (skipws s) = (k, s1)" by force
  with assms obtain v s2 where v: "parse_val n (drop 1 (skipws s1)) = Some (v, s2)"
    by (auto simp: obj_loop_Suc split: option.splits)
  show ?thesis
    using assms ks v that by (cases "after_value (CHR ''}'') s2") (auto simp: obj_loop_Suc)
qed

lemma arr_loop_SomeE:
  assumes "arr_loop (Suc n) s = Some (vs, r)"
  obtains (last) v s2 where "parse_val n s = Some (v, s2)" "after_value (CHR '']'') s2 = Inr r" "vs = [v]"
  | (more) v s2 t vs' where "parse_val n s = Some (v, s2)" "after_value (CHR '']'') s2 = Inl t"
      "arr_loop n t = Some (vs', r)" "vs = v # vs'"
proof -
  from assms obtain v s2 where v: "parse_val n s = Some (v, s2)"
    by (auto simp: arr_loop_Suc split: option.splits)
  show ?thesis
    using assms v that by (cases "after_value (CHR '']'') s2") (auto simp: arr_loop_Suc)
qed

text \<open>
  Induction over the fuel for the five functions at once: what one unit of fuel more keeps, given
  the property of the calls below.
\<close>

lemma jparse_induct:
  assumes "\<And>s. PV 0 s" "\<And>s. PO 0 s" "\<And>s. PA 0 s" "\<And>s. QO 0 s" "\<And>s. QA 0 s"
    and "\<And>n s. (\<And>t. PO n t) \<Longrightarrow> (\<And>t. PA n t) \<Longrightarrow> PV (Suc n) s"
    and "\<And>n s. (\<And>t. QO n t) \<Longrightarrow> PO (Suc n) s"
    and "\<And>n s. (\<And>t. QA n t) \<Longrightarrow> PA (Suc n) s"
    and "\<And>n s. (\<And>t. PV n t) \<Longrightarrow> (\<And>t. QO n t) \<Longrightarrow> QO (Suc n) s"
    and "\<And>n s. (\<And>t. PV n t) \<Longrightarrow> (\<And>t. QA n t) \<Longrightarrow> QA (Suc n) s"
  shows "PV n s \<and> PO n s \<and> PA n s \<and> QO n s \<and> QA n s"
proof (induction n arbitrary: s)
  case 0
  show ?case using assms(1-5) by blast
next
  case (Suc n)
  then have "\<And>t. PV n t" "\<And>t. PO n t" "\<And>t. PA n t" "\<And>t. QO n t" "\<And>t. QA n t" by blast+
  then show ?case using assms(6-10) by blast
qed

text \<open>Fuel only decides whether there is a result, never which one.\<close>

definition mono_at :: "(nat \<Rightarrow> string \<Rightarrow> 'a option) \<Rightarrow> nat \<Rightarrow> string \<Rightarrow> bool" where
  "mono_at f n s \<longleftrightarrow> (\<forall>x. f n s = Some x \<longrightarrow> f (Suc n) s = Some x)"

lemma jparse_mono1:
  "mono_at parse_val n s \<and> mono_at parse_obj n s \<and> mono_at parse_arr n s \<and>
   mono_at obj_loop n s \<and> mono_at arr_loop n s"
proof (rule jparse_induct [where PV = "mono_at parse_val" and PO = "mono_at parse_obj"
      and PA = "mono_at parse_arr" and QO = "mono_at obj_loop" and QA = "mono_at arr_loop"])
  fix n s
  assume "\<And>t. mono_at parse_obj n t" "\<And>t. mono_at parse_arr n t"
  then show "mono_at parse_val (Suc n) s"
    by (auto simp: mono_at_def split: list.splits)
next
  fix n s
  assume "\<And>t. mono_at obj_loop n t"
  then show "mono_at parse_obj (Suc n) s"
    by (auto simp: mono_at_def parse_obj_Suc split: sum.splits)
next
  fix n s
  assume "\<And>t. mono_at arr_loop n t"
  then show "mono_at parse_arr (Suc n) s"
    by (auto simp: mono_at_def parse_arr_Suc split: sum.splits)
next
  fix n s
  assume "\<And>t. mono_at parse_val n t" "\<And>t. mono_at obj_loop n t"
  then have IH: "\<And>t v. parse_val n t = Some v \<Longrightarrow> parse_val (Suc n) t = Some v"
      "\<And>t v. obj_loop n t = Some v \<Longrightarrow> obj_loop (Suc n) t = Some v"
    unfolding mono_at_def by blast+
  show "mono_at obj_loop (Suc n) s"
    unfolding mono_at_def split_paired_All
  proof (intro allI impI)
    fix kvs r
    assume "obj_loop (Suc n) s = Some (kvs, r)"
    then show "obj_loop (Suc (Suc n)) s = Some (kvs, r)"
    proof (cases rule: obj_loop_SomeE)
      case last
      then show ?thesis using obj_loop_intros(1) [OF last(1) IH(1) [OF last(2)] last(3)] by simp
    next
      case more
      then show ?thesis
        using obj_loop_intros(2) [OF more(1) IH(1) [OF more(2)] more(3) IH(2) [OF more(4)]] by simp
    qed
  qed
next
  fix n s
  assume "\<And>t. mono_at parse_val n t" "\<And>t. mono_at arr_loop n t"
  then have IH: "\<And>t v. parse_val n t = Some v \<Longrightarrow> parse_val (Suc n) t = Some v"
      "\<And>t v. arr_loop n t = Some v \<Longrightarrow> arr_loop (Suc n) t = Some v"
    unfolding mono_at_def by blast+
  show "mono_at arr_loop (Suc n) s"
    unfolding mono_at_def split_paired_All
  proof (intro allI impI)
    fix vs r
    assume "arr_loop (Suc n) s = Some (vs, r)"
    then show "arr_loop (Suc (Suc n)) s = Some (vs, r)"
    proof (cases rule: arr_loop_SomeE)
      case last
      then show ?thesis using arr_loop_intros(1) [OF IH(1) [OF last(1)] last(2)] by simp
    next
      case more
      then show ?thesis
        using arr_loop_intros(2) [OF IH(1) [OF more(1)] more(2) IH(2) [OF more(3)]] by simp
    qed
  qed
qed (simp_all add: mono_at_def)

lemma mono_at_le:
  assumes "\<And>k t. mono_at f k t" and "n \<le> m" and "f n s = Some v"
  shows "f m s = Some v"
  using assms(2,3,1) unfolding mono_at_def by (induction m rule: dec_induct) blast+

lemma jparse_mono:
  assumes "n \<le> m"
  shows "parse_val n s = Some v \<Longrightarrow> parse_val m s = Some v"
    and "obj_loop n s = Some o' \<Longrightarrow> obj_loop m s = Some o'"
    and "arr_loop n s = Some a \<Longrightarrow> arr_loop m s = Some a"
  using mono_at_le [of parse_val n m s v] mono_at_le [of obj_loop n m s o']
    mono_at_le [of arr_loop n m s a] jparse_mono1 assms
  by simp_all

section \<open>What is left is a suffix\<close>

lemma after_value_suffix:
  "after_value c s = Inl t \<Longrightarrow> suffix_of t s" "after_value c s = Inr t \<Longrightarrow> suffix_of t s"
  by (auto simp: after_value_def split: list.splits if_splits)
    (metis skipws_suffix suffix_of_ConsD)+

lemma open_list_suffix:
  "open_list c s = Inl t \<Longrightarrow> suffix_of t (drop 1 s)" "open_list c s = Inr t \<Longrightarrow> suffix_of t (drop 1 s)"
  by (auto simp: open_list_def split: list.splits if_splits)
    (metis One_nat_def drop_Suc_Cons drop0 skipws_suffix suffix_of_ConsD)+

lemma parse_scalar_suffix: "suffix_of (snd (parse_scalar c cs)) (c # cs)"
  using str_scan.scan_suffix [of "c # cs"] num_scan.scan_suffix [of "c # cs"]
  by (auto simp: parse_scalar_def split_beta suffix_of_drop [of 3 cs, THEN suffix_of_Cons]
      suffix_of_drop [of 4 cs, THEN suffix_of_Cons])

definition rest_at :: "(nat \<Rightarrow> string \<Rightarrow> ('a \<times> string) option) \<Rightarrow> nat \<Rightarrow> string \<Rightarrow> bool" where
  "rest_at f n s \<longleftrightarrow> (\<forall>v r. f n s = Some (v, r) \<longrightarrow> suffix_of r s)"

lemma jparse_rest1:
  "rest_at parse_val n s \<and> rest_at parse_obj n s \<and> rest_at parse_arr n s \<and>
   rest_at obj_loop n s \<and> rest_at arr_loop n s"
proof (rule jparse_induct [where PV = "rest_at parse_val" and PO = "rest_at parse_obj"
      and PA = "rest_at parse_arr" and QO = "rest_at obj_loop" and QA = "rest_at arr_loop"])
  fix n s
  assume IH: "\<And>t. rest_at parse_obj n t" "\<And>t. rest_at parse_arr n t"
  show "rest_at parse_val (Suc n) s"
    unfolding rest_at_def
  proof (intro allI impI)
    fix v r
    assume eq: "parse_val (Suc n) s = Some (v, r)"
    show "suffix_of r s"
    proof (cases "skipws s")
      case (Cons c cs)
      have "suffix_of r (c # cs)"
        using eq Cons IH parse_scalar_suffix [of c cs]
        by (auto simp: rest_at_def split: if_splits)
      then show ?thesis by (metis Cons skipws_suffix suffix_of_trans)
    qed (use eq in simp)
  qed
next
  fix n s
  assume "\<And>t. rest_at obj_loop n t"
  then show "rest_at parse_obj (Suc n) s"
    unfolding rest_at_def
    by (intro allI impI, elim parse_obj_SomeE)
      (metis open_list_suffix suffix_of_drop suffix_of_trans)+
next
  fix n s
  assume "\<And>t. rest_at arr_loop n t"
  then show "rest_at parse_arr (Suc n) s"
    unfolding rest_at_def
    by (intro allI impI, elim parse_arr_SomeE)
      (metis open_list_suffix suffix_of_drop suffix_of_trans)+
next
  fix n s
  assume IH: "\<And>t. rest_at parse_val n t" "\<And>t. rest_at obj_loop n t"
  have key: "suffix_of s2 s" if "parse_str (skipws s) = (k, s1)" and
      "parse_val n (drop 1 (skipws s1)) = Some (v, s2)" for k s1 v s2
    using that IH(1) str_scan.scan_suffix [of "skipws s"] unfolding rest_at_def
    by (metis skipws_suffix snd_conv suffix_of_drop suffix_of_trans)
  show "rest_at obj_loop (Suc n) s"
    unfolding rest_at_def
    using IH(2) [unfolded rest_at_def]
    by (intro allI impI, elim obj_loop_SomeE)
      (metis key after_value_suffix suffix_of_trans)+
next
  fix n s
  assume "\<And>t. rest_at parse_val n t" "\<And>t. rest_at arr_loop n t"
  then show "rest_at arr_loop (Suc n) s"
    unfolding rest_at_def
    by (intro allI impI, elim arr_loop_SomeE)
      (metis after_value_suffix suffix_of_trans)+
qed (simp_all add: rest_at_def)

lemma jparse_rest:
  "parse_val n s = Some (v, r) \<Longrightarrow> suffix_of r s"
  "obj_loop n s = Some (kvs, r) \<Longrightarrow> suffix_of r s"
  "arr_loop n s = Some (vs, r) \<Longrightarrow> suffix_of r s"
  using jparse_rest1 unfolding rest_at_def by blast+

section \<open>The budget is enough\<close>

text \<open>A round of a loop that succeeds in the end leaves strictly less text to the next round.\<close>

lemma obj_loop_progress:
  assumes "parse_str (skipws s) = (k, s1)" and "parse_val n (drop 1 (skipws s1)) = Some (v, s2)"
    and "after_value (CHR ''}'') s2 = Inl t" and "obj_loop n t = Some (kvs, r)"
  shows "length t < length s"
proof (rule ccontr)
  assume "\<not> length t < length s"
  moreover have "suffix_of t s"
    using assms jparse_rest(1) [OF assms(2)] after_value_suffix(1) [OF assms(3)]
      str_scan.scan_suffix [of "skipws s"]
    by (metis skipws_suffix snd_conv suffix_of_drop suffix_of_trans)
  ultimately have "t = s" by (simp add: suffix_of_length suffix_of_same_length le_antisym)
  with assms have "obj_loop (Suc n) s = Some ((k, v) # kvs, r)" and "obj_loop (Suc n) s = Some (kvs, r)"
    using obj_loop_intros(2) [OF assms] jparse_mono(2) [of n "Suc n" s "(kvs, r)"] by simp_all
  then show False by simp
qed

lemma arr_loop_progress:
  assumes "parse_val n s = Some (v, s2)"
    and "after_value (CHR '']'') s2 = Inl t" and "arr_loop n t = Some (vs, r)"
  shows "length t < length s"
proof (rule ccontr)
  assume "\<not> length t < length s"
  moreover have "suffix_of t s"
    using jparse_rest(1) [OF assms(1)] after_value_suffix(1) [OF assms(2)]
    by (metis suffix_of_trans)
  ultimately have "t = s" by (simp add: suffix_of_length suffix_of_same_length le_antisym)
  with assms have "arr_loop (Suc n) s = Some (v # vs, r)" and "arr_loop (Suc n) s = Some (vs, r)"
    using arr_loop_intros(2) [OF assms] jparse_mono(3) [of n "Suc n" s "(vs, r)"] by simp_all
  then show False by simp
qed

definition bounded_at :: "nat \<Rightarrow> (nat \<Rightarrow> string \<Rightarrow> ('a \<times> string) option) \<Rightarrow> nat \<Rightarrow> string \<Rightarrow> bool" where
  "bounded_at b f n s \<longleftrightarrow>
     (\<forall>v r m. f n s = Some (v, r) \<longrightarrow> 3 * length s + b \<le> m \<longrightarrow> f m s = Some (v, r))"

lemma bounded_atD:
  "bounded_at b f n s \<Longrightarrow> f n s = Some (v, r) \<Longrightarrow> 3 * length s + b \<le> m \<Longrightarrow> f m s = Some (v, r)"
  by (simp add: bounded_at_def)

lemma bounded_atI:
  "(\<And>v r k. f n s = Some (v, r) \<Longrightarrow> 3 * length s + b \<le> Suc k \<Longrightarrow> f (Suc k) s = Some (v, r)) \<Longrightarrow>
   0 < b \<Longrightarrow> bounded_at b f n s"
  unfolding bounded_at_def by (metis Suc_le_D add_is_0 gr0_implies_Suc le_zero_eq not_gr_zero)

lemma bounded_loop_obj:
  assumes "\<And>t. bounded_at 2 parse_val n t" and "\<And>t. bounded_at 3 obj_loop n t"
  shows "bounded_at 3 obj_loop (Suc n) s"
proof (rule bounded_atI)
  fix kvs r k
  assume run: "obj_loop (Suc n) s = Some (kvs, r)" and m: "3 * length s + 3 \<le> Suc k"
  have short: "length (drop 1 (skipws s1)) \<le> length s" if "parse_str (skipws s) = (key, s1)" for key s1
    using that str_scan.scan_length [of "skipws s"] skipws_suffix [THEN suffix_of_length, of s]
      skipws_suffix [THEN suffix_of_length, of s1] by simp
  from run show "obj_loop (Suc k) s = Some (kvs, r)"
  proof (cases rule: obj_loop_SomeE)
    case (last key s1 v s2)
    have "parse_val k (drop 1 (skipws s1)) = Some (v, s2)"
      using bounded_atD [OF assms(1) last(2), of k] short [OF last(1)] m by simp
    then show ?thesis using obj_loop_intros(1) [OF last(1)] last by simp
  next
    case (more key s1 v s2 t kvs')
    have "parse_val k (drop 1 (skipws s1)) = Some (v, s2)"
      using bounded_atD [OF assms(1) more(2), of k] short [OF more(1)] m by simp
    moreover have "obj_loop k t = Some (kvs', r)"
      using bounded_atD [OF assms(2) more(4), of k] obj_loop_progress [OF more(1-4)] m by simp
    ultimately show ?thesis using obj_loop_intros(2) [OF more(1)] more by simp
  qed
qed simp

lemma bounded_loop_arr:
  assumes "\<And>t. bounded_at 2 parse_val n t" and "\<And>t. bounded_at 3 arr_loop n t"
  shows "bounded_at 3 arr_loop (Suc n) s"
proof (rule bounded_atI)
  fix vs r k
  assume run: "arr_loop (Suc n) s = Some (vs, r)" and m: "3 * length s + 3 \<le> Suc k"
  from run show "arr_loop (Suc k) s = Some (vs, r)"
  proof (cases rule: arr_loop_SomeE)
    case (last v s2)
    have "parse_val k s = Some (v, s2)"
      using bounded_atD [OF assms(1) last(1), of k] m by simp
    then show ?thesis using arr_loop_intros(1) last by simp
  next
    case (more v s2 t vs')
    have "parse_val k s = Some (v, s2)"
      using bounded_atD [OF assms(1) more(1), of k] m by simp
    moreover have "arr_loop k t = Some (vs', r)"
      using bounded_atD [OF assms(2) more(3), of k] arr_loop_progress [OF more(1-3)] m by simp
    ultimately show ?thesis using arr_loop_intros(2) more by simp
  qed
qed simp

definition bounded_list where
  "bounded_list f n s \<longleftrightarrow> (s \<noteq> [] \<longrightarrow> bounded_at 1 f n s)"

lemma bounded_obj:
  assumes "\<And>t. bounded_at 3 obj_loop n t"
  shows "bounded_list parse_obj (Suc n) s"
  unfolding bounded_list_def
proof (intro impI bounded_atI)
  fix j r k
  assume "s \<noteq> []" and run: "parse_obj (Suc n) s = Some (j, r)" and m: "3 * length s + 1 \<le> Suc k"
  then have L: "length (drop 1 s) < length s" by simp
  from run show "parse_obj (Suc k) s = Some (j, r)"
  proof (cases rule: parse_obj_SomeE)
    case last
    then show ?thesis using parse_obj_intros(1) by simp
  next
    case (more t kvs)
    have "obj_loop k t = Some (kvs, r)"
      using bounded_atD [OF assms more(2), of k] open_list_suffix(1) [OF more(1), THEN suffix_of_length]
        L m by simp
    then show ?thesis using parse_obj_intros(2) more by simp
  qed
qed simp

lemma bounded_arr:
  assumes "\<And>t. bounded_at 3 arr_loop n t"
  shows "bounded_list parse_arr (Suc n) s"
  unfolding bounded_list_def
proof (intro impI bounded_atI)
  fix j r k
  assume "s \<noteq> []" and run: "parse_arr (Suc n) s = Some (j, r)" and m: "3 * length s + 1 \<le> Suc k"
  then have L: "length (drop 1 s) < length s" by simp
  from run show "parse_arr (Suc k) s = Some (j, r)"
  proof (cases rule: parse_arr_SomeE)
    case last
    then show ?thesis using parse_arr_intros(1) by simp
  next
    case (more t vs)
    have "arr_loop k t = Some (vs, r)"
      using bounded_atD [OF assms more(2), of k] open_list_suffix(1) [OF more(1), THEN suffix_of_length]
        L m by simp
    then show ?thesis using parse_arr_intros(2) more by simp
  qed
qed simp

lemma bounded_val:
  assumes "\<And>t. bounded_list parse_obj n t" and "\<And>t. bounded_list parse_arr n t"
  shows "bounded_at 2 parse_val (Suc n) s"
proof (rule bounded_atI)
  fix v r k
  assume run: "parse_val (Suc n) s = Some (v, r)" and m: "3 * length s + 2 \<le> Suc k"
  show "parse_val (Suc k) s = Some (v, r)"
  proof (cases "skipws s")
    case (Cons c cs)
    have "3 * length (c # cs) + 1 \<le> k"
      using m skipws_suffix [THEN suffix_of_length, of s] Cons by simp
    then show ?thesis
      using run Cons assms [of "c # cs"] unfolding bounded_list_def
      by (auto dest: bounded_atD split: if_splits)
  qed (use run in simp)
qed simp

lemma jparse_bounded:
  "bounded_at 2 parse_val n s \<and> bounded_list parse_obj n s \<and> bounded_list parse_arr n s \<and>
   bounded_at 3 obj_loop n s \<and> bounded_at 3 arr_loop n s"
  by (rule jparse_induct [where PV = "bounded_at 2 parse_val" and PO = "bounded_list parse_obj"
        and PA = "bounded_list parse_arr" and QO = "bounded_at 3 obj_loop" and QA = "bounded_at 3 arr_loop"])
    (rule bounded_val bounded_obj bounded_arr bounded_loop_obj bounded_loop_arr; assumption
      | simp add: bounded_at_def bounded_list_def)+

lemma parse_val_budget: "parse_val n s = Some (v, r) \<Longrightarrow> parse_val (json_fuel s) s = Some (v, r)"
  unfolding json_fuel_def by (rule bounded_atD [OF conjunct1 [OF jparse_bounded] _ order_refl])


text \<open>
  The budget of \<open>parse_json\<close> loses nothing: the reader's loops come to an end on a text, with any
  number of rounds, exactly when \<open>parse_json\<close> returns a value. So \<open>None\<close> means
  that the \<open>while (true)\<close> loops of \<open>parse_obj\<close> or \<open>parse_arr\<close> run for ever.
\<close>
theorem parse_json_budget: "parse_json s = Some v \<longleftrightarrow> (\<exists>n r. parse_val n s = Some (v, r))"
proof
  assume "parse_json s = Some v"
  then show "\<exists>n r. parse_val n s = Some (v, r)" by (auto simp: parse_json_def)
next
  assume "\<exists>n r. parse_val n s = Some (v, r)"
  then obtain n r where "parse_val n s = Some (v, r)" by blast
  then have "parse_val (json_fuel s) s = Some (v, r)" by (rule parse_val_budget)
  then show "parse_json s = Some v" by (simp add: parse_json_def)
qed

section \<open>Divergence on unterminated documents\<close>

lemma after_value_set:
  "after_value c s = Inl t \<Longrightarrow> set t \<subseteq> set s" "after_value c s = Inr t \<Longrightarrow> c \<in> set s"
proof -
  show "after_value c s = Inl t \<Longrightarrow> set t \<subseteq> set s"
    using after_value_suffix(1) suffix_of_set by blast
  assume "after_value c s = Inr t"
  then have "c \<in> set (skipws s)" by (auto simp: after_value_def split: list.splits if_splits)
  then show "c \<in> set s" using skipws_suffix suffix_of_set by blast
qed

lemma arr_loop_needs_close: "CHR '']'' \<notin> set s \<Longrightarrow> arr_loop n s = None"
proof (induction n arbitrary: s)
  case (Suc n)
  show ?case
  proof (rule ccontr)
    assume "arr_loop (Suc n) s \<noteq> None"
    then obtain vs r where "arr_loop (Suc n) s = Some (vs, r)" by auto
    then show False
    proof (cases rule: arr_loop_SomeE)
      case (last v s2)
      then show False using Suc.prems jparse_rest(1) [OF last(1)] after_value_set(2) [OF last(2)] suffix_of_set by blast
    next
      case (more v s2 t vs')
      then have "CHR '']'' \<notin> set t"
        using Suc.prems jparse_rest(1) [OF more(1)] after_value_set(1) [OF more(2)] suffix_of_set by blast
      then show False using Suc.IH more(3) by simp
    qed
  qed
qed simp

lemma obj_loop_needs_close: "CHR ''}'' \<notin> set s \<Longrightarrow> obj_loop n s = None"
proof (induction n arbitrary: s)
  case (Suc n)
  have sub: "set s2 \<subseteq> set s" if "parse_str (skipws s) = (k, s1)"
      "parse_val n (drop 1 (skipws s1)) = Some (v, s2)" for k s1 v s2
    using that str_scan.scan_set [of "skipws s"] jparse_rest(1) [OF that(2)]
    by (metis skipws_suffix snd_conv suffix_of_drop suffix_of_set suffix_of_trans order_trans)
  show ?case
  proof (rule ccontr)
    assume "obj_loop (Suc n) s \<noteq> None"
    then obtain kvs r where "obj_loop (Suc n) s = Some (kvs, r)" by auto
    then show False
    proof (cases rule: obj_loop_SomeE)
      case (last k s1 v s2)
      then show False using Suc.prems sub after_value_set(2) by blast
    next
      case (more k s1 v s2 t kvs')
      then have "CHR ''}'' \<notin> set t" using Suc.prems sub after_value_set(1) by blast
      then show False using Suc.IH more(4) by simp
    qed
  qed
qed simp

lemma open_list_set:
  "open_list c s = Inl t \<Longrightarrow> set t \<subseteq> set (drop 1 s)" "open_list c s = Inr t \<Longrightarrow> c \<in> set (drop 1 s)"
proof -
  show "open_list c s = Inl t \<Longrightarrow> set t \<subseteq> set (drop 1 s)"
    using open_list_suffix(1) suffix_of_set by blast
  assume "open_list c s = Inr t"
  then have "c \<in> set (skipws (drop 1 s))" by (auto simp: open_list_def split: list.splits if_splits)
  then show "c \<in> set (drop 1 s)" using skipws_suffix suffix_of_set by blast
qed

lemma parse_json_array: "parse_json (CHR ''['' # s) = map_option fst (parse_arr (3 * length s + 4) (CHR ''['' # s))"
  by (simp add: parse_json_def json_fuel_def skipws_def is_blank4_def numeral_eq_Suc)

lemma parse_json_object: "parse_json (CHR ''{'' # s) = map_option fst (parse_obj (3 * length s + 4) (CHR ''{'' # s))"
  by (simp add: parse_json_def json_fuel_def skipws_def is_blank4_def numeral_eq_Suc)

lemma parse_arr_needs_close: "CHR '']'' \<notin> set s \<Longrightarrow> parse_arr n (c # s) = None"
proof (cases n)
  case (Suc m)
  assume s: "CHR '']'' \<notin> set s"
  show ?thesis
  proof (cases "open_list (CHR '']'') (c # s)")
    case (Inl t)
    then have "arr_loop m t = None" using s open_list_set(1) [OF Inl] arr_loop_needs_close by auto
    then show ?thesis by (simp add: Suc parse_arr_Suc Inl)
  next
    case (Inr t)
    then show ?thesis using s open_list_set(2) [OF Inr] by simp
  qed
qed simp

lemma parse_obj_needs_close: "CHR ''}'' \<notin> set s \<Longrightarrow> parse_obj n (c # s) = None"
proof (cases n)
  case (Suc m)
  assume s: "CHR ''}'' \<notin> set s"
  show ?thesis
  proof (cases "open_list (CHR ''}'') (c # s)")
    case (Inl t)
    then have "obj_loop m t = None" using s open_list_set(1) [OF Inl] obj_loop_needs_close by auto
    then show ?thesis by (simp add: Suc parse_obj_Suc Inl)
  next
    case (Inr t)
    then show ?thesis using s open_list_set(2) [OF Inr] by simp
  qed
qed simp

text \<open>
  An array that is never closed, and an object that is never closed, make the reader run for
  ever: no \<open>]\<close> after \<open>[\<close>, or no \<open>}\<close> after \<open>{\<close>, and \<open>parse_json\<close> does not return.
\<close>
theorem parse_json_unterminated:
  "(CHR '']'' \<notin> set s \<longrightarrow> parse_json (CHR ''['' # s) = None) \<and>
   (CHR ''}'' \<notin> set s \<longrightarrow> parse_json (CHR ''{'' # s) = None)"
  using parse_arr_needs_close parse_obj_needs_close
  by (simp add: parse_json_array parse_json_object)

theorem parse_json_unterminated_witness:
  "parse_json ''[1, 2'' = None \<and> parse_json ''{\"name\": 1'' = None"
  using parse_json_unterminated [of "''1, 2''"] parse_json_unterminated [of "''\"name\": 1''"] by simp

text \<open>A character that starts no value is never passed, even when the list is closed later.\<close>

definition starts_value :: "char \<Rightarrow> bool" where
  "starts_value c \<longleftrightarrow> is_digit c \<or> is_blank4 c \<or>
     c \<in> {DQ, CHR ''{'', CHR ''['', CHR ''-'', CHR ''t'', CHR ''f'', CHR ''n'', CHR '','', CHR '']''}"

lemma arr_loop_stuck: "\<not> starts_value c \<Longrightarrow> arr_loop n (c # s) = None"
proof (induction n)
  case (Suc n)
  then have c: "skipws (c # s) = c # s" "c \<noteq> CHR ''{''" "c \<noteq> CHR ''[''"
      "parse_scalar c s = (JNull, c # s)" "after_value (CHR '']'') (c # s) = Inl (c # s)"
    by (auto simp: starts_value_def skipws_def parse_scalar_def after_value_def)
  then show ?case using Suc by (cases n) (auto simp: arr_loop_Suc)
qed simp

text \<open>
  An array element that begins with a character that starts no JSON value makes the reader
  run for ever, whatever follows, closing bracket included: \<open>parse_val\<close> does not move
  past the character and the loop reads it again.
\<close>
theorem parse_json_stuck: "\<not> starts_value c \<Longrightarrow> parse_json (CHR ''['' # c # s) = None"
proof -
  assume c: "\<not> starts_value c"
  then have "open_list (CHR '']'') (CHR ''['' # c # s) = Inl (c # s)"
    by (auto simp: open_list_def skipws_def starts_value_def)
  then show ?thesis using arr_loop_stuck [OF c]
    by (simp add: parse_json_array numeral_eq_Suc parse_arr_Suc)
qed

theorem parse_json_stuck_witness: "parse_json ''[x]'' = None"
  by (rule parse_json_stuck) (simp add: starts_value_def is_digit_def is_blank4_def)

end
