(* ===== verification/GK_JsonRoundtrip.thy ===== *)
theory GK_JsonRoundtrip
  imports GK_JsonProps
begin

text \<open>
  What the reader is for: it gives back every document of the JSON grammar. The documents
  are those of a serialiser \<open>render\<close>, which is the specification and not part of the program;
  numbers are the integers a \<open>double\<close> holds exactly.
\<close>

section \<open>The serialiser\<close>

definition quote_char :: "char \<Rightarrow> string" where
  "quote_char c =
     (if c = DQ \<or> c = BS then [BS, c]
      else if c = NL then [BS, CHR ''n''] else if c = CR then [BS, CHR ''r'']
      else if c = TAB then [BS, CHR ''t''] else if c = CHR 0x08 then [BS, CHR ''b'']
      else if c = CHR 0x0C then [BS, CHR ''f''] else [c])"

definition quote :: "string \<Rightarrow> string" where
  "quote s = DQ # concat (map quote_char s) @ [DQ]"

fun commas :: "string list \<Rightarrow> string" where
  "commas [] = []"
| "commas [x] = x"
| "commas (x # xs) = x @ CHR '','' # commas xs"

fun render :: "json \<Rightarrow> string" where
  "render JNull = ''null''"
| "render (JBool b) = (if b then ''true'' else ''false'')"
| "render (JNum q) = to_string \<lfloor>q\<rfloor>"
| "render (JStr s) = quote s"
| "render (JArr vs) = CHR ''['' # commas (map render vs) @ '']''"
| "render (JObj kvs) = CHR ''{'' # commas (map (\<lambda>kv. quote (fst kv) @ '': '' @ render (snd kv)) kvs) @ ''}''"

fun exact_json :: "json \<Rightarrow> bool" where
  "exact_json (JNum q) \<longleftrightarrow> q = of_int \<lfloor>q\<rfloor> \<and> \<bar>q\<bar> < 2 ^ 53"
| "exact_json (JArr vs) \<longleftrightarrow> list_all exact_json vs"
| "exact_json (JObj kvs) \<longleftrightarrow> list_all (\<lambda>kv. exact_json (snd kv)) kvs"
| "exact_json _ \<longleftrightarrow> True"

section \<open>Reading, with the fuel hidden\<close>

definition reads :: "string \<Rightarrow> json \<Rightarrow> string \<Rightarrow> bool" where
  "reads s v r \<longleftrightarrow> (\<exists>n. parse_val n s = Some (v, r))"

definition reads_elems :: "string \<Rightarrow> json list \<Rightarrow> string \<Rightarrow> bool" where
  "reads_elems s vs r \<longleftrightarrow> (\<exists>n. arr_loop n s = Some (vs, r))"

definition reads_fields :: "string \<Rightarrow> (string \<times> json) list \<Rightarrow> string \<Rightarrow> bool" where
  "reads_fields s kvs r \<longleftrightarrow> (\<exists>n. obj_loop n s = Some (kvs, r))"

lemma reads_parse_json: "reads s v r \<Longrightarrow> parse_json s = Some v"
  using parse_val_budget by (auto simp: reads_def parse_json_def)

lemma reads_elems_last: "reads s v s2 \<Longrightarrow> after_value (CHR '']'') s2 = Inr r \<Longrightarrow> reads_elems s [v] r"
  unfolding reads_def reads_elems_def using arr_loop_intros(1) by blast

lemma reads_elems_more:
  assumes "reads s v s2" and "after_value (CHR '']'') s2 = Inl t" and "reads_elems t vs r"
  shows "reads_elems s (v # vs) r"
proof -
  from assms obtain n m where "parse_val n s = Some (v, s2)" "arr_loop m t = Some (vs, r)"
    by (auto simp: reads_def reads_elems_def)
  then have "parse_val (max n m) s = Some (v, s2)" "arr_loop (max n m) t = Some (vs, r)"
    by (auto intro: jparse_mono(1) [of n] jparse_mono(3) [of m])
  then show ?thesis unfolding reads_elems_def using arr_loop_intros(2) assms(2) by blast
qed

lemma reads_fields_last:
  assumes "parse_str (skipws s) = (k, s1)" and "reads (drop 1 (skipws s1)) v s2"
    and "after_value (CHR ''}'') s2 = Inr r"
  shows "reads_fields s [(k, v)] r"
  using assms unfolding reads_def reads_fields_def using obj_loop_intros(1) by blast

lemma reads_fields_more:
  assumes "parse_str (skipws s) = (k, s1)" and "reads (drop 1 (skipws s1)) v s2"
    and "after_value (CHR ''}'') s2 = Inl t" and "reads_fields t kvs r"
  shows "reads_fields s ((k, v) # kvs) r"
proof -
  from assms obtain n m where "parse_val n (drop 1 (skipws s1)) = Some (v, s2)" "obj_loop m t = Some (kvs, r)"
    by (auto simp: reads_def reads_fields_def)
  then have "parse_val (max n m) (drop 1 (skipws s1)) = Some (v, s2)" "obj_loop (max n m) t = Some (kvs, r)"
    by (auto intro: jparse_mono(1) [of n] jparse_mono(2) [of m])
  then show ?thesis unfolding reads_fields_def using obj_loop_intros(2) assms(1,3) by blast
qed

lemma reads_array:
  assumes "open_list (CHR '']'') (CHR ''['' # s) = Inl t" and "reads_elems t vs r"
  shows "reads (CHR ''['' # s) (JArr vs) r"
proof -
  from assms(2) obtain n where "arr_loop n t = Some (vs, r)" by (auto simp: reads_elems_def)
  with assms(1) have "parse_arr (Suc n) (CHR ''['' # s) = Some (JArr vs, r)" by (rule parse_arr_intros(2))
  then have "parse_val (Suc (Suc n)) (CHR ''['' # s) = Some (JArr vs, r)"
    by (simp add: skipws_def is_blank4_def)
  then show ?thesis unfolding reads_def by (rule exI)
qed

lemma reads_object:
  assumes "open_list (CHR ''}'') (CHR ''{'' # s) = Inl t" and "reads_fields t kvs r"
  shows "reads (CHR ''{'' # s) (JObj kvs) r"
proof -
  from assms(2) obtain n where "obj_loop n t = Some (kvs, r)" by (auto simp: reads_fields_def)
  with assms(1) have "parse_obj (Suc n) (CHR ''{'' # s) = Some (JObj kvs, r)" by (rule parse_obj_intros(2))
  then have "parse_val (Suc (Suc n)) (CHR ''{'' # s) = Some (JObj kvs, r)"
    by (simp add: skipws_def is_blank4_def)
  then show ?thesis unfolding reads_def by (rule exI)
qed

lemma reads_scalar:
  assumes "\<not> is_blank4 c" "c \<noteq> CHR ''{''" "c \<noteq> CHR ''[''" "parse_scalar c cs = (v, r)"
  shows "reads (c # cs) v r"
proof -
  have "parse_val 1 (c # cs) = Some (v, r)" using assms by (simp add: skipws_def)
  then show ?thesis unfolding reads_def by (rule exI)
qed

section \<open>Strings and numbers\<close>

lemma str_body_quote [simp]:
  "str_body (concat (map quote_char s) @ DQ # rest) = (s, rest)"
  by (induction s) (auto simp: quote_char_def unescape_def)

lemma parse_str_quote [simp]: "parse_str (quote s @ rest) = (s, rest)"
  by (simp add: quote_def parse_str_def)

definition value_end :: "string \<Rightarrow> bool" where
  "value_end r \<longleftrightarrow> r = [] \<or> hd r \<in> {CHR '','', CHR '']'', CHR ''}''}"

lemma value_end_hd:
  assumes "value_end r"
  shows "r = [] \<or> \<not> is_digit (hd r)" "take_frac r = r" "take_expo r = r"
  using assms by (cases r; auto simp: value_end_def is_digit_def take_frac_def take_expo_def)+

lemma value_end_simps [simp]:
  "value_end []" "value_end (CHR '','' # r)" "value_end (CHR '']'' # r)" "value_end (CHR ''}'' # r)"
  by (simp_all add: value_end_def)

lemma stod_mag_nat_digits:
  assumes "rat_of_nat n < 2 ^ 53"
  shows "stod_mag (nat_digits n) = Some (of_nat n)"
proof -
  have tw: "takeWhile is_digit (nat_digits n) = nat_digits n" "dropWhile is_digit (nat_digits n) = []"
    using takeWhile_digits [of "nat_digits n" "[]"] by auto
  have "(2 :: rat) ^ 53 \<le> 2 ^ 1024" by (rule power_increasing) simp_all
  with assms have small: "\<not> 2 ^ 1024 \<le> rat_of_nat n" by linarith
  have "1 / 2 ^ 1022 \<le> (1 :: rat)" by (simp add: divide_le_eq)
  then have large: "n = 0 \<or> \<not> rat_of_nat n < 1 / 2 ^ 1022"
    by (cases "n = 0") (simp, metis One_nat_def Suc_leI neq0_conv not_le of_nat_1 of_nat_le_iff order.trans)
  show ?thesis
    using small large unfolding stod_mag_def tw Let_def scan_frac_def scan_exp_def pow10_def by auto
qed

lemma stod_to_string:
  assumes "\<bar>rat_of_int i\<bar> < 2 ^ 53"
  shows "stod (to_string i) = Some (of_int i)"
proof -
  obtain d ds where hd: "nat_digits (nat \<bar>i\<bar>) = d # ds" "is_digit d" using nat_digits_hd by blast
  then have "d \<noteq> CHR ''-''" by (auto simp: is_digit_def)
  have mag: "stod_mag (nat_digits (nat \<bar>i\<bar>)) = Some \<bar>of_int i\<bar>"
    using stod_mag_nat_digits [of "nat \<bar>i\<bar>"] assms by simp
  then show ?thesis using hd \<open>d \<noteq> CHR ''-''\<close> by (cases "i < 0") (simp_all add: stod_def to_string_def)
qed

lemma parse_num_to_string:
  assumes "value_end r" and "\<bar>rat_of_int i\<bar> < 2 ^ 53"
  shows "parse_num (to_string i @ r) = (of_int i, r)"
proof -
  let ?ds = "nat_digits (nat \<bar>i\<bar>)"
  obtain d ds where hd: "?ds = d # ds" "is_digit d" using nat_digits_hd by blast
  then have "d \<noteq> CHR ''-''" by (auto simp: is_digit_def)
  have "take_sign (to_string i @ r) = ?ds @ r"
    using hd \<open>d \<noteq> CHR ''-''\<close> by (auto simp: to_string_def take_sign_def)
  moreover have "dropWhile is_digit (?ds @ r) = r"
    using takeWhile_digits(2) [of ?ds r] value_end_hd(1) [OF assms(1)] by auto
  ultimately show ?thesis
    using value_end_hd [OF assms(1)] stod_to_string [OF assms(2)] by (simp add: parse_num_def)
qed

lemma to_string_Cons: "\<exists>c cs. to_string i = c # cs \<and> (is_digit c \<or> c = CHR ''-'')"
  using nat_digits_hd by (metis to_string_def)

lemma reads_number:
  assumes "value_end r" and "\<bar>rat_of_int i\<bar> < 2 ^ 53"
  shows "reads (to_string i @ r) (JNum (of_int i)) r"
proof -
  obtain c cs where c: "to_string i = c # cs" "is_digit c \<or> c = CHR ''-''" using to_string_Cons by blast
  have "parse_num (c # cs @ r) = (of_int i, r)"
    using parse_num_to_string [OF assms] c(1) by simp
  with c(2) have "parse_scalar c (cs @ r) = (JNum (of_int i), r)"
    by (auto simp: parse_scalar_def is_digit_def)
  then have "reads (c # cs @ r) (JNum (of_int i)) r"
    using c(2) by (intro reads_scalar) (auto simp: is_digit_def is_blank4_def)
  then show ?thesis using c(1) by simp
qed

lemma reads_string: "reads (quote s @ r) (JStr s) r"
proof -
  have "parse_scalar DQ (concat (map quote_char s) @ DQ # r) = (JStr s, r)"
    by (simp add: parse_scalar_def parse_str_def)
  then show ?thesis using reads_scalar [of DQ] by (simp add: quote_def is_blank4_def)
qed

section \<open>Documents\<close>

lemma value_end_after:
  "after_value (CHR '']'') (CHR '','' # t) = Inl t" "after_value (CHR ''}'') (CHR '','' # t) = Inl t"
  "after_value (CHR '']'') (CHR '']'' # t) = Inr t" "after_value (CHR ''}'') (CHR ''}'' # t) = Inr t"
  by (simp_all add: after_value_def skipws_def is_blank4_def)

lemma reads_commas:
  assumes "\<And>v r. v \<in> set vs \<Longrightarrow> value_end r \<Longrightarrow> reads (f v @ r) v r" and "vs \<noteq> []"
  shows "reads_elems (commas (map f vs) @ CHR '']'' # r) vs r"
  using assms
proof (induction vs rule: induct_list012)
  case (2 v)
  then show ?case by (auto intro: reads_elems_last [OF _ value_end_after(3)])
next
  case (3 v w vs)
  then have "reads_elems (commas (map f (w # vs)) @ CHR '']'' # r) (w # vs) r" by simp
  moreover have "reads (f v @ CHR '','' # commas (map f (w # vs)) @ CHR '']'' # r) v
      (CHR '','' # commas (map f (w # vs)) @ CHR '']'' # r)"
    using 3 by simp
  ultimately show ?case using reads_elems_more value_end_after(1) by simp
qed simp

lemma parse_str_field:
  "parse_str (skipws (quote k @ s)) = (k, s)"
proof -
  have "skipws (quote k @ s) = quote k @ s" by (simp add: skipws_def quote_def is_blank4_def)
  then show ?thesis by simp
qed

lemma reads_skip_blank: "reads s v r \<Longrightarrow> reads (SP # s) v r"
proof -
  assume "reads s v r"
  then obtain n where n: "parse_val n s = Some (v, r)" by (auto simp: reads_def)
  then obtain m where "n = Suc m" by (cases n) auto
  with n have "parse_val n (SP # s) = Some (v, r)" by (simp add: skipws_def is_blank4_def)
  then show ?thesis unfolding reads_def by (rule exI)
qed

lemma reads_fields_commas:
  assumes "\<And>kv r. kv \<in> set kvs \<Longrightarrow> value_end r \<Longrightarrow> reads (f (snd kv) @ r) (snd kv) r" and "kvs \<noteq> []"
  shows "reads_fields (commas (map (\<lambda>kv. quote (fst kv) @ '': '' @ f (snd kv)) kvs) @ CHR ''}'' # r) kvs r"
  using assms
proof (induction kvs rule: induct_list012)
  case (2 kv)
  have "reads (SP # f (snd kv) @ CHR ''}'' # r) (snd kv) (CHR ''}'' # r)"
    using 2 by (intro reads_skip_blank) simp
  then have "reads_fields (quote (fst kv) @ '': '' @ f (snd kv) @ CHR ''}'' # r) [(fst kv, snd kv)] r"
    by (intro reads_fields_last [OF parse_str_field]) (auto simp: skipws_def is_blank4_def value_end_after)
  then show ?case by simp
next
  case (3 kv w kvs)
  let ?t = "commas (map (\<lambda>kv. quote (fst kv) @ '': '' @ f (snd kv)) (w # kvs)) @ CHR ''}'' # r"
  have IH: "reads_fields ?t (w # kvs) r" using 3 by simp
  have "reads (SP # f (snd kv) @ CHR '','' # ?t) (snd kv) (CHR '','' # ?t)"
    using 3 by (intro reads_skip_blank) simp
  then have "reads_fields (quote (fst kv) @ '': '' @ f (snd kv) @ CHR '','' # ?t) ((fst kv, snd kv) # w # kvs) r"
    by (intro reads_fields_more [OF parse_str_field _ value_end_after(2) IH])
      (auto simp: skipws_def is_blank4_def)
  then show ?case by simp
qed simp

lemma commas_hd: "xs \<noteq> [] \<Longrightarrow> hd xs = c # cs \<Longrightarrow> \<exists>t. commas xs = c # t"
  by (cases xs rule: commas.cases) auto

lemma render_hd: "exact_json v \<Longrightarrow> \<exists>c cs. render v = c # cs \<and> \<not> is_blank4 c \<and> c \<noteq> CHR '']'' \<and> c \<noteq> CHR ''}''"
proof (cases v)
  case (JNum q)
  obtain c cs where "to_string \<lfloor>q\<rfloor> = c # cs" "is_digit c \<or> c = CHR ''-''" using to_string_Cons by blast
  then show ?thesis using JNum by (auto simp: is_digit_def is_blank4_def)
qed (auto simp: quote_def is_blank4_def)

lemma reads_literal:
  "reads (''null'' @ r) JNull r" "reads (''true'' @ r) (JBool True) r" "reads (''false'' @ r) (JBool False) r"
  by (auto intro!: reads_scalar simp: parse_scalar_def is_blank4_def is_digit_def)

lemma reads_render: "exact_json v \<Longrightarrow> value_end r \<Longrightarrow> reads (render v @ r) v r"
proof (induction v arbitrary: r)
  case (JNum q)
  then show ?case using reads_number [of r "\<lfloor>q\<rfloor>"] by (metis exact_json.simps(1) render.simps(3))
next
  case (JArr vs)
  show ?case
  proof (cases vs)
    case Nil
    have "parse_val 3 (''[]'' @ r) = Some (JArr [], r)"
      by (simp add: numeral_3_eq_3 skipws_def is_blank4_def parse_arr_Suc open_list_def)
    then show ?thesis using Nil by (auto simp: reads_def)
  next
    case (Cons w ws)
    have all: "\<And>v. v \<in> set vs \<Longrightarrow> exact_json v" using JArr.prems by (simp add: list_all_iff)
    then have "reads_elems (commas (map render vs) @ CHR '']'' # r) vs r"
      using JArr.IH Cons by (intro reads_commas) auto
    moreover obtain c cs where "render w = c # cs" "\<not> is_blank4 c" "c \<noteq> CHR '']''"
      using render_hd all Cons by (metis list.set_intros(1))
    then have "open_list (CHR '']'') (CHR ''['' # commas (map render vs) @ CHR '']'' # r)
        = Inl (commas (map render vs) @ CHR '']'' # r)"
      using commas_hd [of "map render vs"] Cons by (auto simp: open_list_def skipws_def)
    ultimately show ?thesis using reads_array by simp
  qed
next
  case (JObj kvs)
  let ?f = "\<lambda>kv. quote (fst kv) @ '': '' @ render (snd kv)"
  show ?case
  proof (cases kvs)
    case Nil
    have "parse_val 3 (''{}'' @ r) = Some (JObj [], r)"
      by (simp add: numeral_3_eq_3 skipws_def is_blank4_def parse_obj_Suc open_list_def)
    then show ?thesis using Nil by (auto simp: reads_def)
  next
    case (Cons w ws)
    have all: "\<And>kv. kv \<in> set kvs \<Longrightarrow> exact_json (snd kv)" using JObj.prems by (simp add: list_all_iff)
    then have "reads_fields (commas (map ?f kvs) @ CHR ''}'' # r) kvs r"
      using JObj.IH Cons by (intro reads_fields_commas) (auto simp: prod_set_defs)
    moreover have "open_list (CHR ''}'') (CHR ''{'' # commas (map ?f kvs) @ CHR ''}'' # r)
        = Inl (commas (map ?f kvs) @ CHR ''}'' # r)"
      using commas_hd [of "map ?f kvs"] Cons by (auto simp: open_list_def skipws_def quote_def is_blank4_def)
    ultimately show ?thesis using reads_object by simp
  qed
qed (use reads_literal reads_string in \<open>auto split: if_splits\<close>)

lemma parse_json_exact: "exact_json v \<Longrightarrow> parse_json (render v) = Some v"
  using reads_render [of v "[]"] reads_parse_json by simp

interpretation documents: codec exact_json render parse_json
  by unfold_locales (rule parse_json_exact)

text \<open>
  C9: the JSON reader returns every document it is given: for each value whose numbers are integers a
  double holds exactly, parsing its serialised text ends and gives the value back, at any
  nesting, with quotes, backslashes and control characters in strings.
\<close>
theorem parse_json_render: "exact_json v \<Longrightarrow> parse_json (render v) = Some v"
  by (rule parse_json_exact)

theorem parse_json_render_witness:
  "parse_json (render (JObj [(''a'', JArr [JNum (- 42), JStr [DQ, NL]]), (''b'', JNull)]))
     = Some (JObj [(''a'', JArr [JNum (- 42), JStr [DQ, NL]]), (''b'', JNull)])"
  by (rule parse_json_render) simp

end
