(* ===== verification/GK_Config.thy ===== *)
theory GK_Config
  imports GK_Json
begin

text \<open>
  The configuration, \<open>config.h\<close> and the readers of \<open>config.cpp\<close>: \<open>parseConfig\<close>, which also writes the
  global \<open>g_controlConfig\<close>, and \<open>parseSystemMonitorConfig\<close>, which writes \<open>g_sysMonConfig\<close>. A global is an
  argument and a result. A structure is a record whose fields carry a prefix of two letters;
  the default member initialisers are the \<open>default_\<close> constants. \<open>None\<close> is a
  text on which the JSON reader does not come to an end. The messages on \<open>cerr\<close> are left out.
\<close>

section \<open>The structures\<close>

record auth_config =
  au_type :: string
  au_username :: string
  au_password :: string

record protocol_config =
  pr_type :: string
  pr_command :: string
  pr_proxyTo :: string
  pr_delayMs :: int
  pr_enabled :: bool

record monitor_config =
  mo_enabled :: bool
  mo_intervalSec :: int
  mo_logDedup :: string
  mo_ipv6 :: bool

record port_config =
  pc_name :: string
  pc_groupName :: string
  pc_enabled :: bool
  pc_listenAddr :: string
  pc_command :: string
  pc_stopCommand :: string
  pc_idleMinutes :: int
  pc_delayMs :: int
  pc_refreshSeconds :: int
  pc_retrySeconds :: int
  pc_maxRetrySeconds :: int
  pc_autoRestart :: bool
  pc_stackSize :: int
  pc_mode :: string
  pc_holdPort :: bool
  pc_protocols :: "protocol_config list"
  pc_auth :: auth_config
  pc_httpTarget :: string
  pc_launchOnStart :: bool
  pc_monitor :: monitor_config

record command_config =
  cc_name :: string
  cc_command :: string

record control_auth =
  ca_type :: string
  ca_token :: string

record control_config =
  ct_listen :: string
  ct_auth :: control_auth
  ct_pin :: string
  ct_maxConnections :: int
  ct_rateLimitSeconds :: int
  ct_commands :: "command_config list"

record eviction_config =
  ev_enabled :: bool
  ev_memoryCritical :: rat
  ev_swapCritical :: rat
  ev_sustainSeconds :: int
  ev_relaunchMemoryBelow :: rat
  ev_relaunchSwapBelow :: rat

record system_monitor_config =
  sm_enabled :: bool
  sm_intervalSeconds :: int
  sm_fastIntervalSeconds :: int
  sm_memoryHighThreshold :: rat
  sm_swapHighThreshold :: rat
  sm_emergencyCommands :: "string list"
  sm_eviction :: eviction_config

section \<open>Default values\<close>

definition default_auth :: auth_config where
  "default_auth = \<lparr>au_type = ''none'', au_username = [], au_password = []\<rparr>"

definition default_protocol :: protocol_config where
  "default_protocol = \<lparr>pr_type = [], pr_command = [], pr_proxyTo = [], pr_delayMs = 5000, pr_enabled = True\<rparr>"

definition default_monitor :: monitor_config where
  "default_monitor = \<lparr>mo_enabled = False, mo_intervalSec = 60, mo_logDedup = ''skip'', mo_ipv6 = True\<rparr>"

definition default_port :: port_config where
  "default_port = \<lparr>pc_name = [], pc_groupName = [], pc_enabled = True, pc_listenAddr = [], pc_command = [],
     pc_stopCommand = [], pc_idleMinutes = 20, pc_delayMs = 5000, pc_refreshSeconds = 5,
     pc_retrySeconds = 10, pc_maxRetrySeconds = 300, pc_autoRestart = False, pc_stackSize = 512,
     pc_mode = ''simple'', pc_holdPort = False, pc_protocols = [], pc_auth = default_auth,
     pc_httpTarget = [], pc_launchOnStart = False, pc_monitor = default_monitor\<rparr>"

definition default_control :: control_config where
  "default_control = \<lparr>ct_listen = [], ct_auth = \<lparr>ca_type = ''token'', ca_token = []\<rparr>, ct_pin = [],
     ct_maxConnections = 20, ct_rateLimitSeconds = 60, ct_commands = []\<rparr>"

definition default_eviction :: eviction_config where
  "default_eviction = \<lparr>ev_enabled = False, ev_memoryCritical = 9 / 10, ev_swapCritical = 9 / 10,
     ev_sustainSeconds = 900, ev_relaunchMemoryBelow = 6 / 10, ev_relaunchSwapBelow = 6 / 10\<rparr>"

definition default_sysmon :: system_monitor_config where
  "default_sysmon = \<lparr>sm_enabled = False, sm_intervalSeconds = 300, sm_fastIntervalSeconds = 60,
     sm_memoryHighThreshold = 66 / 100, sm_swapHighThreshold = 5 / 10,
     sm_emergencyCommands = [''reboot'', ''shutdown''], sm_eviction = default_eviction\<rparr>"

section \<open>Optional keys\<close>

text \<open>
  The idiom \<open>if (auto* x = v->get(key)) field = x->as_str();\<close>: a key of another type yields the
  accessor's default, an absent key keeps the field. The conversion \<open>(int)\<close> of a \<open>double\<close> outside \<open>int\<close> is
  undefined in C++; the model takes the value x86-64 delivers, \<open>INT_MIN\<close>.
\<close>

definition to_cint :: "rat \<Rightarrow> int" where
  "to_cint d = (if INT_MIN \<le> to_int d \<and> to_int d \<le> INT_MAX then to_int d else INT_MIN)"

definition get_str :: "json \<Rightarrow> string \<Rightarrow> string \<Rightarrow> string" where
  "get_str v key d = (case jget v key of None \<Rightarrow> d | Some x \<Rightarrow> as_str x)"

definition get_bool :: "json \<Rightarrow> string \<Rightarrow> bool \<Rightarrow> bool" where
  "get_bool v key d = (case jget v key of None \<Rightarrow> d | Some x \<Rightarrow> as_bool x)"

definition get_num :: "json \<Rightarrow> string \<Rightarrow> rat \<Rightarrow> rat" where
  "get_num v key d = (case jget v key of None \<Rightarrow> d | Some x \<Rightarrow> as_num x)"

definition get_int :: "json \<Rightarrow> string \<Rightarrow> int \<Rightarrow> int" where
  "get_int v key d = (case jget v key of None \<Rightarrow> d | Some x \<Rightarrow> to_cint (as_num x))"

text \<open>A sub-object is read only when the key holds an object, a list only when it holds an array.\<close>

definition get_obj :: "json \<Rightarrow> string \<Rightarrow> json option" where
  "get_obj v key = (case jget v key of None \<Rightarrow> None | Some x \<Rightarrow> if is_obj x then Some x else None)"

definition get_arr :: "json \<Rightarrow> string \<Rightarrow> json list option" where
  "get_arr v key = (case jget v key of None \<Rightarrow> None | Some x \<Rightarrow> if is_arr x then Some (jelems x) else None)"

section \<open>The control section\<close>

definition parse_command :: "json \<Rightarrow> command_config option" where
  "parse_command c =
     (if \<not> is_obj c then None
      else let cc = \<lparr>cc_name = get_str c ''name'' [], cc_command = get_str c ''command'' []\<rparr>
           in if cc_name cc \<noteq> [] \<and> cc_command cc \<noteq> [] then Some cc else None)"

definition parse_control_auth :: "json \<Rightarrow> json \<Rightarrow> control_config \<Rightarrow> control_config" where
  "parse_control_auth ctrl a g =
     g\<lparr>ct_auth := \<lparr>ca_type = get_str a ''type'' (ca_type (ct_auth g)), ca_token = get_str a ''token'' (ca_token (ct_auth g))\<rparr>,
       ct_maxConnections := get_int ctrl ''max_connections'' (ct_maxConnections g),
       ct_rateLimitSeconds := get_int ctrl ''rate_limit_seconds'' (ct_rateLimitSeconds g)\<rparr>"

definition parse_control :: "json \<Rightarrow> control_config \<Rightarrow> control_config" where
  "parse_control ctrl g0 =
     (let g1 = g0\<lparr>ct_listen := get_str ctrl ''listen'' (ct_listen g0)\<rparr>;
          g2 = (case get_obj ctrl ''auth'' of None \<Rightarrow> g1 | Some a \<Rightarrow> parse_control_auth ctrl a g1);
          g3 = g2\<lparr>ct_pin := get_str ctrl ''pin'' (ct_pin g2)\<rparr>
      in case get_arr ctrl ''commands'' of
           None \<Rightarrow> g3
         | Some cs \<Rightarrow> g3\<lparr>ct_commands := ct_commands g3 @ List.map_filter parse_command cs\<rparr>)"

section \<open>The ports\<close>

definition parse_auth :: "json \<Rightarrow> auth_config" where
  "parse_auth a = \<lparr>au_type = get_str a ''type'' ''none'', au_username = get_str a ''username'' [],
     au_password = get_str a ''password'' []\<rparr>"

definition parse_monitor :: "json \<Rightarrow> monitor_config" where
  "parse_monitor m = \<lparr>mo_enabled = get_bool m ''enabled'' False, mo_intervalSec = get_int m ''interval_seconds'' 60,
     mo_logDedup = get_str m ''log_dedup'' ''skip'', mo_ipv6 = get_bool m ''ipv6'' True\<rparr>"

definition parse_protocol :: "json \<Rightarrow> protocol_config option" where
  "parse_protocol p =
     (if is_str p then Some (default_protocol\<lparr>pr_type := as_str p\<rparr>)
      else if is_obj p then
        (let pc = \<lparr>pr_type = get_str p ''type'' [], pr_command = get_str p ''command'' [],
                   pr_proxyTo = get_str p ''proxy_to'' [], pr_delayMs = get_int p ''delay'' 5000,
                   pr_enabled = get_bool p ''enabled'' True\<rparr>
         in if pr_enabled pc \<and> pr_type pc \<noteq> [] then Some pc else None)
      else None)"

text \<open>An entry is complete when it has \<open>listen\<close>, and \<open>command\<close> unless its mode brings its own.\<close>

definition entry_complete :: "json \<Rightarrow> bool" where
  "entry_complete e \<longleftrightarrow> jget e ''listen'' \<noteq> None \<and>
     (jget e ''command'' \<noteq> None \<or>
      (get_str e ''mode'' ''simple'' = ''mixed'' \<and> get_bool e ''hold_port'' False) \<or>
      get_str e ''mode'' ''simple'' = ''proxy'')"

definition parse_port :: "json \<Rightarrow> port_config option" where
  "parse_port e =
     (if \<not> is_obj e then None
      else if \<not> entry_complete e then None
      else if \<not> get_bool e ''enabled'' True then None
      else Some \<lparr>pc_name = get_str e ''name'' [], pc_groupName = get_str e ''group'' [], pc_enabled = True,
        pc_listenAddr = get_str e ''listen'' [], pc_command = get_str e ''command'' [],
        pc_stopCommand = get_str e ''stop_command'' [], pc_idleMinutes = get_int e ''idle_minutes'' 20,
        pc_delayMs = get_int e ''delay'' 5000, pc_refreshSeconds = get_int e ''refresh_seconds'' 5,
        pc_retrySeconds = get_int e ''retry_seconds'' 10, pc_maxRetrySeconds = get_int e ''max_retry_seconds'' 300,
        pc_autoRestart = get_bool e ''auto_restart'' False, pc_stackSize = get_int e ''stack_size'' 512,
        pc_mode = get_str e ''mode'' ''simple'', pc_holdPort = get_bool e ''hold_port'' False,
        pc_protocols = (case get_arr e ''protocols'' of None \<Rightarrow> [] | Some ps \<Rightarrow> List.map_filter parse_protocol ps),
        pc_auth = (case get_obj e ''auth'' of None \<Rightarrow> default_auth | Some a \<Rightarrow> parse_auth a),
        pc_httpTarget = get_str e ''http_target'' [], pc_launchOnStart = get_bool e ''launch_on_start'' False,
        pc_monitor = (case get_obj e ''monitor'' of None \<Rightarrow> default_monitor | Some m \<Rightarrow> parse_monitor m)\<rparr>)"

definition parse_root :: "json \<Rightarrow> control_config \<Rightarrow> port_config list \<times> control_config" where
  "parse_root doc g =
     (if \<not> is_obj doc then ([], g)
      else let g' = (case get_obj doc ''control'' of None \<Rightarrow> g | Some c \<Rightarrow> parse_control c g)
           in (case get_arr doc ''ports'' of None \<Rightarrow> [] | Some es \<Rightarrow> List.map_filter parse_port es, g'))"

definition parseConfig :: "string \<Rightarrow> control_config \<Rightarrow> (port_config list \<times> control_config) option" where
  "parseConfig s g = map_option (\<lambda>doc. parse_root doc g) (parse_json s)"

text \<open>\<open>loadConfig\<close>: the file's contents, or no file.\<close>

definition loadConfig :: "string option \<Rightarrow> control_config \<Rightarrow> (port_config list \<times> control_config) option" where
  "loadConfig file g = (case file of None \<Rightarrow> Some ([], g) | Some s \<Rightarrow> parseConfig s g)"

section \<open>The system monitor section\<close>

definition clamp_rat :: "rat \<Rightarrow> rat \<Rightarrow> rat" where
  "clamp_rat d x = (if x \<le> 0 \<or> x > 1 then d else x)"

definition clamp_pos :: "int \<Rightarrow> int \<Rightarrow> int" where
  "clamp_pos d x = (if x < 1 then d else x)"

definition parse_emergency :: "json list \<Rightarrow> string list" where
  "parse_emergency cs = [as_str c. c \<leftarrow> cs, is_str c \<and> as_str c \<noteq> []]"

definition parse_eviction :: "json \<Rightarrow> eviction_config" where
  "parse_eviction ev = \<lparr>ev_enabled = get_bool ev ''enabled'' False,
     ev_memoryCritical = clamp_rat (9 / 10) (get_num ev ''memory_critical'' (9 / 10)),
     ev_swapCritical = clamp_rat (9 / 10) (get_num ev ''swap_critical'' (9 / 10)),
     ev_sustainSeconds = clamp_pos 900 (get_int ev ''sustain_seconds'' 900),
     ev_relaunchMemoryBelow = clamp_rat (6 / 10) (get_num ev ''relaunch_memory_below'' (6 / 10)),
     ev_relaunchSwapBelow = clamp_rat (6 / 10) (get_num ev ''relaunch_swap_below'' (6 / 10))\<rparr>"

definition parse_sysmon :: "json \<Rightarrow> system_monitor_config" where
  "parse_sysmon sm = \<lparr>sm_enabled = get_bool sm ''enabled'' False,
     sm_intervalSeconds = clamp_pos 300 (get_int sm ''interval_seconds'' 300),
     sm_fastIntervalSeconds = clamp_pos 60 (get_int sm ''fast_interval_seconds'' 60),
     sm_memoryHighThreshold = clamp_rat (66 / 100) (get_num sm ''memory_high_threshold'' (66 / 100)),
     sm_swapHighThreshold = clamp_rat (5 / 10) (get_num sm ''swap_high_threshold'' (5 / 10)),
     sm_emergencyCommands =
       (case get_arr sm ''emergency_commands'' of
          None \<Rightarrow> [''reboot'', ''shutdown'']
        | Some cs \<Rightarrow> let l = parse_emergency cs in if l = [] then [''reboot'', ''shutdown''] else l),
     sm_eviction = (case get_obj sm ''eviction'' of None \<Rightarrow> default_eviction | Some ev \<Rightarrow> parse_eviction ev)\<rparr>"

definition parseSystemMonitorConfig :: "string \<Rightarrow> system_monitor_config \<Rightarrow> system_monitor_config option" where
  "parseSystemMonitorConfig s g =
     map_option (\<lambda>doc. if \<not> is_obj doc then g
                        else case get_obj doc ''system_monitor'' of
                               None \<Rightarrow> default_sysmon
                             | Some sm \<Rightarrow> parse_sysmon sm) (parse_json s)"

section \<open>Lemmas\<close>

lemma get_JObj [simp]:
  "get_str (JObj kvs) key d = (case map_of kvs key of None \<Rightarrow> d | Some x \<Rightarrow> as_str x)"
  "get_bool (JObj kvs) key b = (case map_of kvs key of None \<Rightarrow> b | Some x \<Rightarrow> as_bool x)"
  "get_int (JObj kvs) key i = (case map_of kvs key of None \<Rightarrow> i | Some x \<Rightarrow> to_cint (as_num x))"
  "get_obj (JObj kvs) key = (case map_of kvs key of None \<Rightarrow> None | Some x \<Rightarrow> if is_obj x then Some x else None)"
  "get_arr (JObj kvs) key = (case map_of kvs key of None \<Rightarrow> None | Some x \<Rightarrow> if is_arr x then Some (jelems x) else None)"
  "jget (JObj kvs) key = map_of kvs key"
  by (simp_all add: get_str_def get_bool_def get_int_def get_obj_def get_arr_def jget_def)

lemma to_cint_of_int [simp]: "INT_MIN \<le> i \<Longrightarrow> i \<le> INT_MAX \<Longrightarrow> to_cint (of_int i) = i"
  by (simp add: to_cint_def)

lemma to_cint_range: "INT_MIN \<le> to_cint d \<and> to_cint d \<le> INT_MAX"
  by (auto simp: to_cint_def INT_MIN_def INT_MAX_def)

lemma clamp_rat_range: "0 < d \<Longrightarrow> d \<le> 1 \<Longrightarrow> 0 < clamp_rat d x \<and> clamp_rat d x \<le> 1"
  by (auto simp: clamp_rat_def)

lemma clamp_pos_ge1: "1 \<le> d \<Longrightarrow> 1 \<le> clamp_pos d x"
  by (auto simp: clamp_pos_def)

lemma map_filter_map: "List.map_filter f (map g xs) = List.map_filter (f \<circ> g) xs"
  by (induction xs) (auto simp: List.map_filter_simps split: option.splits)

lemma map_filter_id: "(\<And>x. x \<in> set xs \<Longrightarrow> f x = Some x) \<Longrightarrow> List.map_filter f xs = xs"
  by (induction xs) (auto simp: List.map_filter_simps)

lemma map_filter_set: "y \<in> set (List.map_filter f xs) \<longleftrightarrow> (\<exists>x \<in> set xs. f x = Some y)"
  by (induction xs) (auto simp: List.map_filter_simps split: option.splits)

end
