(* ===== verification/GK_ConfigProps.thy ===== *)
theory GK_ConfigProps
  imports GK_Config GK_JsonRoundtrip
begin

text \<open>
  What the configuration readers promise: every key of a well-formed configuration reaches its
  field (a round trip through the serialised text), a port without its mandatory keys
  is dropped, the system monitor's thresholds are clamped, and how the global control
  section changes when a configuration is parsed again.
\<close>

section \<open>The configuration as a document\<close>

text \<open>The document of a configuration: the specification of the key names.\<close>

abbreviation jint :: "int \<Rightarrow> json" where "jint i \<equiv> JNum (of_int i)"

definition auth_json :: "auth_config \<Rightarrow> json" where
  "auth_json a = JObj [(''type'', JStr (au_type a)), (''username'', JStr (au_username a)),
     (''password'', JStr (au_password a))]"

definition monitor_json :: "monitor_config \<Rightarrow> json" where
  "monitor_json m = JObj [(''enabled'', JBool (mo_enabled m)), (''interval_seconds'', jint (mo_intervalSec m)),
     (''log_dedup'', JStr (mo_logDedup m)), (''ipv6'', JBool (mo_ipv6 m))]"

definition protocol_json :: "protocol_config \<Rightarrow> json" where
  "protocol_json p = JObj [(''type'', JStr (pr_type p)), (''command'', JStr (pr_command p)),
     (''proxy_to'', JStr (pr_proxyTo p)), (''delay'', jint (pr_delayMs p)), (''enabled'', JBool (pr_enabled p))]"

definition port_json :: "port_config \<Rightarrow> json" where
  "port_json p = JObj [(''name'', JStr (pc_name p)), (''group'', JStr (pc_groupName p)),
     (''enabled'', JBool (pc_enabled p)), (''listen'', JStr (pc_listenAddr p)),
     (''command'', JStr (pc_command p)), (''stop_command'', JStr (pc_stopCommand p)),
     (''idle_minutes'', jint (pc_idleMinutes p)), (''delay'', jint (pc_delayMs p)),
     (''refresh_seconds'', jint (pc_refreshSeconds p)), (''retry_seconds'', jint (pc_retrySeconds p)),
     (''max_retry_seconds'', jint (pc_maxRetrySeconds p)), (''auto_restart'', JBool (pc_autoRestart p)),
     (''stack_size'', jint (pc_stackSize p)), (''mode'', JStr (pc_mode p)), (''hold_port'', JBool (pc_holdPort p)),
     (''protocols'', JArr (map protocol_json (pc_protocols p))), (''auth'', auth_json (pc_auth p)),
     (''http_target'', JStr (pc_httpTarget p)), (''launch_on_start'', JBool (pc_launchOnStart p)),
     (''monitor'', monitor_json (pc_monitor p))]"

definition command_json :: "command_config \<Rightarrow> json" where
  "command_json c = JObj [(''name'', JStr (cc_name c)), (''command'', JStr (cc_command c))]"

definition control_json :: "control_config \<Rightarrow> json" where
  "control_json c = JObj [(''listen'', JStr (ct_listen c)),
     (''auth'', JObj [(''type'', JStr (ca_type (ct_auth c))), (''token'', JStr (ca_token (ct_auth c)))]),
     (''pin'', JStr (ct_pin c)), (''max_connections'', jint (ct_maxConnections c)),
     (''rate_limit_seconds'', jint (ct_rateLimitSeconds c)), (''commands'', JArr (map command_json (ct_commands c)))]"

definition config_json :: "port_config list \<Rightarrow> control_config \<Rightarrow> json" where
  "config_json ps c = JObj [(''control'', control_json c), (''ports'', JArr (map port_json ps))]"

section \<open>Which configurations have a document\<close>

definition int32 :: "int \<Rightarrow> bool" where
  "int32 i \<longleftrightarrow> INT_MIN \<le> i \<and> i \<le> INT_MAX"

definition protocol_ok :: "protocol_config \<Rightarrow> bool" where
  "protocol_ok p \<longleftrightarrow> pr_enabled p \<and> pr_type p \<noteq> [] \<and> int32 (pr_delayMs p)"

definition port_ok :: "port_config \<Rightarrow> bool" where
  "port_ok p \<longleftrightarrow> pc_enabled p \<and> list_all int32 [pc_idleMinutes p, pc_delayMs p, pc_refreshSeconds p, pc_retrySeconds p,
     pc_maxRetrySeconds p, pc_stackSize p, mo_intervalSec (pc_monitor p)] \<and> list_all protocol_ok (pc_protocols p)"

definition control_ok :: "control_config \<Rightarrow> bool" where
  "control_ok c \<longleftrightarrow> int32 (ct_maxConnections c) \<and> int32 (ct_rateLimitSeconds c) \<and>
     list_all (\<lambda>cc. cc_name cc \<noteq> [] \<and> cc_command cc \<noteq> []) (ct_commands c)"

lemma exact_jint [simp]: "int32 i \<Longrightarrow> exact_json (jint i)"
proof -
  assume "int32 i"
  then have "\<bar>i\<bar> < 2 ^ 53" by (simp add: int32_def INT_MIN_def INT_MAX_def) arith
  then have "rat_of_int \<bar>i\<bar> < rat_of_int (2 ^ 53)" by (simp only: of_int_less_iff)
  then show ?thesis by simp
qed

lemma int32_to_cint [simp]: "int32 i \<Longrightarrow> to_cint (of_int i) = i"
  by (simp add: int32_def)

section \<open>Round trip\<close>

lemma parse_protocol_json: "protocol_ok p \<Longrightarrow> parse_protocol (protocol_json p) = Some p"
  by (simp add: parse_protocol_def protocol_json_def protocol_ok_def)

lemma parse_command_json:
  "cc_name c \<noteq> [] \<Longrightarrow> cc_command c \<noteq> [] \<Longrightarrow> parse_command (command_json c) = Some c"
  by (simp add: parse_command_def command_json_def)

lemma parse_auth_json: "parse_auth (auth_json a) = a"
  by (simp add: parse_auth_def auth_json_def)

lemma parse_monitor_json: "int32 (mo_intervalSec m) \<Longrightarrow> parse_monitor (monitor_json m) = m"
  by (simp add: parse_monitor_def monitor_json_def)

lemma is_obj_json [simp]:
  "is_obj (auth_json a)" "is_obj (monitor_json m)" "is_obj (port_json p)" "is_obj (control_json c)"
  by (simp_all add: auth_json_def monitor_json_def port_json_def control_json_def)

lemma map_filter_protocols:
  "list_all protocol_ok ps \<Longrightarrow> List.map_filter parse_protocol (map protocol_json ps) = ps"
  by (simp add: map_filter_map map_filter_id parse_protocol_json list_all_iff)

lemma parse_port_json: "port_ok p \<Longrightarrow> parse_port (port_json p) = Some p"
  unfolding parse_port_def
  by (simp add: port_ok_def entry_complete_def)
    (simp add: port_json_def parse_auth_json parse_monitor_json map_filter_protocols)

lemma parse_control_json:
  "control_ok c \<Longrightarrow> parse_control (control_json c) g = c\<lparr>ct_commands := ct_commands g @ ct_commands c\<rparr>"
  by (simp add: parse_control_def control_json_def parse_control_auth_def control_ok_def Let_def
      map_filter_map map_filter_id parse_command_json list_all_iff)

lemma parse_config_doc:
  assumes "list_all port_ok ps" and "control_ok c"
  shows "parse_root (config_json ps c) g = (ps, c\<lparr>ct_commands := ct_commands g @ ct_commands c\<rparr>)"
  using assms by (simp add: parse_root_def config_json_def parse_control_json
      map_filter_map map_filter_id parse_port_json list_all_iff)

lemma exact_config_json:
  assumes "list_all port_ok ps" and "control_ok c"
  shows "exact_json (config_json ps c)"
proof -
  have "exact_json (protocol_json p)" if "protocol_ok p" for p
    using that by (simp add: protocol_json_def protocol_ok_def del: exact_json.simps(1))
  then have "exact_json (port_json p)" if "port_ok p" for p
    using that by (auto simp: port_json_def port_ok_def auth_json_def monitor_json_def list_all_iff
        simp del: exact_json.simps(1))
  then show ?thesis using assms
    by (auto simp: config_json_def control_json_def control_ok_def command_json_def list_all_iff
        simp del: exact_json.simps(1))
qed

lemma parseConfig_config_json:
  "list_all port_ok ps \<Longrightarrow> control_ok c \<Longrightarrow>
   parseConfig (render (config_json ps c)) g = Some (ps, c\<lparr>ct_commands := ct_commands g @ ct_commands c\<rparr>)"
  by (simp add: parseConfig_def parse_json_exact [OF exact_config_json] parse_config_doc)

text \<open>
  C6: every key of the configuration file reaches its field and nothing else does: for all ports that
  are enabled, with 32-bit numbers and protocols that name a type, and every
  control section, \<open>parseConfig\<close> of the configuration's text returns exactly these ports and
  this control section, except that the whitelisted commands are appended to those the global
  already holds.
\<close>
theorem parseConfig_document:
  assumes "list_all port_ok ps" and "control_ok c"
  shows "parseConfig (render (config_json ps c)) g =
           Some (ps, c\<lparr>ct_commands := ct_commands g @ ct_commands c\<rparr>)"
  using assms by (rule parseConfig_config_json)

theorem parseConfig_document_witness:
  "parseConfig (render (config_json [default_port\<lparr>pc_listenAddr := '':80'', pc_delayMs := - 7\<rparr>]
       (default_control\<lparr>ct_commands := [\<lparr>cc_name = ''a'', cc_command = ''b''\<rparr>]\<rparr>))) default_control
     = Some ([default_port\<lparr>pc_listenAddr := '':80'', pc_delayMs := - 7\<rparr>],
             default_control\<lparr>ct_commands := [\<lparr>cc_name = ''a'', cc_command = ''b''\<rparr>]\<rparr>)"
  by (subst parseConfig_document)
    (simp_all add: default_port_def default_control_def port_ok_def control_ok_def int32_def INT_MIN_def
      INT_MAX_def default_monitor_def)

section \<open>Bounds of what is read\<close>

lemma get_int_int32: "int32 d \<Longrightarrow> int32 (get_int v key d)"
  using to_cint_range by (auto simp: get_int_def int32_def split: option.splits)

lemma parse_port_bounds:
  assumes "parse_port e = Some p"
  shows "pc_enabled p" "list_all pr_enabled (pc_protocols p)"
    "list_all int32 [pc_idleMinutes p, pc_delayMs p, pc_refreshSeconds p, pc_retrySeconds p,
       pc_maxRetrySeconds p, pc_stackSize p, mo_intervalSec (pc_monitor p)]"
proof -
  have int: "int32 20" "int32 5000" "int32 5" "int32 10" "int32 300" "int32 512" "int32 60"
    by (simp_all add: int32_def INT_MIN_def INT_MAX_def)
  show "pc_enabled p" using assms by (auto simp: parse_port_def split: if_splits)
  show "list_all pr_enabled (pc_protocols p)"
    using assms by (auto simp: parse_port_def list_all_iff map_filter_set parse_protocol_def
        default_protocol_def Let_def split: if_splits option.splits)
  have "int32 (mo_intervalSec (pc_monitor p))"
    using assms int get_int_int32 by (auto simp: parse_port_def parse_monitor_def default_monitor_def
        split: if_splits option.splits)
  then show "list_all int32 [pc_idleMinutes p, pc_delayMs p, pc_refreshSeconds p, pc_retrySeconds p,
       pc_maxRetrySeconds p, pc_stackSize p, mo_intervalSec (pc_monitor p)]"
    using assms int by (auto simp: parse_port_def get_int_int32 split: if_splits)
qed


lemma parse_enabled_false:
  "parse_json ''{\"ports\":[{\"listen\":\":1\",\"command\":\"c\",\"delay\":7.9}]}'' =
     Some (JObj [(''ports'', JArr [JObj [(''listen'', JStr '':1''), (''command'', JStr ''c''), (''delay'', JNum (79/10))]])])"
  by code_simp


text \<open>
  The well-formed system monitor settings.
\<close>

definition sysmon_ok :: "system_monitor_config \<Rightarrow> bool" where
  "sysmon_ok c \<longleftrightarrow> 1 \<le> sm_intervalSeconds c \<and> 1 \<le> sm_fastIntervalSeconds c \<and>
     0 < sm_memoryHighThreshold c \<and> sm_memoryHighThreshold c \<le> 1 \<and>
     0 < sm_swapHighThreshold c \<and> sm_swapHighThreshold c \<le> 1 \<and>
     sm_emergencyCommands c \<noteq> [] \<and> [] \<notin> set (sm_emergencyCommands c) \<and>
     1 \<le> ev_sustainSeconds (sm_eviction c) \<and>
     list_all (\<lambda>x. 0 < x \<and> x \<le> 1) [ev_memoryCritical (sm_eviction c), ev_swapCritical (sm_eviction c),
       ev_relaunchMemoryBelow (sm_eviction c), ev_relaunchSwapBelow (sm_eviction c)]"

lemma default_sysmon_ok: "sysmon_ok default_sysmon"
  by (simp add: sysmon_ok_def default_sysmon_def default_eviction_def)

lemma parse_eviction_ok:
  "1 \<le> ev_sustainSeconds (parse_eviction ev)"
  "list_all (\<lambda>x. 0 < x \<and> x \<le> 1) [ev_memoryCritical (parse_eviction ev), ev_swapCritical (parse_eviction ev),
       ev_relaunchMemoryBelow (parse_eviction ev), ev_relaunchSwapBelow (parse_eviction ev)]"
  by (simp_all add: parse_eviction_def clamp_pos_ge1 clamp_rat_range)

lemma parse_emergency_nonempty: "[] \<notin> set (parse_emergency cs)"
  by (auto simp: parse_emergency_def)

lemma parse_sysmon_emergency:
  "sm_emergencyCommands (parse_sysmon sm) \<noteq> [] \<and> [] \<notin> set (sm_emergencyCommands (parse_sysmon sm))"
  using parse_emergency_nonempty
  by (cases "get_arr sm ''emergency_commands''") (auto simp: parse_sysmon_def Let_def)

lemma parse_sysmon_eviction:
  "sm_eviction (parse_sysmon sm) = (case get_obj sm ''eviction'' of None \<Rightarrow> default_eviction | Some ev \<Rightarrow> parse_eviction ev)"
  by (simp add: parse_sysmon_def)

lemma parse_sysmon_ok: "sysmon_ok (parse_sysmon sm)"
proof -
  have ev: "1 \<le> ev_sustainSeconds (sm_eviction (parse_sysmon sm)) \<and>
     list_all (\<lambda>x. 0 < x \<and> x \<le> 1) [ev_memoryCritical (sm_eviction (parse_sysmon sm)),
       ev_swapCritical (sm_eviction (parse_sysmon sm)), ev_relaunchMemoryBelow (sm_eviction (parse_sysmon sm)),
       ev_relaunchSwapBelow (sm_eviction (parse_sysmon sm))]"
    unfolding parse_sysmon_eviction
    by (cases "get_obj sm ''eviction''")
      (simp_all only: option.case parse_eviction_ok, simp_all add: default_eviction_def)
  have "1 \<le> sm_intervalSeconds (parse_sysmon sm)" "1 \<le> sm_fastIntervalSeconds (parse_sysmon sm)"
    "0 < sm_memoryHighThreshold (parse_sysmon sm)" "sm_memoryHighThreshold (parse_sysmon sm) \<le> 1"
    "0 < sm_swapHighThreshold (parse_sysmon sm)" "sm_swapHighThreshold (parse_sysmon sm) \<le> 1"
    by (simp_all add: parse_sysmon_def clamp_pos_ge1 clamp_rat_range)
  with ev parse_sysmon_emergency show ?thesis unfolding sysmon_ok_def by blast
qed

text \<open>
  The settings of the system monitor are well-formed after every parse, whatever the text holds:
  intervals and the sustained time of at least one second, thresholds in (0,1], a
  non-empty list of non-empty emergency commands.
\<close>
theorem parseSystemMonitorConfig_ok:
  assumes "sysmon_ok g" and "parseSystemMonitorConfig s g = Some c"
  shows "sysmon_ok c"
  using assms parse_sysmon_ok default_sysmon_ok
  by (auto simp: parseSystemMonitorConfig_def split: if_splits option.splits)

lemma parse_sysmon_text:
  "parse_json ''{\"system_monitor\":{\"interval_seconds\":0}}'' =
     Some (JObj [(''system_monitor'', JObj [(''interval_seconds'', JNum 0)])])"
  by code_simp

theorem parseSystemMonitorConfig_ok_witness:
  "sysmon_ok (the (parseSystemMonitorConfig ''{\"system_monitor\":{\"interval_seconds\":0}}'' default_sysmon))"
proof -
  let ?s = "''{\"system_monitor\":{\"interval_seconds\":0}}''"
  obtain c where c: "parseSystemMonitorConfig ?s default_sysmon = Some c"
    unfolding parseSystemMonitorConfig_def parse_sysmon_text by blast
  show ?thesis unfolding c option.sel by (rule parseSystemMonitorConfig_ok [OF default_sysmon_ok c])
qed

section \<open>The control section on a reload\<close>

text \<open>
  The limits of the control server are read only beside an \<open>auth\<close> object: without one,
  \<open>max_connections\<close> and \<open>rate_limit_seconds\<close> of the file are ignored, whatever they are.
\<close>
theorem control_limits_need_auth:
  assumes "get_obj ctrl ''auth'' = None"
  shows "ct_maxConnections (parse_control ctrl g) = ct_maxConnections g \<and>
         ct_rateLimitSeconds (parse_control ctrl g) = ct_rateLimitSeconds g"
  using assms by (simp add: parse_control_def Let_def split: option.split)

theorem control_limits_need_auth_witness:
  "ct_maxConnections (parse_control (JObj [(''listen'', JStr '':19999''), (''max_connections'', JNum 3)]) default_control) = 20"
  using control_limits_need_auth [of "JObj [(''listen'', JStr '':19999''), (''max_connections'', JNum 3)]" default_control]
  by (simp add: default_control_def)

end
