(* ===== verification/GK_RefreshFile.thy ===== *)
theory GK_RefreshFile
  imports GK_Text
begin

text \<open>
  The in-place edit of the configuration file, \<open>skipJsonString\<close> and
  \<open>updateRefreshSecondsInFile\<close> of \<open>config.cpp\<close>. A position into the text is the rest of the text from there,
  so the position of a rest \<open>r\<close> of \<open>t\<close> is \<open>length t - length r\<close>. The first pass finds the brace of the
  entry whose \<open>listen\<close> is the given address, the second the key \<open>refresh_seconds\<close> inside it or the
  closing brace; the edit then replaces the number or inserts the key.
\<close>

section \<open>String literals\<close>

text \<open>\<open>skipJsonString\<close> from the character after the opening quote.\<close>

fun skip_body :: "string \<Rightarrow> string" where
  "skip_body [] = []"
| "skip_body (c # cs) =
     (if c = BS then (case cs of [] \<Rightarrow> [] | _ # cs' \<Rightarrow> skip_body cs')
      else if c = DQ then cs else skip_body cs)"

definition skipJsonString :: "string \<Rightarrow> string" where
  "skipJsonString s = skip_body (drop 1 s)"

text \<open>The rest from the closing quote of a literal on, the quote included.\<close>

fun closing_quote :: "string \<Rightarrow> string option" where
  "closing_quote [] = None"
| "closing_quote (c # cs) =
     (if c = BS then (case cs of [] \<Rightarrow> None | _ # cs' \<Rightarrow> closing_quote cs')
      else if c = DQ then Some (c # cs) else closing_quote cs)"

lemma skip_body_suffix: "suffix_of (skip_body s) s"
  by (induction s rule: skip_body.induct) (auto simp: suffix_of_Cons split: list.splits)

lemma skip_body_length [termination_simp]: "length (skip_body s) \<le> length s"
  by (rule suffix_of_length [OF skip_body_suffix])

lemma skip_body_less [termination_simp]: "length (skip_body s) < Suc (length s)"
  using skip_body_length [of s] by simp

interpretation lit_scan: scanner "\<lambda>s. (True, skipJsonString s)"
  by unfold_locales (simp add: skipJsonString_def suffix_of_trans [OF skip_body_suffix suffix_of_drop])

section \<open>First pass: the entry\<close>

text \<open>After the token \<open>listen\<close>: blanks, a colon, blanks and a literal whose raw text is the address.\<close>

definition listen_value :: "string \<Rightarrow> string \<Rightarrow> bool" where
  "listen_value addr after =
     (case dropWhile is_space after of
        [] \<Rightarrow> False
      | c # cs \<Rightarrow> c = CHR '':'' \<and>
          (case dropWhile is_space cs of
             [] \<Rightarrow> False
           | q # v \<Rightarrow> q = DQ \<and>
               (case closing_quote v of None \<Rightarrow> False | Some r \<Rightarrow> take (length v - length r) v = addr)))"

fun find_entry :: "string \<Rightarrow> nat \<Rightarrow> string option \<Rightarrow> string \<Rightarrow> string option" where
  "find_entry addr depth entryOpen [] = None"
| "find_entry addr depth entryOpen (c # cs) =
     (if c = DQ then
        (let after = skip_body cs; tok = take (length cs - length after - 1) cs
         in if tok = ''listen'' \<and> depth = 2 \<and> entryOpen \<noteq> None \<and> listen_value addr after
            then entryOpen else find_entry addr depth entryOpen after)
      else if c = CHR ''{'' then
        find_entry addr (depth + 1) (if depth + 1 = 2 then Some (c # cs) else entryOpen) cs
      else if c = CHR ''}'' then find_entry addr (depth - 1) entryOpen cs
      else find_entry addr depth entryOpen cs)"

section \<open>Second pass: the key or the closing brace\<close>

datatype spot = Key string | Close string | Nowhere

fun find_spot :: "nat \<Rightarrow> string \<Rightarrow> spot" where
  "find_spot depth [] = Nowhere"
| "find_spot depth (c # cs) =
     (if c = DQ then
        (if depth = 1 \<and> starts_with (DQ # ''refresh_seconds'' @ [DQ]) (c # cs) then Key (c # cs)
         else find_spot depth (skip_body cs))
      else if c = CHR ''{'' then find_spot (depth + 1) cs
      else if c = CHR ''}'' then (if depth = 1 then Close (c # cs) else find_spot (depth - 1) cs)
      else find_spot depth cs)"

section \<open>The edit\<close>

definition number_end :: "string \<Rightarrow> string" where
  "number_end s = dropWhile is_digit (case s of [] \<Rightarrow> [] | c # cs \<Rightarrow> if c = CHR ''-'' then cs else s)"

definition replace_value :: "string \<Rightarrow> string \<Rightarrow> string \<Rightarrow> string option" where
  "replace_value text key newVal =
     (case find_char (CHR '':'') key of
        None \<Rightarrow> None
      | Some colon \<Rightarrow>
          (let vs = dropWhile is_space (drop (colon + 1) key); ve = number_end vs
           in if length ve = length vs then None
              else Some (take (length text - length vs) text @ newVal @ ve)))"

definition line_start :: "string \<Rightarrow> string" where
  "line_start before = (case rfind_char NL before of None \<Rightarrow> before | Some ls \<Rightarrow> drop (ls + 1) before)"

definition is_indent :: "char \<Rightarrow> bool" where
  "is_indent c \<longleftrightarrow> c = SP \<or> c = TAB"

definition insert_value :: "string \<Rightarrow> string \<Rightarrow> string \<Rightarrow> string" where
  "insert_value text brace newVal =
     (let before = take (length text - length brace) text;
          indent = takeWhile is_indent (line_start before)
      in before @ indent @ DQ # ''refresh_seconds'' @ DQ # '': '' @ newVal @ NL # brace)"

definition update_text :: "string \<Rightarrow> string \<Rightarrow> int \<Rightarrow> string option" where
  "update_text text listenAddr seconds =
     (case find_entry listenAddr 0 None text of
        None \<Rightarrow> None
      | Some entry \<Rightarrow>
          (case find_spot 1 (drop 1 entry) of
             Key key \<Rightarrow> replace_value text key (to_string seconds)
           | Close brace \<Rightarrow> Some (insert_value text brace (to_string seconds))
           | Nowhere \<Rightarrow> None))"

text \<open>
  The whole function: the file's contents (\<open>None\<close>: it cannot be opened), and what the
  file holds after the truncating write together with the stream's final state. The result is
  the returned flag and the file.
\<close>

definition updateRefreshSecondsInFile ::
    "(string \<Rightarrow> string \<times> bool) option \<Rightarrow> string option \<Rightarrow> string \<Rightarrow> int \<Rightarrow> bool \<times> string option" where
  "updateRefreshSecondsInFile write file listenAddr seconds =
     (case file of
        None \<Rightarrow> (False, None)
      | Some text \<Rightarrow>
          (case update_text text listenAddr seconds of
             None \<Rightarrow> (False, file)
           | Some text' \<Rightarrow>
               (case write of
                  None \<Rightarrow> (False, file)
                | Some w \<Rightarrow> (let (stored, good) = w text' in (good, Some stored)))))"

section \<open>The edit is local\<close>

lemma find_entry_suffix:
  assumes "find_entry addr d eo s = Some e" and "\<And>x. eo = Some x \<Longrightarrow> suffix_of x t" and "suffix_of s t"
  shows "suffix_of e t"
  using assms
proof (induction addr d eo s rule: find_entry.induct)
  case (2 addr d eo c cs)
  have cs: "suffix_of cs t" using "2.prems"(3) by (rule suffix_of_ConsD)
  consider "c = DQ" | "c = CHR ''{''" | "c = CHR ''}''" | "c \<noteq> DQ" "c \<noteq> CHR ''{''" "c \<noteq> CHR ''}''" by blast
  then show ?case
  proof cases
    case 1
    have "suffix_of (skip_body cs) t" using skip_body_suffix cs by (rule suffix_of_trans)
    then show ?thesis using "2.IH"(1) "2.prems" 1 by (auto simp: Let_def split: if_splits)
  next
    case 2
    then show ?thesis using "2.IH"(2) "2.prems" cs by (auto split: if_splits)
  next
    case 3
    then show ?thesis using "2.IH"(3) "2.prems" cs by simp
  next
    case 4
    then show ?thesis using "2.IH"(4) "2.prems" cs by simp
  qed
qed simp

fun spot_rest :: "spot \<Rightarrow> string" where
  "spot_rest (Key k) = k"
| "spot_rest (Close k) = k"
| "spot_rest Nowhere = []"

lemma find_spot_rest: "suffix_of (spot_rest (find_spot d s)) s"
proof (induction d s rule: find_spot.induct)
  case (2 d c cs)
  consider "c = DQ" | "c = CHR ''{''" | "c = CHR ''}''" | "c \<noteq> DQ" "c \<noteq> CHR ''{''" "c \<noteq> CHR ''}''" by blast
  then show ?case
  proof cases
    case 1
    show ?thesis
    proof (cases "d = 1 \<and> starts_with (DQ # ''refresh_seconds'' @ [DQ]) (c # cs)")
      case True
      then have "find_spot d (c # cs) = Key (c # cs)" using 1 by simp
      then show ?thesis by simp
    next
      case False
      then have e: "find_spot d (c # cs) = find_spot d (skip_body cs)" using 1 by (simp only: find_spot.simps if_False simp_thms if_True)
      show ?thesis unfolding e
        by (rule suffix_of_Cons [OF suffix_of_trans [OF "2.IH"(1) [OF 1 False] skip_body_suffix]])
    qed
  next
    case 2
    then show ?thesis using "2.IH"(2) by (simp add: suffix_of_Cons)
  next
    case 3
    then show ?thesis using "2.IH"(3) by (cases "d = 1") (simp_all add: suffix_of_Cons)
  next
    case 4
    then show ?thesis using "2.IH"(4) by (simp add: suffix_of_Cons)
  qed
qed simp

lemma find_spot_suffix:
  "find_spot d s = Key k \<Longrightarrow> suffix_of k s" "find_spot d s = Close k \<Longrightarrow> suffix_of k s"
  using find_spot_rest [of d s] by simp_all

lemma find_spot_close: "find_spot d s = Close k \<Longrightarrow> \<exists>r. k = CHR ''}'' # r"
proof (induction d s rule: find_spot.induct)
  case (2 d c cs)
  then show ?case by (auto split: if_splits)
qed simp

definition is_number_text :: "string \<Rightarrow> bool" where
  "is_number_text w \<longleftrightarrow> w \<noteq> [] \<and> (list_all is_digit w \<or> (\<exists>ds. w = CHR ''-'' # ds \<and> list_all is_digit ds))"

lemma take_suffix: "suffix_of r t \<Longrightarrow> t = take (length t - length r) t @ r"
  by (auto simp: suffix_of_def)

lemma number_end_split:
  assumes "length (number_end vs) \<noteq> length vs"
  shows "\<exists>w. vs = w @ number_end vs \<and> is_number_text w"
proof (cases "\<exists>cs. vs = CHR ''-'' # cs")
  case True
  then obtain cs where cs: "vs = CHR ''-'' # cs" by blast
  have "vs = (CHR ''-'' # takeWhile is_digit cs) @ number_end vs" using cs by (simp add: number_end_def)
  moreover have "is_number_text (CHR ''-'' # takeWhile is_digit cs)"
    by (auto simp: is_number_text_def list_all_iff dest: set_takeWhileD)
  ultimately show ?thesis by blast
next
  case False
  then have ne: "number_end vs = dropWhile is_digit vs" by (cases vs) (auto simp: number_end_def)
  have "vs = takeWhile is_digit vs @ number_end vs" using ne by simp
  moreover have "is_number_text (takeWhile is_digit vs)"
    using assms ne by (auto simp: is_number_text_def list_all_iff takeWhile_eq_Nil_iff dest: set_takeWhileD)
      (metis dropWhile_eq_self_iff list.sel(1))
  ultimately show ?thesis by blast
qed

lemma replace_value_local:
  assumes "replace_value t key v = Some t'" and "suffix_of key t"
  shows "\<exists>a w b. t = a @ w @ b \<and> t' = a @ v @ b \<and> is_number_text w"
proof -
  from assms(1) obtain colon vs where vs: "vs = dropWhile is_space (drop (colon + 1) key)"
      and ne: "length (number_end vs) \<noteq> length vs"
      and t': "t' = take (length t - length vs) t @ v @ number_end vs"
    by (auto simp: replace_value_def Let_def split: option.splits if_splits)
  have "suffix_of vs t" unfolding vs
    by (rule suffix_of_trans [OF suffix_of_trans [OF suffix_of_dropWhile suffix_of_drop] assms(2)])
  then have "t = take (length t - length vs) t @ vs" by (rule take_suffix)
  with t' number_end_split [OF ne] show ?thesis by metis
qed

lemma insert_value_local:
  assumes "suffix_of brace t"
  shows "\<exists>a. t = a @ brace \<and> insert_value t brace v =
     a @ takeWhile is_indent (line_start a) @ DQ # ''refresh_seconds'' @ DQ # '': '' @ v @ NL # brace"
  using take_suffix [OF assms] by (auto simp: insert_value_def Let_def)


lemma update_text_example:
  "update_text ''{\"ports\":[{\"listen\":\":80\",\"refresh_seconds\":5}]}'' '':80'' 30 =
     Some ''{\"ports\":[{\"listen\":\":80\",\"refresh_seconds\":30}]}''"
  by code_simp


end
