(* ===== verification/GK_Platform.thy ===== *)
theory GK_Platform
  imports GK_Text "HOL-Library.Word"
begin

text \<open>
  The platform layer: \<open>parseCommandLine\<close> of \<open>relay_platform.h\<close>, and from \<open>relay_posix.cpp\<close> the split of
  the environment assignments in front of a command, what a launched child is
  given, the capture of a shell command's output, its chunked streaming, and the random token.
  The kernel's answers (what \<open>poll\<close>, \<open>read\<close>, \<open>write\<close> and \<open>waitpid\<close> return) are arguments.
\<close>

section \<open>Command lines\<close>

text \<open>Inside quotes, from the character after the opening one; \<open>None\<close> when the quote is not closed.\<close>

fun quoted :: "char \<Rightarrow> string \<Rightarrow> (string \<times> string) option" where
  "quoted q [] = None"
| "quoted q (c # cs) =
     (if q = DQ \<and> c = BS \<and> cs \<noteq> [] then
        (case cs of
           [] \<Rightarrow> None
         | nx # cs' \<Rightarrow>
             if nx = DQ \<or> nx = BS then map_option (map_prod ((#) nx) id) (quoted q cs')
             else map_option (map_prod ((#) c) id) (quoted q cs))
      else if c = q then Some ([], cs)
      else map_option (map_prod ((#) c) id) (quoted q cs))"

lemma quoted_length: "quoted q s = Some (a, r) \<Longrightarrow> length r < length s"
proof (induction q s arbitrary: a r rule: quoted.induct)
  case (2 q c cs)
  show ?case
  proof (cases "q = DQ \<and> c = BS \<and> cs \<noteq> []")
    case True
    then obtain nx cs' where cs: "cs = nx # cs'" by (cases cs) auto
    show ?thesis using "2.IH"(1) [OF True cs] "2.IH"(2) [OF True cs] "2.prems" True
      unfolding cs by (cases "nx = DQ \<or> nx = BS") (fastforce dest: less_SucI)+
  next
    case False
    then have e: "quoted q (c # cs) = (if c = q then Some ([], cs) else map_option (map_prod ((#) c) id) (quoted q cs))"
      by (simp only: quoted.simps if_False)
    show ?thesis using "2.IH"(3) [OF False] "2.prems" unfolding e
      by (auto simp: less_SucI split: if_splits)
  qed
qed simp

text \<open>One argument: quotes and escapes may start anywhere in it, a blank ends it.\<close>

function argument :: "string \<Rightarrow> (string \<times> string) option" where
  "argument [] = Some ([], [])"
| "argument (c # cs) =
     (if c = SQ \<or> c = DQ then
        (case quoted c cs of
           None \<Rightarrow> None
         | Some (a, r) \<Rightarrow> map_option (map_prod ((@) a) id) (argument r))
      else if c = BS \<and> cs \<noteq> [] then map_option (map_prod ((#) (hd cs)) id) (argument (tl cs))
      else if is_blank4 c then Some ([], c # cs)
      else map_option (map_prod ((#) c) id) (argument cs))"
  by pat_completeness auto
termination
  by (relation "measure length") (auto dest: quoted_length)

lemma argument_length: "argument s = Some (a, r) \<Longrightarrow> length r \<le> length s"
proof (induction s arbitrary: a r rule: argument.induct)
  case (2 c cs)
  consider (quote) "c = SQ \<or> c = DQ" | (escape) "\<not> (c = SQ \<or> c = DQ)" "c = BS \<and> cs \<noteq> []"
    | (other) "\<not> (c = SQ \<or> c = DQ)" "\<not> (c = BS \<and> cs \<noteq> [])" by blast
  then show ?case
  proof cases
    case quote
    then obtain q r0 a0 where "quoted c cs = Some (q, r0)" "argument r0 = Some (a0, r)"
      using "2.prems" by (auto split: option.splits)
    with "2.IH"(1) [OF quote this(1) refl this(2)] quoted_length show ?thesis by fastforce
  next
    case escape
    then obtain a0 where "argument (tl cs) = Some (a0, r)" using "2.prems" by auto
    with "2.IH"(2) [OF escape this] show ?thesis by simp
  next
    case other
    show ?thesis
    proof (cases "is_blank4 c")
      case True
      then show ?thesis using "2.prems" other by (auto split: if_splits)
    next
      case False
      then obtain a0 where "argument cs = Some (a0, r)" using "2.prems" other by (auto split: if_splits)
      with "2.IH"(3) [OF other False this] show ?thesis by simp
    qed
  qed
qed simp

lemma argument_progress:
  assumes "argument (c # cs) = Some (a, r)" and "\<not> is_blank4 c"
  shows "length r \<le> length cs"
proof -
  consider (quote) "c = SQ \<or> c = DQ" | (escape) "\<not> (c = SQ \<or> c = DQ)" "c = BS \<and> cs \<noteq> []"
    | (other) "\<not> (c = SQ \<or> c = DQ)" "\<not> (c = BS \<and> cs \<noteq> [])" by blast
  then show ?thesis
  proof cases
    case quote
    then obtain q r0 a0 where "quoted c cs = Some (q, r0)" "argument r0 = Some (a0, r)"
      using assms by (auto split: option.splits)
    then show ?thesis using quoted_length argument_length by fastforce
  next
    case escape
    then obtain a0 where "argument (tl cs) = Some (a0, r)" using assms by auto
    then show ?thesis using argument_length by fastforce
  next
    case other
    then obtain a0 where "argument cs = Some (a0, r)" using assms by (auto split: if_splits)
    then show ?thesis by (rule argument_length)
  qed
qed

text \<open>The outer loop; \<open>None\<close> is the early return on an unterminated quote.\<close>

function arguments :: "string \<Rightarrow> string list option" where
  "arguments s =
     (case dropWhile is_blank4 s of
        [] \<Rightarrow> Some []
      | c # cs \<Rightarrow>
          (case argument (c # cs) of
             None \<Rightarrow> None
           | Some (a, r) \<Rightarrow> map_option ((#) a) (arguments r)))"
  by pat_completeness auto
termination
proof (relation "measure length")
  fix s :: string and c cs p a r
  assume s: "dropWhile is_blank4 s = c # cs" and a: "argument (c # cs) = Some p" "(a, r) = p"
  have "\<not> is_blank4 c" using s by (metis dropWhile_eq_Cons_conv)
  then have "length r \<le> length cs" using a argument_progress by metis
  moreover have "length (c # cs) \<le> length s" using s by (metis length_dropWhile_le)
  ultimately show "(r, s) \<in> measure length" by simp
qed simp

declare arguments.simps [simp del]

definition parseCommandLine :: "string \<Rightarrow> string list" where
  "parseCommandLine cmd = (case arguments cmd of None \<Rightarrow> [] | Some args \<Rightarrow> args)"

section \<open>Environment assignments and the launch\<close>

definition isEnvAssign :: "string \<Rightarrow> bool" where
  "isEnvAssign s =
     (case find_char (CHR ''='') s of
        None \<Rightarrow> False
      | Some eq \<Rightarrow> eq \<noteq> 0 \<and> list_all (\<lambda>c. is_alnum c \<or> c = CHR ''_'') (take eq s) \<and> \<not> is_digit (hd s))"

definition applyEnvAssigns :: "(string \<rightharpoonup> string) \<Rightarrow> string list \<Rightarrow> (string \<rightharpoonup> string)" where
  "applyEnvAssigns env assigns =
     foldl (\<lambda>m a. case find_char (CHR ''='') a of
                    None \<Rightarrow> m
                  | Some eq \<Rightarrow> m(take eq a \<mapsto> drop (eq + 1) a)) env assigns"

text \<open>
  What \<open>launchProcess\<close> and \<open>runCommand\<close> hand to the child: the environment assignments and the
  argument vector. \<open>None\<close> is the return of \<open>-1\<close> without a fork.
\<close>

definition launch_args :: "string \<Rightarrow> (string list \<times> string list) option" where
  "launch_args command =
     (let args = parseCommandLine command;
          envs = takeWhile isEnvAssign args; argv = dropWhile isEnvAssign args
      in if argv = [] then None else Some (envs, argv))"

text \<open>
  The wait status: \<open>WIFEXITED\<close>, \<open>WEXITSTATUS\<close>, \<open>WIFSIGNALED\<close> and \<open>WTERMSIG\<close> of Linux.
\<close>

definition wifexited :: "nat \<Rightarrow> bool" where "wifexited st \<longleftrightarrow> st mod 128 = 0"
definition wexitstatus :: "nat \<Rightarrow> nat" where "wexitstatus st = st div 256 mod 256"
definition wifsignaled :: "nat \<Rightarrow> bool" where "wifsignaled st \<longleftrightarrow> 0 < st mod 128 \<and> st mod 128 < 127"
definition wtermsig :: "nat \<Rightarrow> nat" where "wtermsig st = st mod 128"

text \<open>
  \<open>fork_result\<close> is the return of \<open>fork\<close> in the parent. \<open>launchProcess\<close> returns it, \<open>runCommand\<close> waits for the child; \<open>wait_result\<close> is the status
  \<open>waitpid\<close> stores, \<open>None\<close> when it fails.
\<close>

definition launchProcess :: "(string list \<times> string list \<Rightarrow> int) \<Rightarrow> string \<Rightarrow> int" where
  "launchProcess fork_result command =
     (case launch_args command of
        None \<Rightarrow> - 1
      | Some ea \<Rightarrow> if fork_result ea < 0 then - 1 else fork_result ea)"

definition runCommand :: "(string list \<times> string list \<Rightarrow> int) \<Rightarrow> (int \<Rightarrow> nat option) \<Rightarrow> string \<Rightarrow> int" where
  "runCommand fork_result wait_result command =
     (case launch_args command of
        None \<Rightarrow> - 1
      | Some ea \<Rightarrow>
          if fork_result ea < 0 then - 1
          else (case wait_result (fork_result ea) of
                  None \<Rightarrow> - 1
                | Some st \<Rightarrow> if wifexited st then int (wexitstatus st) else - 1))"

section \<open>Capturing a shell command's output\<close>

text \<open>
  One round of \<open>runShellCommand\<close>: the time left before the deadline, and what \<open>poll\<close> and \<open>read\<close> give: nothing (time over
  or error), data, or the end of the output. When the list of rounds is exhausted, \<open>poll\<close> waits out the time left.
\<close>

datatype poll_out = PollNone | ReadData string | ReadEnd

fun capture :: "nat \<Rightarrow> (int \<times> poll_out) list \<Rightarrow> string \<Rightarrow> bool \<times> string" where
  "capture mx [] out = (length out < mx, out)"
| "capture mx ((remaining, p) # es) out =
     (if mx \<le> length out then (False, out)
      else if remaining \<le> 0 then (True, out)
      else (case p of
              PollNone \<Rightarrow> (True, out)
            | ReadEnd \<Rightarrow> (False, out)
            | ReadData d \<Rightarrow> capture mx es (out @ take (mx - length out) d)))"

text \<open>How the child ends by itself: with a wait status, or never.\<close>

datatype child_end = NeverExits | Exits nat

text \<open>
  The result is the exit code, the output, and whether the child was killed; \<open>None\<close> when the
  final \<open>waitpid\<close>, which has no time limit, does not return. \<open>started\<close> is that \<open>pipe\<close> and \<open>fork\<close> succeed.
\<close>

definition runShellCommand ::
    "bool \<Rightarrow> nat \<Rightarrow> (int \<times> poll_out) list \<Rightarrow> child_end \<Rightarrow> (int \<times> string \<times> bool) option" where
  "runShellCommand started mx rounds child =
     (if \<not> started then Some (- 1, [], False)
      else let (timedOut, out) = capture mx rounds []
           in if timedOut then Some (- 2, out, True)
              else (case child of
                      NeverExits \<Rightarrow> None
                    | Exits st \<Rightarrow> Some (if wifexited st then int (wexitstatus st) else - 1, out, False)))"

section \<open>Streaming a shell command's output\<close>

text \<open>The digits of a chunk size, collected from the lowest one and reversed.\<close>

definition hexc :: "nat \<Rightarrow> char" where
  "hexc n = (if n < 10 then char_of (48 + n) else char_of (97 + n - 10))"

fun hex_rev :: "nat \<Rightarrow> string" where
  "hex_rev n = hexc (n mod 16) # (if n div 16 = 0 then [] else hex_rev (n div 16))"

declare hex_rev.simps [simp del]

definition hex_len :: "nat \<Rightarrow> string" where
  "hex_len n = rev (hex_rev n)"

definition chunk_frame :: "string \<Rightarrow> string" where
  "chunk_frame d = hex_len (length d) @ [CR, NL] @ d @ [CR, NL]"

text \<open>
  One round of \<open>runShellStream\<close>: the stop flag is seen set, \<open>poll\<close> fails (interrupted or not), \<open>poll\<close> times out, data is
  read and the write of its frame succeeds or not, the output ends, \<open>read\<close> fails.
\<close>

datatype stream_event =
    EvStop
  | EvPollErr bool
  | EvPollNone
  | EvData string bool
  | EvEof
  | EvReadErr bool

fun stream_loop :: "(int \<times> stream_event) list \<Rightarrow> string list \<times> bool \<times> bool" where
  "stream_loop [] = ([], True, False)"
| "stream_loop ((remaining, ev) # es) =
     (if ev = EvStop then ([], False, False)
      else if remaining \<le> 0 then ([], True, False)
      else (case ev of
              EvPollErr eintr \<Rightarrow> if eintr then stream_loop es else ([], False, False)
            | EvPollNone \<Rightarrow> ([], True, False)
            | EvData d ok \<Rightarrow>
                if ok then (let (fs, r) = stream_loop es in (chunk_frame d # fs, r)) else ([], False, False)
            | EvEof \<Rightarrow> ([], False, True)
            | EvReadErr eintr \<Rightarrow> if eintr then stream_loop es else ([], False, False)
            | EvStop \<Rightarrow> ([], False, False)))"

text \<open>
  After the loop: \<open>reaped\<close> is the wait status if the shell was collected within the
  grace time. The result is the exit code and whether the process group is killed and the shell collected.
\<close>

definition stream_exit :: "bool \<Rightarrow> bool \<Rightarrow> nat option \<Rightarrow> int \<times> bool" where
  "stream_exit timedOut eof reaped =
     (if timedOut \<or> \<not> eof then (if timedOut then - 2 else - 1, True)
      else (case reaped of
              Some st \<Rightarrow> (if wifexited st then int (wexitstatus st) else - 1, True)
            | None \<Rightarrow> (- 1, False)))"

definition runShellStream :: "bool \<Rightarrow> (int \<times> stream_event) list \<Rightarrow> nat option \<Rightarrow> string list \<times> int \<times> bool" where
  "runShellStream started rounds reaped =
     (if \<not> started then ([], - 1, False)
      else let (frames, timedOut, eof) = stream_loop rounds in (frames, stream_exit timedOut eof reaped))"

section \<open>The random token\<close>

definition hexNibble :: "8 word \<Rightarrow> char" where
  "hexNibble b = (if b < 10 then char_of (48 + unat b) else char_of (97 + unat b - 10))"

text \<open>The reads of the random device until 16 bytes are there; an empty read is a failure.\<close>

fun read_token :: "nat \<Rightarrow> 8 word list list \<Rightarrow> 8 word list option" where
  "read_token need [] = (if need = 0 then Some [] else None)"
| "read_token need (bs # reads) =
     (if need = 0 then Some []
      else if bs = [] then None
      else map_option ((@) (take need bs)) (read_token (need - length bs) reads))"

definition token_byte :: "8 word \<Rightarrow> string" where
  "token_byte b = [hexNibble (drop_bit 4 b), hexNibble (and b 15)]"

definition generateAuthToken :: "bool \<Rightarrow> 8 word list list \<Rightarrow> string" where
  "generateAuthToken opened reads =
     (if \<not> opened then []
      else (case read_token 16 reads of None \<Rightarrow> [] | Some bs \<Rightarrow> concat (map token_byte bs)))"

end
