(* ===== verification/GK_PlatformProps.thy ===== *)
theory GK_PlatformProps
  imports GK_Platform
begin

text \<open>
  What the platform layer promises: quoted arguments come back as they were, an open quote yields no
  arguments, shell metacharacters stay inside their argument, environment assignments are
  split off, a captured output is bounded, a chunked stream decodes to the data, and a token
  is 32 hexadecimal digits that determine its 16 bytes.
\<close>

section \<open>Command lines\<close>

text \<open>Quoting an argument, and a command line of quoted arguments: the specification.\<close>

definition shell_quote :: "string \<Rightarrow> string" where
  "shell_quote a = DQ # concat (map (\<lambda>c. if c = DQ \<or> c = BS then [BS, c] else [c]) a) @ [DQ]"

definition command_line :: "string list \<Rightarrow> string" where
  "command_line args = concat (map (\<lambda>a. SP # shell_quote a) args)"

lemma quoted_body:
  "quoted DQ (concat (map (\<lambda>c. if c = DQ \<or> c = BS then [BS, c] else [c]) a) @ DQ # r) = Some (a, r)"
  by (induction a) auto

lemma argument_end: "r = [] \<or> is_blank4 (hd r) \<Longrightarrow> argument r = Some ([], r)"
  by (cases r) (auto simp: is_blank4_def)

lemma argument_quoted:
  assumes "r = [] \<or> is_blank4 (hd r)"
  shows "argument (shell_quote a @ r) = Some (a, r)"
proof -
  have "quoted DQ (concat (map (\<lambda>c. if c = DQ \<or> c = BS then [BS, c] else [c]) a) @ DQ # r) = Some (a, r)"
    by (rule quoted_body)
  then show ?thesis using argument_end [OF assms] by (simp add: shell_quote_def)
qed

lemma command_line_hd: "command_line args = [] \<or> is_blank4 (hd (command_line args))"
  by (cases args) (simp_all add: command_line_def is_blank4_def)

lemma arguments_command_line: "arguments (command_line args) = Some args"
proof (induction args)
  case Nil
  then show ?case by (subst arguments.simps) (simp add: command_line_def)
next
  case (Cons a args)
  have e: "dropWhile is_blank4 (command_line (a # args)) = shell_quote a @ command_line args"
    by (simp add: command_line_def shell_quote_def is_blank4_def)
  have "argument (shell_quote a @ command_line args) = Some (a, command_line args)"
    by (rule argument_quoted [OF command_line_hd])
  then have a: "argument (DQ # tl (shell_quote a @ command_line args)) = Some (a, command_line args)"
    by (simp add: shell_quote_def)
  show ?case
    by (subst arguments.simps) (use e a Cons in \<open>simp add: shell_quote_def del: argument.simps\<close>)
qed

interpretation command_lines: codec "\<lambda>_. True" command_line "\<lambda>s. Some (parseCommandLine s)"
  by unfold_locales (simp add: parseCommandLine_def arguments_command_line)

text \<open>
  C34: every list of arguments can be written on a command line, whatever characters they hold: when each
  argument is put in double quotes with its quotes and backslashes escaped, \<open>parseCommandLine\<close>
  returns exactly the arguments, empty ones included.
\<close>
theorem parseCommandLine_quoted: "parseCommandLine (command_line args) = args"
  by (simp add: parseCommandLine_def arguments_command_line)

text \<open>Characters with no meaning to the splitter, which include those of the shell.\<close>

definition plain_char :: "char \<Rightarrow> bool" where
  "plain_char c \<longleftrightarrow> \<not> is_blank4 c \<and> c \<noteq> DQ \<and> c \<noteq> SQ \<and> c \<noteq> BS"

lemma argument_plain:
  "list_all plain_char w \<Longrightarrow> r = [] \<or> is_blank4 (hd r) \<Longrightarrow> argument (w @ r) = Some (w, r)"
proof (induction w)
  case Nil
  then show ?case using argument_end by simp
next
  case (Cons c w)
  then show ?case by (simp add: plain_char_def)
qed

lemma arguments_plain:
  assumes "list_all (\<lambda>w. w \<noteq> [] \<and> list_all plain_char w) ws"
  shows "arguments (concat (map ((#) SP) ws)) = Some ws"
  using assms
proof (induction ws)
  case Nil
  then show ?case by (subst arguments.simps) simp
next
  case (Cons w ws)
  then obtain c cs where w: "w = c # cs" by (cases w) auto
  have "\<not> is_blank4 c" using Cons.prems w by (simp add: plain_char_def)
  then have e: "dropWhile is_blank4 (concat (map ((#) SP) (w # ws))) = c # cs @ concat (map ((#) SP) ws)"
    using w by (simp add: is_blank4_def)
  have "argument (w @ concat (map ((#) SP) ws)) = Some (w, concat (map ((#) SP) ws))"
    using Cons.prems by (intro argument_plain) (cases ws; simp add: is_blank4_def)+
  then have a: "argument (c # cs @ concat (map ((#) SP) ws)) = Some (w, concat (map ((#) SP) ws))"
    by (simp add: w)
  show ?case by (subst arguments.simps) (use e a Cons in \<open>simp del: argument.simps\<close>)
qed

text \<open>
  No shell is involved in a configured command: words without blanks, quotes and backslashes reach the
  program as they are, one argument each, \<open>;\<close>, \<open>|\<close>, \<open>&\<close>, \<open>$\<close> and backticks included.
\<close>
theorem parseCommandLine_literal:
  assumes "list_all (\<lambda>w. w \<noteq> [] \<and> list_all plain_char w) ws"
  shows "parseCommandLine (concat (map ((#) SP) ws)) = ws"
  by (simp add: parseCommandLine_def arguments_plain [OF assms])

theorem parseCommandLine_literal_witness:
  "parseCommandLine '' echo hi; rm -rf $HOME|sh'' = [''echo'', ''hi;'', ''rm'', ''-rf'', ''$HOME|sh'']"
  using parseCommandLine_literal [of "[''echo'', ''hi;'', ''rm'', ''-rf'', ''$HOME|sh'']"]
  by (simp add: plain_char_def is_blank4_def)

lemma quoted_open: "q \<notin> set s \<Longrightarrow> quoted q s = None"
proof (induction q s rule: quoted.induct)
  case (2 q c cs)
  show ?case
  proof (cases "q = DQ \<and> c = BS \<and> cs \<noteq> []")
    case True
    then obtain nx cs' where cs: "cs = nx # cs'" by (cases cs) auto
    show ?thesis using "2.IH"(1,2) [OF True cs] "2.prems" True cs by auto
  next
    case False
    then show ?thesis using "2.IH"(3) [OF False] "2.prems" by auto
  qed
qed simp

text \<open>
  An unterminated quote anywhere after complete quoted arguments rejects the whole line: no
  argument is returned, so nothing is launched.
\<close>
theorem parseCommandLine_unterminated:
  assumes "q = SQ \<or> q = DQ" and "q \<notin> set s"
  shows "parseCommandLine (command_line args @ SP # q # s) = [] \<and>
    launch_args (command_line args @ SP # q # s) = None"
proof -
  have q: "\<not> is_blank4 q" using assms(1) by (auto simp: is_blank4_def)
  have o: "argument (q # s) = None"
    using assms quoted_open [OF assms(2)] by auto
  have "arguments (command_line args @ SP # q # s) = None"
  proof (induction args)
    case Nil
    have e: "dropWhile is_blank4 (command_line [] @ SP # q # s) = q # s"
      using q by (simp add: command_line_def is_blank4_def)
    show ?case by (subst arguments.simps) (simp only: e list.case o option.case)
  next
    case (Cons a args)
    let ?r = "command_line args @ SP # q # s"
    have e: "dropWhile is_blank4 (command_line (a # args) @ SP # q # s) = shell_quote a @ ?r"
      by (simp add: command_line_def shell_quote_def is_blank4_def)
    have "is_blank4 (hd ?r)" using command_line_hd [of args] by (cases "command_line args") (auto simp: is_blank4_def)
    then have "argument (shell_quote a @ ?r) = Some (a, ?r)" by (intro argument_quoted) simp
    then have a: "argument (DQ # tl (shell_quote a @ ?r)) = Some (a, ?r)" by (simp add: shell_quote_def)
    have e2: "shell_quote a @ ?r = DQ # tl (shell_quote a @ ?r)" by (simp add: shell_quote_def)
    show ?case
      by (subst arguments.simps) (simp only: e, subst e2, simp only: list.case a option.case prod.case Cons option.map)
  qed
  then have "parseCommandLine (command_line args @ SP # q # s) = []" by (simp add: parseCommandLine_def)
  then show ?thesis by (simp add: launch_args_def)
qed

theorem parseCommandLine_unterminated_witness:
  "parseCommandLine (command_line [''echo''] @ SP # SQ # ''hello'') = []"
  using parseCommandLine_unterminated [of SQ "''hello''" "[''echo'']"] by simp

section \<open>The launch\<close>

text \<open>
  What a child is launched with: the leading environment assignments of the command line and the
  remaining arguments, in order and without loss; the program name exists and is no
  assignment itself, and each assignment has a non-empty name.
\<close>
theorem launch_args_split:
  assumes "launch_args cmd = Some (envs, argv)"
  shows "parseCommandLine cmd = envs @ argv \<and> argv \<noteq> [] \<and> \<not> isEnvAssign (hd argv) \<and>
    list_all (\<lambda>e. \<exists>n v. e = n @ CHR ''='' # v \<and> n \<noteq> [] \<and> \<not> is_digit (hd n)) envs"
proof -
  let ?as = "parseCommandLine cmd"
  from assms have ea: "envs = takeWhile isEnvAssign ?as" "argv = dropWhile isEnvAssign ?as" "argv \<noteq> []"
    by (auto simp: launch_args_def Let_def split: if_splits)
  have "\<exists>n v. e = n @ CHR ''='' # v \<and> n \<noteq> [] \<and> \<not> is_digit (hd n)" if e: "isEnvAssign e" for e
  proof -
    from e obtain i where i: "find_char (CHR ''='') e = Some i" "i \<noteq> 0" "\<not> is_digit (hd e)"
      by (auto simp: isEnvAssign_def split: option.splits)
    from find_char_Some [OF i(1)] have il: "i < length e" "e ! i = CHR ''=''" by blast+
    then have "e = take i e @ CHR ''='' # drop (Suc i) e" using id_take_nth_drop [OF il(1)] by simp
    moreover have "take i e \<noteq> []" using il(1) i(2) by auto
    moreover have "\<not> is_digit (hd (take i e))" using i(2,3) by simp
    ultimately show ?thesis by blast
  qed
  then have "list_all (\<lambda>e. \<exists>n v. e = n @ CHR ''='' # v \<and> n \<noteq> [] \<and> \<not> is_digit (hd n)) envs"
    unfolding ea list_all_iff using set_takeWhileD by fast
  moreover have "\<not> isEnvAssign (hd argv)" unfolding ea(2) using ea(3) by (metis ea(2) hd_dropWhile)
  ultimately show ?thesis using ea by simp
qed

lemma launch_args_example:
  "launch_args ''A=1 _b=x/y node a=b'' = Some ([''A=1'', ''_b=x/y''], [''node'', ''a=b''])"
  by code_simp

theorem launch_args_split_witness: "parseCommandLine ''A=1 _b=x/y node a=b'' = [''A=1'', ''_b=x/y'', ''node'', ''a=b'']"
  using launch_args_split [OF launch_args_example] by simp

section \<open>Captured output\<close>

fun data_of :: "(int \<times> poll_out) list \<Rightarrow> string" where
  "data_of [] = []"
| "data_of ((_, ReadData d) # es) = d @ data_of es"
| "data_of (_ # es) = []"

lemma capture_prefix: "\<exists>w. snd (capture mx es out) = out @ w \<and> (\<exists>u. data_of es = w @ u)"
proof (induction mx es out rule: capture.induct)
  case (2 mx remaining p es out)
  show ?case
  proof (cases p)
    case (ReadData d)
    show ?thesis
    proof (cases "mx \<le> length out \<or> remaining \<le> 0")
      case False
      then have e: "capture mx ((remaining, p) # es) out = capture mx es (out @ take (mx - length out) d)"
        using ReadData by simp
      obtain w u where w: "snd (capture mx es (out @ take (mx - length out) d)) = (out @ take (mx - length out) d) @ w"
          "data_of es = w @ u" using "2.IH" False ReadData by (metis not_le)
      show ?thesis
      proof (cases "length d \<le> mx - length out")
        case True
        then show ?thesis using w e ReadData by auto
      next
        case full: False
        then have "snd (capture mx es (out @ take (mx - length out) d)) = out @ take (mx - length out) d"
          using False by (cases es) auto
        then show ?thesis using e ReadData by (metis append_assoc append_take_drop_id data_of.simps(2))
      qed
    qed auto
  qed auto
qed auto

lemma capture_bound: "length out \<le> mx \<Longrightarrow> length (snd (capture mx es out)) \<le> mx"
  by (induction mx es out rule: capture.induct) (auto split: poll_out.splits)

text \<open>
  A captured output is a prefix of what the command wrote and never longer than the limit; exit
  code \<open>-2\<close> on a started command with normal wait statuses means exactly that it was killed for its time.
\<close>
theorem runShellCommand_output:
  assumes "runShellCommand started mx rounds child = Some (ec, out, killed)"
  shows "length out \<le> mx \<and> (\<exists>u. data_of rounds = out @ u) \<and> (killed \<longleftrightarrow> ec = - 2)"
proof (cases started)
  case True
  obtain timedOut o1 where c: "capture mx rounds [] = (timedOut, o1)" by (cases "capture mx rounds []") auto
  then have o1: "length o1 \<le> mx" "\<exists>u. data_of rounds = o1 @ u"
    using capture_bound [of "[]" mx rounds] capture_prefix [of mx rounds "[]"] by auto
  have "out = o1 \<and> (killed \<longleftrightarrow> ec = - 2)"
    using assms True c by (auto simp: runShellCommand_def split: if_splits child_end.splits)
  then show ?thesis using o1 by simp
qed (use assms in \<open>auto simp: runShellCommand_def\<close>)

theorem runShellCommand_output_witness:
  "runShellCommand True 3 [(100, ReadData ''abcd''), (90, ReadEnd)] (Exits 256) = Some (1, ''abc'', False) \<and>
   length ''abc'' \<le> (3::nat)"
proof -
  have e: "runShellCommand True 3 [(100, ReadData ''abcd''), (90, ReadEnd)] (Exits 256) = Some (1, ''abc'', False)"
    by code_simp
  show ?thesis using runShellCommand_output [OF e] e by blast
qed

text \<open>
  The time limit of a synchronous command does not cover its end: a command that closes its output
  or fills the buffer before the deadline and then never exits makes \<open>runShellCommand\<close>,
  and with it the control server's only thread, wait for ever.
\<close>
theorem runShellCommand_hangs:
  "runShellCommand True mx rounds child = None \<longleftrightarrow> \<not> fst (capture mx rounds []) \<and> child = NeverExits"
  by (auto simp: runShellCommand_def split: prod.splits child_end.splits)

section \<open>Chunked streams\<close>

text \<open>The reference decoder of the chunked transfer encoding: lower-case sizes, no extensions.\<close>

definition hex_digit :: "char \<Rightarrow> nat option" where
  "hex_digit c = (if is_digit c then Some (code c - 48)
     else if 97 \<le> code c \<and> code c \<le> 102 then Some (code c - 87) else None)"

definition hex_value :: "string \<Rightarrow> nat" where
  "hex_value ds = foldl (\<lambda>a c. 16 * a + the (hex_digit c)) 0 ds"

fun dechunk :: "nat \<Rightarrow> string \<Rightarrow> string option" where
  "dechunk 0 s = None"
| "dechunk (Suc n) s =
     (let ds = takeWhile (\<lambda>c. hex_digit c \<noteq> None) s; r = dropWhile (\<lambda>c. hex_digit c \<noteq> None) s; k = hex_value ds
      in if ds = [] \<or> take 2 r \<noteq> [CR, NL] then None
         else if k = 0 then Some []
         else if length (drop 2 r) < k + 2 \<or> take 2 (drop k (drop 2 r)) \<noteq> [CR, NL] then None
         else map_option ((@) (take k (drop 2 r))) (dechunk n (drop (k + 2) (drop 2 r))))"

lemma hex_digit_hexc [simp]: "n < 16 \<Longrightarrow> hex_digit (hexc n) = Some n"
  by (auto simp: hex_digit_def hexc_def is_digit_def)

lemma hex_rev_digits: "c \<in> set (hex_rev n) \<Longrightarrow> hex_digit c \<noteq> None"
proof (induction n rule: hex_rev.induct)
  case (1 n)
  then show ?case by (subst (asm) (2) hex_rev.simps) (auto split: if_splits)
qed

lemma hex_value_rev: "hex_value (rev (hex_rev n)) = n"
proof (induction n rule: hex_rev.induct)
  case (1 n)
  show ?case
  proof (cases "n div 16 = 0")
    case True
    then have "n < 16" by (simp add: div_eq_0_iff)
    then show ?thesis by (subst hex_rev.simps) (simp add: hex_value_def)
  next
    case False
    then show ?thesis using 1 by (subst hex_rev.simps) (simp add: hex_value_def)
  qed
qed

lemma hex_len_nonempty [simp]: "hex_len n \<noteq> []"
  by (subst hex_len_def, subst hex_rev.simps) simp

lemma hex_len_scan:
  "takeWhile (\<lambda>c. hex_digit c \<noteq> None) (hex_len n @ CR # r) = hex_len n"
  "dropWhile (\<lambda>c. hex_digit c \<noteq> None) (hex_len n @ CR # r) = CR # r"
proof -
  have "hex_digit CR = None" by (simp add: hex_digit_def is_digit_def)
  moreover have "\<forall>c \<in> set (hex_len n). hex_digit c \<noteq> None" by (simp add: hex_len_def hex_rev_digits)
  ultimately show "takeWhile (\<lambda>c. hex_digit c \<noteq> None) (hex_len n @ CR # r) = hex_len n"
    "dropWhile (\<lambda>c. hex_digit c \<noteq> None) (hex_len n @ CR # r) = CR # r"
    by (simp_all add: takeWhile_append2 dropWhile_append2)
qed

lemma dechunk_frame: "d \<noteq> [] \<Longrightarrow> dechunk (Suc n) (chunk_frame d @ r) = map_option ((@) d) (dechunk n r)"
  using hex_len_scan [of "length d" "NL # d @ CR # NL # r"] hex_value_rev [of "length d"]
  by (simp add: chunk_frame_def hex_len_def [symmetric] Let_def)

lemma dechunk_frames:
  "list_all (\<lambda>d. d \<noteq> []) ds \<Longrightarrow>
     dechunk (length ds + n) (concat (map chunk_frame ds) @ r) = map_option ((@) (concat ds)) (dechunk n r)"
proof (induction ds)
  case Nil
  then show ?case by (simp add: option.map_ident)
next
  case (Cons d ds)
  have "dechunk (Suc (length ds + n)) (chunk_frame d @ concat (map chunk_frame ds) @ r)
      = map_option ((@) d) (dechunk (length ds + n) (concat (map chunk_frame ds) @ r))"
    using Cons.prems by (intro dechunk_frame) simp
  then show ?case using Cons by (simp add: option.map_comp comp_def del: dechunk.simps)
qed



lemma stream_loop_frames:
  "\<exists>ds. fst (stream_loop es) = map chunk_frame ds \<and> set ds \<subseteq> {d. \<exists>t. (t, EvData d True) \<in> set es}"
proof (induction es rule: stream_loop.induct)
  case (2 remaining ev es)
  show ?case
  proof (cases "ev = EvStop \<or> remaining \<le> 0")
    case True
    then show ?thesis by (intro exI [of _ "[]"]) auto
  next
    case False
    show ?thesis
    proof (cases ev)
      case (EvData d ok)
      show ?thesis
      proof (cases ok)
        case True
        have "\<exists>ds. fst (stream_loop es) = map chunk_frame ds \<and> set ds \<subseteq> {d. \<exists>t. (t, EvData d True) \<in> set es}"
          using "2.IH"(2) [OF _ _ EvData True] False by blast
        then obtain ds where "fst (stream_loop es) = map chunk_frame ds"
          "set ds \<subseteq> {d. \<exists>t. (t, EvData d True) \<in> set es}" by blast
        then show ?thesis using EvData True False
          by (intro exI [of _ "d # ds"]) (auto split: prod.splits)
      next
        case f: False
        then show ?thesis using EvData False by (intro exI [of _ "[]"]) auto
      qed
    next
      case (EvPollErr b)
      then show ?thesis using 2 False
        by (cases b) (fastforce, intro exI [of _ "[]"], simp)
    next
      case (EvReadErr b)
      then show ?thesis using 2 False
        by (cases b) (fastforce, intro exI [of _ "[]"], simp)
    qed (use False in \<open>auto intro: exI [of _ "[]"]\<close>)
  qed
qed auto

section \<open>The token\<close>

text \<open>Reading the token's digits back: the specification of its encoding.\<close>

definition nibble_val :: "char \<Rightarrow> 8 word" where
  "nibble_val c = (if is_digit c then of_nat (code c - 48) else of_nat (code c - 87))"

fun token_bytes :: "string \<Rightarrow> 8 word list" where
  "token_bytes (h # l # s) = (push_bit 4 (nibble_val h) + nibble_val l) # token_bytes s"
| "token_bytes _ = []"

definition is_lower_hex :: "char \<Rightarrow> bool" where
  "is_lower_hex c \<longleftrightarrow> hex_digit c \<noteq> None"

lemma byte_cases: "unat (b :: 8 word) < 256"
  using unsigned_less [of b] by simp

lemma hexNibble_hex: "b < 16 \<Longrightarrow> is_lower_hex (hexNibble b) \<and> nibble_val (hexNibble b) = b"
proof -
  assume "b < 16"
  then have u: "unat b < 16" by (simp add: word_less_nat_alt)
  have "b < 10 \<longleftrightarrow> unat b < 10" by (simp add: word_less_nat_alt)
  then show ?thesis using u
    by (auto simp: hexNibble_def is_lower_hex_def hex_digit_def nibble_val_def is_digit_def)
qed

lemma and_15: "and b 15 = take_bit 4 (b :: 8 word)"
proof -
  have "mask 4 = (15 :: 8 word)" by (simp add: mask_eq_exp_minus_1)
  then show ?thesis by (simp only: take_bit_eq_mask)
qed

lemma token_byte_nibbles: "drop_bit 4 b < (16 :: 8 word)" "and b 15 < (16 :: 8 word)"
proof -
  have "unat (drop_bit 4 b) = unat b div 16" by (simp add: drop_bit_eq_div unat_div)
  then show "drop_bit 4 b < (16 :: 8 word)" using byte_cases [of b] by (simp add: word_less_nat_alt)
  have "unat (take_bit 4 b) = unat b mod 16" by (simp add: take_bit_eq_mod unat_mod)
  then show "and b 15 < (16 :: 8 word)" unfolding and_15 by (simp add: word_less_nat_alt)
qed

lemma token_byte_val:
  "push_bit 4 (nibble_val (hexNibble (drop_bit 4 b))) + nibble_val (hexNibble (and b 15)) = b"
proof -
  have "push_bit 4 (drop_bit 4 b) + and b 15 = b" unfolding and_15 by (rule bits_ident)
  then show ?thesis
    by (simp only: conjunct2 [OF hexNibble_hex [OF token_byte_nibbles(1)]]
        conjunct2 [OF hexNibble_hex [OF token_byte_nibbles(2)]])
qed

lemma token_bytes_concat: "token_bytes (concat (map token_byte bs)) = bs"
  by (induction bs) (simp_all add: token_byte_def token_byte_val)

lemma read_token_length: "read_token n reads = Some bs \<Longrightarrow> length bs = n"
proof (induction n reads arbitrary: bs rule: read_token.induct)
  case (2 need b reads)
  show ?case
  proof (cases "need = 0 \<or> b = []")
    case True
    then show ?thesis using "2.prems" by (auto split: if_splits)
  next
    case False
    then obtain r where r: "read_token (need - length b) reads = Some r" "bs = take need b @ r"
      using "2.prems" by auto
    have "length r = need - length b" using "2.IH" [OF _ _ r(1)] False by simp
    then show ?thesis using r(2) by simp
  qed
qed (auto split: if_splits)

text \<open>
  The generated token is empty when the random device fails, and otherwise 32 lower-case
  hexadecimal digits from which all 128 bits read can be recovered, so that no two reads share a token.
\<close>
theorem generateAuthToken_encodes:
  "generateAuthToken opened reads = [] \<or>
   (\<exists>bs. read_token 16 reads = Some bs \<and> length bs = 16 \<and> length (generateAuthToken opened reads) = 32 \<and>
     (\<forall>c. c \<in> set (generateAuthToken opened reads) \<longrightarrow> is_lower_hex c) \<and>
     token_bytes (generateAuthToken opened reads) = bs)"
proof (cases "opened \<and> read_token 16 reads \<noteq> None")
  case True
  then obtain bs where bs: "read_token 16 reads = Some bs" by auto
  then have e: "generateAuthToken opened reads = concat (map token_byte bs)" using True by (simp add: generateAuthToken_def)
  have "length (concat (map token_byte bs)) = 2 * length bs" by (induction bs) (auto simp: token_byte_def)
  moreover have "is_lower_hex c" if "c \<in> set (concat (map token_byte bs))" for c
    using that hexNibble_hex token_byte_nibbles by (auto simp: token_byte_def)
  ultimately show ?thesis using bs e read_token_length [OF bs] token_bytes_concat [of bs] by auto
qed (auto simp: generateAuthToken_def)

theorem generateAuthToken_encodes_witness:
  "\<exists>bs. token_bytes (generateAuthToken True [replicate 10 171, replicate 6 3]) = bs \<and>
     length (generateAuthToken True [replicate 10 171, replicate 6 3]) \<in> {0, 32}"
  using generateAuthToken_encodes [of True "[replicate 10 171, replicate 6 3]"] by auto

end
