(* ===== verification/GK_Address.thy ===== *)
theory GK_Address
  imports GK_Text
begin

text \<open>
  Addresses: the listen and target addresses of \<open>relay.cpp\<close> (\<open>parseSockaddr\<close>, \<open>monitorPort\<close>,
  \<open>controlListenPort\<close>, \<open>jsStrEscape\<close>) and the control server's own \<open>parseSockaddr\<close>. \<open>inet_pton\<close> is a parameter: \<open>None\<close> when the
  text is no address. A socket address holds its host and its port in host order.
\<close>

datatype 'a host = Any | Loopback | Host 'a
datatype ('a, 'b) sockaddr = Inet "'a host" int | Inet6 "'b host" int

fun sa_port :: "('a, 'b) sockaddr \<Rightarrow> int" where
  "sa_port (Inet _ p) = p"
| "sa_port (Inet6 _ p) = p"

section \<open>The relay's addresses\<close>

text \<open>The host and the port text, and whether the address starts with a bracket.\<close>

definition split_addr :: "string \<Rightarrow> (string \<times> string) option" where
  "split_addr addr =
     (case addr of
        [] \<Rightarrow> None
      | c # cs \<Rightarrow>
          if c = CHR ''['' then
            (case find_char (CHR '']'') cs of
               None \<Rightarrow> None
             | Some i \<Rightarrow>
                 (case drop (i + 1) cs of
                    [] \<Rightarrow> None
                  | d # p \<Rightarrow> if d = CHR '':'' then Some (take i cs, p) else None))
          else (case rfind_char (CHR '':'') addr of
                  None \<Rightarrow> None
                | Some i \<Rightarrow> Some (take i addr, drop (i + 1) addr)))"

definition parse_port_text :: "string \<Rightarrow> int option" where
  "parse_port_text s = (case stoi s of None \<Rightarrow> None | Some p \<Rightarrow> if p \<le> 0 \<or> 65535 < p then None else Some p)"

definition parseSockaddr :: "(string \<Rightarrow> 'a option) \<Rightarrow> (string \<Rightarrow> 'b option) \<Rightarrow> string \<Rightarrow> ('a, 'b) sockaddr option" where
  "parseSockaddr pton4 pton6 addr =
     (case split_addr addr of
        None \<Rightarrow> None
      | Some (hst, portStr) \<Rightarrow>
          (case parse_port_text portStr of
             None \<Rightarrow> None
           | Some port \<Rightarrow>
               if CHR '':'' \<in> set hst \<or> hd addr = CHR ''['' then
                 (if hst = [] \<or> hst = ''::'' \<or> hst = ''*'' then Some (Inet6 Any port)
                  else if hst = ''localhost'' \<or> hst = ''::1'' then Some (Inet6 Loopback port)
                  else map_option (\<lambda>a. Inet6 (Host a) port) (pton6 hst))
               else
                 (if hst = [] \<or> hst = ''0.0.0.0'' then Some (Inet Any port)
                  else if hst = ''localhost'' \<or> hst = ''127.0.0.1'' then Some (Inet Loopback port)
                  else map_option (\<lambda>a. Inet (Host a) port) (pton4 hst))))"

text \<open>\<open>monitorPort\<close>: the port the monitor samples, \<open>-1\<close> for none.\<close>

definition monitorPort :: "string \<Rightarrow> int" where
  "monitorPort addr =
     (case find_char (CHR '':'') addr of
        None \<Rightarrow> - 1
      | Some i \<Rightarrow> (case parse_port_text (drop (i + 1) addr) of None \<Rightarrow> - 1 | Some p \<Rightarrow> p))"

definition controlListenPort :: "string \<Rightarrow> string" where
  "controlListenPort listen =
     (case rfind_char (CHR '':'') listen of
        None \<Rightarrow> []
      | Some p \<Rightarrow> (let r = drop (p + 1) listen in if r = [] \<or> \<not> list_all is_digit r then [] else r))"

definition js_char :: "char \<Rightarrow> string" where
  "js_char c =
     (if c = BS then [BS, BS] else if c = SQ then [BS, SQ] else if c = DQ then [BS, DQ]
      else if c = NL then [BS, CHR ''n''] else if c = CR then [BS, CHR ''r''] else if c = TAB then [BS, CHR ''t'']
      else [c])"

definition jsStrEscape :: "string \<Rightarrow> string" where
  "jsStrEscape s = concat (map js_char s)"

section \<open>The control server's address\<close>

text \<open>The result of \<open>inet_pton\<close> is ignored: the address of a host it rejects stays zero.\<close>

definition control_parseSockaddr :: "(string \<Rightarrow> 'a option) \<Rightarrow> string \<Rightarrow> ('a, 'b) sockaddr option" where
  "control_parseSockaddr pton4 addr =
     (case find_char (CHR '':'') addr of
        None \<Rightarrow> None
      | Some i \<Rightarrow>
          (let hst = take i addr
           in case parse_port_text (drop (i + 1) addr) of
                None \<Rightarrow> None
              | Some port \<Rightarrow>
                  Some (Inet (if hst = [] \<or> hst = ''0.0.0.0'' then Any
                              else if hst = ''localhost'' \<or> hst = ''127.0.0.1'' then Loopback
                              else (case pton4 hst of None \<Rightarrow> Any | Some a \<Rightarrow> Host a)) port)))"

section \<open>Lemmas\<close>

lemma parse_port_text_range: "parse_port_text s = Some p \<Longrightarrow> 1 \<le> p \<and> p \<le> 65535"
  by (auto simp: parse_port_text_def split: option.splits if_splits)

lemma parse_port_text_to_string:
  "1 \<le> p \<Longrightarrow> p \<le> 65535 \<Longrightarrow> rest = [] \<or> \<not> is_digit (hd rest) \<Longrightarrow> parse_port_text (to_string p @ rest) = Some p"
  by (simp add: parse_port_text_def stoi_to_string INT_MIN_def INT_MAX_def)

lemma parse_port_text_plain: "1 \<le> p \<Longrightarrow> p \<le> 65535 \<Longrightarrow> parse_port_text (to_string p) = Some p"
  using parse_port_text_to_string [of p "[]"] by simp

lemma colon_not_in_to_string: "CHR '':'' \<notin> set (to_string p)"
  by (rule to_string_not_char) (simp_all add: is_digit_def)

lemma split_addr_plain:
  "hst = [] \<or> hd hst \<noteq> CHR ''['' \<Longrightarrow> split_addr (hst @ CHR '':'' # to_string p) = Some (hst, to_string p)"
  using rfind_char_last [OF colon_not_in_to_string, of hst p]
  by (cases hst) (simp_all add: split_addr_def)

lemma split_addr_bracket:
  "CHR '']'' \<notin> set hst \<Longrightarrow> split_addr (CHR ''['' # hst @ CHR '']'' # CHR '':'' # to_string p) = Some (hst, to_string p)"
  using find_char_first [of "CHR '']''" hst "CHR '':'' # to_string p"] by (simp add: split_addr_def)

section \<open>Properties\<close>

text \<open>
  A parsed address always has a usable port, 1 to 65535.
\<close>
theorem parseSockaddr_port:
  assumes "parseSockaddr pton4 pton6 addr = Some sa"
  shows "1 \<le> sa_port sa \<and> sa_port sa \<le> 65535"
  using assms by (auto simp: parseSockaddr_def dest!: parse_port_text_range split: option.splits prod.splits if_splits)

text \<open>
  The addresses the configuration documents are read as written: \<open>host:port\<close> gives the
  IPv4 address and the port, \<open>[host]:port\<close> the IPv6 address and the port, with the
  wildcard and loopback spellings, for every port from 1 to 65535.
\<close>
theorem parseSockaddr_forms:
  assumes p: "1 \<le> p" "p \<le> 65535"
    and h: "CHR '':'' \<notin> set h" "h \<notin> {[], ''0.0.0.0'', ''localhost'', ''127.0.0.1''}" "hd h \<noteq> CHR ''[''"
  shows "parseSockaddr pton4 pton6 (CHR '':'' # to_string p) = Some (Inet Any p) \<and>
    parseSockaddr pton4 pton6 (''127.0.0.1:'' @ to_string p) = Some (Inet Loopback p) \<and>
    parseSockaddr pton4 pton6 (''[::]:'' @ to_string p) = Some (Inet6 Any p) \<and>
    parseSockaddr pton4 pton6 (''[::1]:'' @ to_string p) = Some (Inet6 Loopback p) \<and>
    parseSockaddr pton4 pton6 (h @ CHR '':'' # to_string p) = map_option (\<lambda>a. Inet (Host a) p) (pton4 h)"
proof (intro conjI)
  note port = parse_port_text_plain [OF p]
  show "parseSockaddr pton4 pton6 (CHR '':'' # to_string p) = Some (Inet Any p)"
    using split_addr_plain [of "[]" p] port by (simp add: parseSockaddr_def)
  show "parseSockaddr pton4 pton6 (''127.0.0.1:'' @ to_string p) = Some (Inet Loopback p)"
    using split_addr_plain [of "''127.0.0.1''" p] port by (simp add: parseSockaddr_def)
  show "parseSockaddr pton4 pton6 (''[::]:'' @ to_string p) = Some (Inet6 Any p)"
    using split_addr_bracket [of "''::''" p] port by (simp add: parseSockaddr_def)
  show "parseSockaddr pton4 pton6 (''[::1]:'' @ to_string p) = Some (Inet6 Loopback p)"
    using split_addr_bracket [of "''::1''" p] port by (simp add: parseSockaddr_def)
  have s: "split_addr (h @ CHR '':'' # to_string p) = Some (h, to_string p)"
    by (rule split_addr_plain) (simp add: h(3))
  have "hd (h @ CHR '':'' # to_string p) \<noteq> CHR ''[''" using h(2,3) by (cases h) auto
  then show "parseSockaddr pton4 pton6 (h @ CHR '':'' # to_string p) = map_option (\<lambda>a. Inet (Host a) p) (pton4 h)"
    unfolding parseSockaddr_def s using port h(1,2) by simp
qed

theorem parseSockaddr_forms_witness:
  "parseSockaddr (\<lambda>_. Some (7::nat)) (\<lambda>_. None :: nat option) (''10.0.0.7'' @ CHR '':'' # to_string 8080) = Some (Inet (Host 7) 8080)"
proof -
  have h: "CHR '':'' \<notin> set ''10.0.0.7''" "''10.0.0.7'' \<notin> {[], ''0.0.0.0'', ''localhost'', ''127.0.0.1''}"
      "hd ''10.0.0.7'' \<noteq> CHR ''[''" by simp_all
  have "parseSockaddr (\<lambda>_. Some (7::nat)) (\<lambda>_. None :: nat option) (''10.0.0.7'' @ CHR '':'' # to_string 8080)
      = map_option (\<lambda>a. Inet (Host a) 8080) (Some 7)"
    using parseSockaddr_forms [OF _ _ h, of 8080 "\<lambda>_. Some (7::nat)" "\<lambda>_. None :: nat option"] by fastforce
  then show ?thesis by (simp only: option.map)
qed

lemma parseSockaddr_any: "1 \<le> p \<Longrightarrow> p \<le> 65535 \<Longrightarrow> parseSockaddr pton4 pton6 (CHR '':'' # to_string p) = Some (Inet Any p)"
  using split_addr_plain [of "[]" p] parse_port_text_plain by (simp add: parseSockaddr_def)

theorem parseSockaddr_port_witness:
  "sa_port (the (parseSockaddr (\<lambda>_. None :: nat option) (\<lambda>_. None :: nat option) (CHR '':'' # to_string 65535))) \<le> 65535"
proof -
  have e: "parseSockaddr (\<lambda>_. None :: nat option) (\<lambda>_. None :: nat option) (CHR '':'' # to_string 65535) = Some (Inet Any 65535)"
    by (rule parseSockaddr_any) simp_all
  show ?thesis using parseSockaddr_port [OF e] unfolding e option.sel by (rule conjunct2)
qed

text \<open>
  The monitor samples the port the relay listens on for every IPv4 address, whatever its host.
\<close>
theorem monitorPort_ipv4:
  assumes "parseSockaddr pton4 pton6 addr = Some (Inet h p)"
  shows "monitorPort addr = p"
proof -
  from assms obtain hst portStr where s: "split_addr addr = Some (hst, portStr)"
      and p: "parse_port_text portStr = Some p" and nc: "CHR '':'' \<notin> set hst" "hd addr \<noteq> CHR ''[''"
    by (auto simp: parseSockaddr_def split: option.splits prod.splits if_splits)
  from s nc(2) obtain i where i: "rfind_char (CHR '':'') addr = Some i" "hst = take i addr" "portStr = drop (i + 1) addr"
    by (auto simp: split_addr_def split: list.splits option.splits if_splits)
  have "CHR '':'' \<in> set addr" using i(1) rfind_char_None [of "CHR '':''" addr] by auto
  then obtain j where j: "find_char (CHR '':'') addr = Some j" by (metis find_char_None option.exhaust)
  have "j = i"
  proof -
    from find_char_Some [OF j] have jl: "j < length addr" "addr ! j = CHR '':''" by blast+
    have "addr = take j addr @ CHR '':'' # drop (Suc j) addr" using jl id_take_nth_drop by metis
    have "\<not> j < i" using nc(1) i(2) jl by (metis in_set_conv_nth length_take min_less_iff_conj nth_take)
    moreover have "\<not> i < j"
    proof
      assume "i < j"
      have r: "rfind_char c s = Some k \<Longrightarrow> k < length s \<and> s ! k = c" for c s k
        by (induction s arbitrary: k) (auto split: option.splits if_splits)
      from r [OF i(1)] find_char_Some [OF j] \<open>i < j\<close> show False
        by (metis in_set_conv_nth length_take min_less_iff_conj nth_take)
    qed
    ultimately show ?thesis by simp
  qed
  then show ?thesis using j i(3) p by (simp add: monitorPort_def)
qed

theorem monitorPort_ipv4_witness: "monitorPort (CHR '':'' # to_string 8080) = 8080"
proof -
  have e: "parseSockaddr (\<lambda>_. None :: nat option) (\<lambda>_. None :: nat option) (CHR '':'' # to_string 8080) = Some (Inet Any 8080)"
    by (rule parseSockaddr_any) simp_all
  show ?thesis by (rule monitorPort_ipv4 [OF e])
qed

text \<open>
  For a bracketed IPv6 address the monitor reads the wrong text: after the first colon of the host. A host
  that goes on with a colon there, as \<open>[::]\<close> and \<open>[::1]\<close> do, has no monitored port at
  all, and one that goes on with decimal digits is monitored on that number instead of its port.
\<close>
theorem monitorPort_ipv6:
  assumes "CHR '':'' \<notin> set h" and "1 \<le> q" and "q \<le> 65535"
  shows "monitorPort (''['' @ h @ ''::'' @ r) = - 1 \<and>
    monitorPort (''['' @ h @ CHR '':'' # to_string q @ CHR '':'' # r) = q"
proof
  have f: "find_char (CHR '':'') (''['' @ h @ CHR '':'' # t) = Some (Suc (length h))" for t
    using assms(1) find_char_first [of "CHR '':''" "CHR ''['' # h" t] by simp
  have nd: "\<not> is_digit (CHR '':'')" by (simp add: is_digit_def)
  have "stoi (CHR '':'' # r) = None"
    using nd by (simp add: stoi_def scan_long_def scan_sign_def is_space_def)
  then show "monitorPort (''['' @ h @ ''::'' @ r) = - 1"
    using f [of "CHR '':'' # r"] by (simp add: monitorPort_def parse_port_text_def)
  show "monitorPort (''['' @ h @ CHR '':'' # to_string q @ CHR '':'' # r) = q"
    using f [of "to_string q @ CHR '':'' # r"] parse_port_text_to_string [of q "CHR '':'' # r"] nd assms(2,3)
    by (simp add: monitorPort_def)
qed

theorem monitorPort_ipv6_witness:
  "monitorPort ''[::1]:8080'' = - 1 \<and> monitorPort ''[fe80:1234::1]:80'' = 1234"
proof -
  have e: "''[fe80:1234::1]:80'' = ''['' @ ''fe80'' @ CHR '':'' # to_string 1234 @ CHR '':'' # '':1]:80''"
    by code_simp
  show ?thesis unfolding e
    using monitorPort_ipv6 [of "[]" 1 "''1]:8080''"] monitorPort_ipv6 [of "''fe80''" 1234 "'':1]:80''"] by simp
qed

text \<open>
  A control address whose host is not a numeric IPv4 address does not fail: the control server
  then listens on every interface.
\<close>
theorem control_unknown_host_is_any:
  assumes "CHR '':'' \<notin> set h" and "pton4 h = None" and "1 \<le> p" and "p \<le> 65535" and "h \<notin> {''localhost'', ''127.0.0.1''}"
  shows "control_parseSockaddr pton4 (h @ CHR '':'' # to_string p) = Some (Inet Any p)"
  using assms find_char_first [OF assms(1), of "to_string p"] parse_port_text_plain [OF assms(3,4)]
  by (simp add: control_parseSockaddr_def)

theorem control_unknown_host_is_any_witness:
  "control_parseSockaddr (\<lambda>_. None :: nat option) (''127.0.0.l'' @ CHR '':'' # to_string 19999) = Some (Inet Any 19999)"
  using control_unknown_host_is_any [of "''127.0.0.l''" "\<lambda>_. None :: nat option" 19999] by simp

text \<open>Reading a JavaScript string literal back: the specification of the escaping.\<close>

fun js_read :: "string \<Rightarrow> string option" where
  "js_read [] = None"
| "js_read (c # cs) =
     (if c = SQ then Some []
      else if c = NL \<or> c = CR then None
      else if c = BS then
        (case cs of
           [] \<Rightarrow> None
         | e # cs' \<Rightarrow> map_option ((#) (if e = CHR ''n'' then NL else if e = CHR ''r'' then CR else if e = CHR ''t'' then TAB else e)) (js_read cs'))
      else map_option ((#) c) (js_read cs))"

text \<open>
  Names and addresses go into the wait page's script as single-quoted literals that cannot be left: the literal
  reads back as the text, whatever it holds, and ends at its own quote.
\<close>
theorem jsStrEscape_reads: "js_read (jsStrEscape s @ SQ # rest) = Some s"
  by (induction s) (auto simp: jsStrEscape_def js_char_def)

text \<open>
  The control port shown to the wait page is either empty or a non-empty run of digits.
\<close>
theorem controlListenPort_digits:
  "list_all is_digit (controlListenPort listen) \<and>
   (\<forall>h p. controlListenPort (h @ CHR '':'' # to_string (int p)) = to_string (int p))"
proof
  show "list_all is_digit (controlListenPort listen)"
    by (simp add: controlListenPort_def Let_def split: option.splits)
  have "controlListenPort (h @ CHR '':'' # to_string (int p)) = to_string (int p)" for h p
    using rfind_char_last [OF colon_not_in_to_string, of h "int p"]
    by (simp add: controlListenPort_def Let_def to_string_def list_all_iff)
  then show "\<forall>h p. controlListenPort (h @ CHR '':'' # to_string (int p)) = to_string (int p)" by blast
qed

end
