(* ===== verification/GK_TcpMonitor.thy ===== *)
theory GK_TcpMonitor
  imports GK_Text "HOL-Library.Word"
begin

text \<open>
  The connection monitor, \<open>tcp_monitor.h\<close> and \<open>tcp_monitor.cpp\<close> on Linux: the test whether an address belongs to
  this host, the reading of the kernel's netlink dump, and the query of a port. An address is the list of its
  bytes in network order, 16 in a netlink message; the kernel's answers (the interfaces, the
  received buffers) are arguments. The CPU time of the snapshot is left out.
\<close>

type_synonym bytes = "8 word list"

section \<open>The interfaces\<close>

datatype ifaddr = IfNone | IfInet bytes | IfInet6 bytes | IfOther

record local_addrs =
  la_v4 :: bytes
  la_v6 :: bytes
  la_ok :: bool

definition zeros :: "nat \<Rightarrow> bytes" where
  "zeros n = replicate n 0"

text \<open>The classification macros of \<open>in6_addr\<close>: unspecified, v4-mapped, v4-compatible.\<close>

definition v6_unspecified :: "bytes \<Rightarrow> bool" where
  "v6_unspecified a \<longleftrightarrow> a = zeros 16"

definition v6_v4mapped :: "bytes \<Rightarrow> bool" where
  "v6_v4mapped a \<longleftrightarrow> take 10 a = zeros 10 \<and> take 2 (drop 10 a) = [255, 255]"

definition v6_v4compat :: "bytes \<Rightarrow> bool" where
  "v6_v4compat a \<longleftrightarrow> take 12 a = zeros 12 \<and> drop 12 a \<noteq> zeros 4 \<and> drop 12 a \<noteq> [0, 0, 0, 1]"

fun snapshot_loop :: "ifaddr list \<Rightarrow> local_addrs \<Rightarrow> local_addrs" where
  "snapshot_loop [] la = la"
| "snapshot_loop (i # is) la =
     (case i of
        IfInet p \<Rightarrow> snapshot_loop is (la\<lparr>la_v4 := la_v4 la @ p\<rparr>)
      | IfInet6 p \<Rightarrow>
          if v6_v4mapped p \<or> v6_v4compat p then snapshot_loop is la
          else snapshot_loop is (la\<lparr>la_v6 := la_v6 la @ p\<rparr>)
      | _ \<Rightarrow> snapshot_loop is la)"

definition snapshotLocalAddrs :: "ifaddr list option \<Rightarrow> local_addrs" where
  "snapshotLocalAddrs ifs =
     (case ifs of
        None \<Rightarrow> \<lparr>la_v4 = [], la_v6 = [], la_ok = False\<rparr>
      | Some is \<Rightarrow> snapshot_loop is \<lparr>la_v4 = [], la_v6 = [], la_ok = True\<rparr>)"

text \<open>The comparison loops: the flat list holds the address at a multiple of its width.\<close>

function has_block :: "nat \<Rightarrow> bytes \<Rightarrow> bytes \<Rightarrow> bool" where
  "has_block w x bs =
     (if w = 0 \<or> length bs < w then False else take w bs = x \<or> has_block w x (drop w bs))"
  by pat_completeness auto
termination by (relation "measure (\<lambda>(w, x, bs). length bs)") auto

declare has_block.simps [simp del]

definition ip4_part :: "bytes \<Rightarrow> bytes option" where
  "ip4_part a =
     (if v6_v4mapped a \<or> v6_v4compat a then Some (drop 12 a)
      else if drop 4 a = zeros 12 then Some (take 4 a) else None)"

definition isLocalAddress :: "bytes \<Rightarrow> local_addrs \<Rightarrow> bool" where
  "isLocalAddress a la =
     (if v6_unspecified a then True
      else (case ip4_part a of
              Some ip4 \<Rightarrow> has_block 4 ip4 (la_v4 la)
            | None \<Rightarrow> has_block 16 a (la_v6 la)))"

section \<open>The dump\<close>

record conn_entry =
  ce_state :: nat
  ce_srcPort :: nat
  ce_dstPort :: nat
  ce_srcAddr :: bytes
  ce_dstAddr :: bytes
  ce_retrans :: nat

text \<open>A netlink message: a socket, the end of the dump, an error, or another type.\<close>

datatype nl_msg = NlSock conn_entry | NlDone | NlError | NlOther

definition monitored :: "nat \<Rightarrow> local_addrs \<Rightarrow> conn_entry \<Rightarrow> bool" where
  "monitored port la e \<longleftrightarrow>
     (ce_srcPort e = port \<and> isLocalAddress (ce_srcAddr e) la) \<or>
     (ce_dstPort e = port \<and> isLocalAddress (ce_dstAddr e) la)"

fun collect_msgs :: "nat \<Rightarrow> local_addrs \<Rightarrow> nl_msg list \<Rightarrow> conn_entry list" where
  "collect_msgs port la [] = []"
| "collect_msgs port la (m # ms) =
     (case m of
        NlSock e \<Rightarrow> if monitored port la e then e # collect_msgs port la ms else collect_msgs port la ms
      | _ \<Rightarrow> collect_msgs port la ms)"

text \<open>
  The receive loop: \<open>None\<close> in the list is a failed or empty \<open>recvmsg\<close>. Only the first message of a buffer is
  tested for the end of the dump. The result is \<open>None\<close> when the last \<open>recvmsg\<close> blocks.
\<close>

fun recv_loop :: "nat \<Rightarrow> local_addrs \<Rightarrow> nl_msg list option list \<Rightarrow> conn_entry list option" where
  "recv_loop port la [] = None"
| "recv_loop port la (None # bufs) = Some []"
| "recv_loop port la (Some ms # bufs) =
     (if ms \<noteq> [] \<and> (hd ms = NlDone \<or> hd ms = NlError) then Some []
      else map_option ((@) (collect_msgs port la ms)) (recv_loop port la bufs))"

definition queryFamily :: "bool \<Rightarrow> nat \<Rightarrow> local_addrs \<Rightarrow> nl_msg list option list \<Rightarrow> conn_entry list option" where
  "queryFamily sent port la bufs = (if sent then recv_loop port la bufs else Some [])"

text \<open>The query: whether the socket is opened and bound, the interfaces, and per family whether the request is sent and what is received.\<close>

definition queryPortConnections ::
    "bool \<Rightarrow> ifaddr list option \<Rightarrow> bool \<times> nl_msg list option list \<Rightarrow> bool \<times> nl_msg list option list \<Rightarrow> nat \<Rightarrow> bool \<Rightarrow> conn_entry list option" where
  "queryPortConnections opened ifs inet inet6 port ipv6 =
     (if \<not> opened then Some []
      else let la = snapshotLocalAddrs ifs
           in case queryFamily (fst inet) port la (snd inet) of
                None \<Rightarrow> None
              | Some es \<Rightarrow>
                  if ipv6 then map_option ((@) es) (queryFamily (fst inet6) port la (snd inet6)) else Some es)"

section \<open>State names\<close>

definition tcpStateStr :: "nat \<Rightarrow> string" where
  "tcpStateStr st =
     (if st = 1 then ''ESTABLISHED'' else if st = 2 then ''SYN_SENT'' else if st = 3 then ''SYN_RECV''
      else if st = 4 then ''FIN_WAIT1'' else if st = 5 then ''FIN_WAIT2'' else if st = 6 then ''TIME_WAIT''
      else if st = 7 then ''CLOSE'' else if st = 8 then ''CLOSE_WAIT'' else if st = 9 then ''LAST_ACK''
      else if st = 10 then ''LISTEN'' else if st = 11 then ''CLOSING'' else ''UNKNOWN'')"

definition fmtAddrPort :: "(bytes \<Rightarrow> string) \<Rightarrow> (bytes \<Rightarrow> string) \<Rightarrow> bytes \<Rightarrow> nat \<Rightarrow> string" where
  "fmtAddrPort ntop4 ntop6 a port =
     (if v6_v4mapped a \<or> v6_v4compat a then ntop4 (drop 12 a) @ '':'' @ to_string (int port)
      else ''['' @ ntop6 a @ '']:'' @ to_string (int port))"

section \<open>Which addresses are local\<close>

definition wf_ifs :: "ifaddr list \<Rightarrow> bool" where
  "wf_ifs is \<longleftrightarrow> (\<forall>p. IfInet p \<in> set is \<longrightarrow> length p = 4) \<and> (\<forall>p. IfInet6 p \<in> set is \<longrightarrow> length p = 16)"

definition flat_of :: "nat \<Rightarrow> bytes list \<Rightarrow> bytes \<Rightarrow> bool" where
  "flat_of w ps bs \<longleftrightarrow> bs = concat ps \<and> list_all (\<lambda>p. length p = w) ps"

lemma has_block_flat: "w \<noteq> 0 \<Longrightarrow> flat_of w ps bs \<Longrightarrow> has_block w x bs \<longleftrightarrow> x \<in> set ps"
proof (induction ps arbitrary: bs)
  case Nil
  then show ?case by (subst has_block.simps) (simp add: flat_of_def)
next
  case (Cons p ps)
  then have "bs = p @ concat ps" "length p = w" "flat_of w ps (concat ps)" by (simp_all add: flat_of_def)
  with Cons show ?case by (subst has_block.simps) auto
qed

fun v4_addrs :: "ifaddr list \<Rightarrow> bytes list" where
  "v4_addrs [] = []"
| "v4_addrs (IfInet p # is) = p # v4_addrs is"
| "v4_addrs (_ # is) = v4_addrs is"

fun v6_addrs :: "ifaddr list \<Rightarrow> bytes list" where
  "v6_addrs [] = []"
| "v6_addrs (IfInet6 p # is) = (if v6_v4mapped p \<or> v6_v4compat p then v6_addrs is else p # v6_addrs is)"
| "v6_addrs (_ # is) = v6_addrs is"

lemma snapshot_loop_lists:
  "la_v4 (snapshot_loop is la) = la_v4 la @ concat (v4_addrs is) \<and>
   la_v6 (snapshot_loop is la) = la_v6 la @ concat (v6_addrs is)"
proof (induction "is" arbitrary: la)
  case (Cons i "is")
  then show ?case by (cases i) auto
qed simp

lemma v4_addrs_set: "p \<in> set (v4_addrs is) \<longleftrightarrow> IfInet p \<in> set is"
  by (induction "is" rule: v4_addrs.induct) auto

lemma v6_addrs_set: "p \<in> set (v6_addrs is) \<longleftrightarrow> IfInet6 p \<in> set is \<and> \<not> v6_v4mapped p \<and> \<not> v6_v4compat p"
  by (induction "is" rule: v6_addrs.induct) auto

lemma snapshot_blocks:
  assumes "wf_ifs is"
  shows "has_block 4 x (la_v4 (snapshotLocalAddrs (Some is))) \<longleftrightarrow> IfInet x \<in> set is"
    and "has_block 16 x (la_v6 (snapshotLocalAddrs (Some is))) \<longleftrightarrow> IfInet6 x \<in> set is \<and> \<not> v6_v4mapped x \<and> \<not> v6_v4compat x"
proof -
  have "flat_of 4 (v4_addrs is) (la_v4 (snapshotLocalAddrs (Some is)))"
    using assms by (auto simp: flat_of_def snapshotLocalAddrs_def snapshot_loop_lists list_all_iff v4_addrs_set wf_ifs_def)
  then show "has_block 4 x (la_v4 (snapshotLocalAddrs (Some is))) \<longleftrightarrow> IfInet x \<in> set is"
    by (simp add: has_block_flat v4_addrs_set)
  have "flat_of 16 (v6_addrs is) (la_v6 (snapshotLocalAddrs (Some is)))"
    using assms by (auto simp: flat_of_def snapshotLocalAddrs_def snapshot_loop_lists list_all_iff v6_addrs_set wf_ifs_def)
  then show "has_block 16 x (la_v6 (snapshotLocalAddrs (Some is))) \<longleftrightarrow> IfInet6 x \<in> set is \<and> \<not> v6_v4mapped x \<and> \<not> v6_v4compat x"
    by (simp add: has_block_flat v6_addrs_set)
qed

text \<open>The two layouts in which the kernel reports an IPv4 address.\<close>

definition compact4 :: "bytes \<Rightarrow> bytes" where "compact4 ip = ip @ zeros 12"
definition mapped4 :: "bytes \<Rightarrow> bytes" where "mapped4 ip = zeros 10 @ [255, 255] @ ip"

lemma ip4_part_layouts:
  assumes "length ip = 4" and "ip \<noteq> zeros 4"
  shows "ip4_part (compact4 ip) = Some ip" and "ip4_part (mapped4 ip) = Some ip"
    and "\<not> v6_unspecified (compact4 ip)" and "\<not> v6_unspecified (mapped4 ip)"
proof -
  obtain a b c d where ip: "ip = [a, b, c, d]"
    using assms(1) by (auto simp: numeral_eq_Suc length_Suc_conv)
  show "ip4_part (compact4 ip) = Some ip" "ip4_part (mapped4 ip) = Some ip"
    "\<not> v6_unspecified (compact4 ip)" "\<not> v6_unspecified (mapped4 ip)"
    using assms(2) unfolding ip
    by (auto simp: ip4_part_def compact4_def mapped4_def v6_v4mapped_def v6_v4compat_def v6_unspecified_def
        zeros_def numeral_eq_Suc)
qed

text \<open>
  An IPv4 address, in either of the layouts the kernel reports, is local exactly when one of this
  host's interfaces has it; the wildcard address is always local.
\<close>
theorem isLocalAddress_ipv4:
  assumes "wf_ifs is" and "length ip = 4" and "ip \<noteq> zeros 4"
  shows "(isLocalAddress (compact4 ip) (snapshotLocalAddrs (Some is)) \<longleftrightarrow> IfInet ip \<in> set is) \<and>
    (isLocalAddress (mapped4 ip) (snapshotLocalAddrs (Some is)) \<longleftrightarrow> IfInet ip \<in> set is) \<and>
    isLocalAddress (zeros 16) (snapshotLocalAddrs (Some is))"
  using ip4_part_layouts [OF assms(2,3)] snapshot_blocks(1) [OF assms(1)]
  by (simp add: isLocalAddress_def v6_unspecified_def)

lemma zeros_4: "zeros 4 = [0, 0, 0, 0]"
  by (simp add: zeros_def numeral_eq_Suc)

theorem isLocalAddress_ipv4_witness:
  "isLocalAddress (mapped4 [10, 0, 0, 7]) (snapshotLocalAddrs (Some [IfOther, IfInet [10, 0, 0, 7]])) \<and>
   \<not> isLocalAddress (compact4 [10, 0, 0, 8]) (snapshotLocalAddrs (Some [IfOther, IfInet [10, 0, 0, 7]]))"
  using isLocalAddress_ipv4 [of "[IfOther, IfInet [10, 0, 0, 7]]" "[10, 0, 0, 7]"]
    isLocalAddress_ipv4 [of "[IfOther, IfInet [10, 0, 0, 7]]" "[10, 0, 0, 8]"]
  by (simp add: wf_ifs_def zeros_4)

section \<open>What a query counts\<close>

lemma collect_msgs_set: "set (collect_msgs port la ms) = {e. NlSock e \<in> set ms \<and> monitored port la e}"
proof (induction ms)
  case (Cons m ms)
  then show ?case by (cases m) auto
qed simp

lemma recv_loop_sound:
  "recv_loop port la bufs = Some es \<Longrightarrow> e \<in> set es \<Longrightarrow> monitored port la e \<and> (\<exists>ms. Some ms \<in> set bufs \<and> NlSock e \<in> set ms)"
proof (induction bufs arbitrary: es)
  case (Cons b bufs)
  show ?case
  proof (cases b)
    case None
    then show ?thesis using Cons.prems by simp
  next
    case (Some ms)
    then obtain z where z: "recv_loop port la bufs = Some z" "es = collect_msgs port la ms @ z"
      using Cons.prems by (auto split: if_splits)
    have "e \<in> set (collect_msgs port la ms) \<or> e \<in> set z" using Cons.prems(2) z(2) by auto
    then show ?thesis
    proof
      assume "e \<in> set (collect_msgs port la ms)"
      then show ?thesis using Some by (intro conjI exI [of _ ms]) (auto simp: collect_msgs_set)
    next
      assume "e \<in> set z"
      with Cons.IH [OF z(1)] show ?thesis by (metis list.set_intros(2))
    qed
  qed
qed simp

text \<open>
  A connection out of this host to the same port elsewhere is never counted: when the source port is
  another one and the destination is no address of this host, the entry is not in the snapshot, so
  it cannot keep an idle backend alive.
\<close>
theorem outbound_not_counted:
  assumes "queryPortConnections opened (Some is) inet inet6 port ipv6 = Some es"
    and "wf_ifs is" and "ce_srcPort e \<noteq> port" and "ce_dstAddr e = compact4 ip" and "length ip = 4" and "ip \<noteq> zeros 4"
    and "IfInet ip \<notin> set is"
  shows "e \<notin> set es"
proof
  assume e: "e \<in> set es"
  let ?la = "snapshotLocalAddrs (Some is)"
  have nm: "\<not> monitored port ?la e"
    using assms isLocalAddress_ipv4 [OF assms(2,5,6)] by (simp add: monitored_def)
  have f: "queryFamily sent port ?la bufs = Some fs \<Longrightarrow> e \<notin> set fs" for sent bufs fs
    using recv_loop_sound nm by (auto simp: queryFamily_def split: if_splits)
  show False using e assms(1) f
    by (auto simp: queryPortConnections_def Let_def split: if_splits option.splits)
qed

definition sample_conn :: conn_entry where
  "sample_conn = \<lparr>ce_state = 1, ce_srcPort = 40000, ce_dstPort = 20128, ce_srcAddr = compact4 [10, 0, 0, 7],
     ce_dstAddr = compact4 [192, 168, 124, 87], ce_retrans = 0\<rparr>"

theorem outbound_not_counted_witness:
  "queryPortConnections True (Some [IfInet [10, 0, 0, 7]]) (True, [Some [NlSock sample_conn], Some [NlDone]]) (False, []) 20128 True = Some []"
proof -
  let ?q = "queryPortConnections True (Some [IfInet [10, 0, 0, 7]]) (True, [Some [NlSock sample_conn], Some [NlDone]]) (False, []) 20128 True"
  obtain es where q: "?q = Some es" by (auto simp: queryPortConnections_def queryFamily_def Let_def)
  have "sample_conn \<notin> set es"
    by (rule outbound_not_counted [OF q, where ip = "[192, 168, 124, 87]"])
      (simp_all add: wf_ifs_def sample_conn_def zeros_4)
  moreover have "set es \<subseteq> {sample_conn}"
    using q by (auto simp: queryPortConnections_def queryFamily_def Let_def split: if_splits)
  ultimately have "es = []" by (cases es) auto
  with q show ?thesis by simp
qed

text \<open>
  C37: a snapshot is complete for the port: when the end of the dump is announced in a buffer of its own, every
  socket the kernel listed before it that touches the port at a local end is in the snapshot.
\<close>
theorem queryFamily_complete:
  assumes "list_all (\<lambda>ms. ms \<noteq> [] \<and> hd ms \<noteq> NlDone \<and> hd ms \<noteq> NlError) mss"
  shows "\<exists>es. queryFamily True port la (map Some mss @ [Some [NlDone]]) = Some es \<and>
    set es = {e. \<exists>ms \<in> set mss. NlSock e \<in> set ms \<and> monitored port la e}"
  unfolding queryFamily_def using assms
proof (induction mss)
  case (Cons ms mss)
  then show ?case by (auto simp: collect_msgs_set)
qed simp

theorem queryFamily_complete_witness:
  "\<exists>es. queryFamily True 20128 (snapshotLocalAddrs None) (map Some [[NlSock sample_conn]] @ [Some [NlDone]]) = Some es"
  using queryFamily_complete [of "[[NlSock sample_conn]]" 20128 "snapshotLocalAddrs None"] by auto

end
