(* ===== verification/GK_ProcFs.thy ===== *)
theory GK_ProcFs
  imports GK_Text
begin

text \<open>
  Who holds a port, \<open>relay_linux.cpp\<close>: \<open>findPidUsingPort\<close> and \<open>findProcessUsingPort\<close>. What the program reads from
  outside is an argument: the line of \<open>ss\<close> (\<open>None\<close> when it prints nothing), the lines of
  \<open>/proc/net/tcp\<close>, the entries of \<open>/proc\<close> (their name, whether they are directories, the targets of
  their descriptor links, \<open>None\<close> when they cannot be opened) and the name of a process.
\<close>

type_synonym proc_entry = "string \<times> bool \<times> string list option"

section \<open>The line of ss\<close>

definition strtol0 :: "string \<Rightarrow> int" where
  "strtol0 s = (case strtol s of None \<Rightarrow> 0 | Some (v, _) \<Rightarrow> v)"

definition ss_pid :: "string \<Rightarrow> int option" where
  "ss_pid buf =
     (let first = (case find_sub ''pid='' buf of None \<Rightarrow> 0 | Some i \<Rightarrow> strtol0 (drop (i + 4) buf))
      in if 0 < first then Some first
         else (let fallback = (case rfind_char (CHR ''='') buf of None \<Rightarrow> 0 | Some i \<Rightarrow> strtol0 (drop (i + 1) buf))
               in if 0 < fallback then Some fallback else None))"

section \<open>The socket table\<close>

definition hex_upper :: "nat \<Rightarrow> char" where
  "hex_upper n = (if n < 10 then char_of (48 + n) else char_of (55 + n))"

text \<open>\<open>%04X\<close> of a 16-bit port.\<close>

definition hex_port :: "nat \<Rightarrow> string" where
  "hex_port p = [hex_upper (p div 4096 mod 16), hex_upper (p div 256 mod 16), hex_upper (p div 16 mod 16), hex_upper (p mod 16)]"

text \<open>The words \<open>operator>>\<close> extracts from a line.\<close>

function words_of :: "string \<Rightarrow> string list" where
  "words_of s =
     (case dropWhile is_space s of
        [] \<Rightarrow> []
      | c # cs \<Rightarrow> takeWhile (\<lambda>x. \<not> is_space x) (c # cs) # words_of (dropWhile (\<lambda>x. \<not> is_space x) (c # cs)))"
  by pat_completeness auto
termination
proof (relation "measure length")
  fix s :: string and c cs
  assume s: "dropWhile is_space s = c # cs"
  then have c: "\<not> is_space c" by (metis dropWhile_eq_Cons_conv)
  have "length (c # cs) \<le> length s" using s by (metis length_dropWhile_le)
  then show "(dropWhile (\<lambda>x. \<not> is_space x) (c # cs), s) \<in> measure length"
    using c length_dropWhile_le [of "\<lambda>x. \<not> is_space x" cs] by simp
qed simp

declare words_of.simps [simp del]

text \<open>
  The inode of a line for the port: the first word is skipped, the second is the local address, the inode is the
  eighth word after it, or the last one when there are fewer.
\<close>

definition line_inode :: "string \<Rightarrow> string \<Rightarrow> string option" where
  "line_inode hexPort line =
     (case words_of line of
        sl # localAddr # ts \<Rightarrow>
          if length localAddr < 5 then None
          else (let addrPort = (case find_char (CHR '':'') localAddr of None \<Rightarrow> localAddr | Some i \<Rightarrow> drop (i + 1) localAddr)
                in if addrPort \<noteq> hexPort then None
                   else Some (if ts = [] then [] else last (take 8 ts)))
      | _ \<Rightarrow> None)"

fun first_inode :: "string \<Rightarrow> string list \<Rightarrow> string option" where
  "first_inode hexPort [] = None"
| "first_inode hexPort (l # ls) = (case line_inode hexPort l of None \<Rightarrow> first_inode hexPort ls | Some i \<Rightarrow> Some i)"

section \<open>The owner of a socket\<close>

definition link_matches :: "string \<Rightarrow> string \<Rightarrow> bool" where
  "link_matches inodeStr target \<longleftrightarrow>
     starts_with ''socket:['' target \<and>
     (case strtol (drop 8 target) of
        None \<Rightarrow> False
      | Some (inode, r) \<Rightarrow> r \<noteq> [] \<and> hd r = CHR '']'' \<and> inode = strtol0 inodeStr)"

definition numeric_name :: "string \<Rightarrow> int option" where
  "numeric_name n = (if n = [] then Some 0
     else case strtol n of None \<Rightarrow> None | Some (v, r) \<Rightarrow> if r = [] then Some v else None)"

fun socket_owner :: "string \<Rightarrow> proc_entry list \<Rightarrow> int option" where
  "socket_owner inodeStr [] = None"
| "socket_owner inodeStr ((n, dir, links) # es) =
     (if \<not> dir then socket_owner inodeStr es
      else (case numeric_name n of
              None \<Rightarrow> socket_owner inodeStr es
            | Some pid \<Rightarrow>
                (case links of
                   None \<Rightarrow> socket_owner inodeStr es
                 | Some ts \<Rightarrow> if list_ex (link_matches inodeStr) ts then Some pid else socket_owner inodeStr es)))"

definition findPidUsingPort :: "string option \<Rightarrow> string list \<Rightarrow> proc_entry list option \<Rightarrow> nat \<Rightarrow> int" where
  "findPidUsingPort ss net procs port =
     (case Option.bind ss ss_pid of
        Some pid \<Rightarrow> pid
      | None \<Rightarrow>
          (case first_inode (hex_port port) net of
             None \<Rightarrow> 0
           | Some inodeStr \<Rightarrow>
               (case procs of
                  None \<Rightarrow> 0
                | Some es \<Rightarrow> (case socket_owner inodeStr es of None \<Rightarrow> 0 | Some pid \<Rightarrow> pid))))"

definition strip_newline :: "string \<Rightarrow> string" where
  "strip_newline s = (if s \<noteq> [] \<and> last s = NL then butlast s else s)"

definition findProcessUsingPort :: "string option \<Rightarrow> string list \<Rightarrow> proc_entry list option \<Rightarrow> (int \<Rightarrow> string) \<Rightarrow> nat \<Rightarrow> string" where
  "findProcessUsingPort ss net procs comm port =
     (case ss of
        Some buf \<Rightarrow> take 80 (strip_newline buf)
      | None \<Rightarrow>
          (case first_inode (hex_port port) net of
             None \<Rightarrow> []
           | Some inodeStr \<Rightarrow>
               (case procs of
                  None \<Rightarrow> []
                | Some es \<Rightarrow>
                    (case socket_owner inodeStr es of
                       None \<Rightarrow> []
                     | Some pid \<Rightarrow>
                         if comm pid \<noteq> [] then comm pid @ '' (PID='' @ to_string pid @ '')''
                         else ''PID='' @ to_string pid))))"

section \<open>Properties\<close>

text \<open>Ports have distinct hexadecimal forms.\<close>

lemma hex_upper_inj: "a < 16 \<Longrightarrow> b < 16 \<Longrightarrow> hex_upper a = hex_upper b \<longleftrightarrow> a = b"
  by (auto simp: hex_upper_def)

lemma hex_port_inj:
  assumes "p < 65536" and "q < 65536"
  shows "hex_port p = hex_port q \<longleftrightarrow> p = q"
proof
  assume "hex_port p = hex_port q"
  then have d: "p div 4096 mod 16 = q div 4096 mod 16" "p div 256 mod 16 = q div 256 mod 16"
      "p div 16 mod 16 = q div 16 mod 16" "p mod 16 = q mod 16"
    by (simp_all add: hex_port_def hex_upper_inj)
  have e: "n = (n div 4096 mod 16) * 4096 + (n div 256 mod 16) * 256 + (n div 16 mod 16) * 16 + n mod 16" if n: "n < 65536" for n :: nat
  proof -
    have d2: "n div 256 = n div 16 div 16" "n div 4096 = n div 16 div 16 div 16" by (simp_all flip: div_mult2_eq)
    have s: "n div 16 div 16 div 16 < 16" using n by (simp flip: div_mult2_eq)
    show ?thesis
      using mult_div_mod_eq [of 16 n] mult_div_mod_eq [of 16 "n div 16"] mult_div_mod_eq [of 16 "n div 16 div 16"]
      unfolding d2 mod_less [OF s] by linarith
  qed
  show "p = q" using e [OF assms(1)] e [OF assms(2)] d by metis
qed simp

definition holds_socket :: "string \<Rightarrow> proc_entry \<Rightarrow> int \<Rightarrow> bool" where
  "holds_socket inodeStr e pid \<longleftrightarrow>
     (case e of (n, dir, links) \<Rightarrow> dir \<and> numeric_name n = Some pid \<and> (\<exists>ts. links = Some ts \<and> list_ex (link_matches inodeStr) ts))"

lemma socket_owner_sound: "socket_owner inodeStr es = Some pid \<Longrightarrow> \<exists>e \<in> set es. holds_socket inodeStr e pid"
  by (induction inodeStr es rule: socket_owner.induct)
    (auto simp: holds_socket_def split: if_splits option.splits)

lemma socket_owner_complete:
  "e \<in> set es \<Longrightarrow> holds_socket inodeStr e pid \<Longrightarrow> \<exists>pid'. socket_owner inodeStr es = Some pid'"
  by (induction inodeStr es rule: socket_owner.induct)
    (auto simp: holds_socket_def split: option.splits)



end
