(* ===== verification/GK_SysMon.thy ===== *)
theory GK_SysMon
  imports GK_Config GK_ProcFs
begin

text \<open>
  The system monitor, \<open>system_monitor.h\<close> and \<open>system_monitor.cpp\<close> on Linux: reading the metrics, one tick of
  the sampling loop with its eviction timer, the choice of the victim, and the test that
  lets emergency commands pass without a PIN. The texts under \<open>/proc\<close> and the clock are arguments; percentages are exact.
\<close>

section \<open>Metrics\<close>

record sys_metrics =
  mx_cpuValid :: bool
  mx_cpuPercent :: rat
  mx_memTotal :: int
  mx_memAvailable :: int
  mx_memUsed :: int
  mx_memPercent :: rat
  mx_swapTotal :: int
  mx_swapUsed :: int
  mx_swapPercent :: rat
  mx_swapValid :: bool

definition zero_metrics :: sys_metrics where
  "zero_metrics = \<lparr>mx_cpuValid = False, mx_cpuPercent = 0, mx_memTotal = 0, mx_memAvailable = 0, mx_memUsed = 0,
     mx_memPercent = 0, mx_swapTotal = 0, mx_swapUsed = 0, mx_swapPercent = 0, mx_swapValid = False\<rparr>"

text \<open>The static variables of \<open>linuxCpu\<close>, \<open>prevIdle\<close> and \<open>prevTotal\<close>.\<close>

type_synonym cpu_prev = "int \<times> int"

definition cpu_prev0 :: cpu_prev where "cpu_prev0 = (- 1, 0)"

fun scan_longs :: "nat \<Rightarrow> string \<Rightarrow> int list" where
  "scan_longs 0 s = []"
| "scan_longs (Suc n) s = (case scan_long s of None \<Rightarrow> [] | Some (v, r) \<Rightarrow> v # scan_longs n r)"

text \<open>The tail of \<open>linuxCpu\<close>, from the idle and total times.\<close>

definition cpu_delta :: "cpu_prev \<Rightarrow> int \<Rightarrow> int \<Rightarrow> sys_metrics \<Rightarrow> cpu_prev \<times> sys_metrics" where
  "cpu_delta prev idle tot m =
     (if fst prev < 0 then ((idle, tot), m\<lparr>mx_cpuValid := False, mx_cpuPercent := 0\<rparr>)
      else let dTotal = tot - snd prev; dIdle = idle - fst prev
           in if dTotal \<le> 0 then ((idle, tot), m\<lparr>mx_cpuValid := False, mx_cpuPercent := 0\<rparr>)
              else ((idle, tot), m\<lparr>mx_cpuValid := True, mx_cpuPercent := of_int (dTotal - dIdle) / of_int dTotal * 100\<rparr>))"

text \<open>
  \<open>linuxCpu\<close>: \<open>stat\<close> is the first line of \<open>/proc/stat\<close>, \<open>None\<close> when the file does not open. Four numbers are enough for
  \<open>sscanf\<close>; \<open>junk\<close> is what the uninitialised others hold.
\<close>

definition linuxCpu :: "string option \<Rightarrow> (nat \<Rightarrow> int) \<Rightarrow> cpu_prev \<Rightarrow> sys_metrics \<Rightarrow> bool \<times> cpu_prev \<times> sys_metrics" where
  "linuxCpu stat junk prev m =
     (case stat of
        None \<Rightarrow> (False, prev, m)
      | Some line \<Rightarrow>
          if \<not> starts_with ''cpu '' line then (False, prev, m)
          else (let vs = scan_longs 8 (drop 4 line)
                in if length vs < 4 then (False, prev, m)
                   else let ws = map (\<lambda>i. if i < length vs then vs ! i else junk i) [0..<8]
                        in (True, cpu_delta prev (ws ! 3 + ws ! 4) (sum_list ws) m)))"

record mem_acc =
  ma_mt :: int
  ma_ma :: int
  ma_st :: int
  ma_sf :: int

definition mem_key :: "string \<Rightarrow> int \<Rightarrow> mem_acc \<Rightarrow> mem_acc" where
  "mem_key k v a =
     (if k = ''MemTotal:'' then a\<lparr>ma_mt := v\<rparr> else if k = ''MemAvailable:'' then a\<lparr>ma_ma := v\<rparr>
      else if k = ''SwapTotal:'' then a\<lparr>ma_st := v\<rparr> else if k = ''SwapFree:'' then a\<lparr>ma_sf := v\<rparr> else a)"

text \<open>The loop over key, value and unit, on the words of the file; it ends at the first value that is no number.\<close>

fun meminfo_loop :: "string list \<Rightarrow> mem_acc \<Rightarrow> mem_acc" where
  "meminfo_loop (k # v # rest) a =
     (case scan_long v of
        None \<Rightarrow> a
      | Some (n, r) \<Rightarrow>
          if r \<noteq> [] then meminfo_loop rest (mem_key k n a)
          else (case rest of [] \<Rightarrow> a | u # rest' \<Rightarrow> meminfo_loop rest' (mem_key k n a)))"
| "meminfo_loop ws a = a"

definition mem_metrics :: "mem_acc \<Rightarrow> sys_metrics \<Rightarrow> sys_metrics" where
  "mem_metrics a m =
     (if ma_mt a \<le> 0 then m
      else let avail = (if 0 < ma_ma a then ma_ma a else ma_mt a);
               usedKb = ma_mt a - avail;
               m1 = m\<lparr>mx_memTotal := ma_mt a * 1024, mx_memAvailable := avail * 1024, mx_memUsed := usedKb * 1024,
                      mx_memPercent := of_int usedKb / of_int (ma_mt a) * 100\<rparr>
           in if 0 < ma_st a then
                (let used = max 0 (ma_st a - ma_sf a)
                 in m1\<lparr>mx_swapTotal := ma_st a * 1024, mx_swapUsed := used * 1024,
                       mx_swapPercent := of_int used / of_int (ma_st a) * 100, mx_swapValid := True\<rparr>)
              else m1)"

definition linuxMem :: "string \<Rightarrow> sys_metrics \<Rightarrow> sys_metrics" where
  "linuxMem meminfo m = mem_metrics (meminfo_loop (words_of meminfo) \<lparr>ma_mt = 0, ma_ma = 0, ma_st = 0, ma_sf = 0\<rparr>) m"

definition readSystemMetrics ::
    "string option \<Rightarrow> (nat \<Rightarrow> int) \<Rightarrow> string \<Rightarrow> cpu_prev \<Rightarrow> sys_metrics option \<times> cpu_prev" where
  "readSystemMetrics stat junk meminfo prev =
     (let (_, prev', m1) = linuxCpu stat junk prev zero_metrics; m2 = linuxMem meminfo m1
      in (if mx_memTotal m2 \<le> 0 then None else Some m2, prev'))"

section \<open>The process list\<close>

record proc_mem =
  pm_pid :: int
  pm_name :: string
  pm_rss :: int
  pm_vms :: int

text \<open>One entry of \<open>/proc\<close>: its name, the text of \<open>statm\<close> and the first line of \<open>comm\<close>. \<open>atoll\<close> is the leading number.\<close>

definition read_two :: "string option \<Rightarrow> (int \<times> int) option" where
  "read_two f = (case f of None \<Rightarrow> None
     | Some s \<Rightarrow> (case scan_longs 2 s of [size_, res] \<Rightarrow> Some (size_, res) | _ \<Rightarrow> None))"

text \<open>
  The two extractions from a stream with preset values, as \<open>readProcessList\<close> does them: a value that has no text keeps its preset, one whose text is no
  number becomes \<open>0\<close>, and after a failure nothing more is read.
\<close>

definition statm_pair :: "string option \<Rightarrow> int \<times> int" where
  "statm_pair f =
     (case f of
        None \<Rightarrow> (- 1, - 1)
      | Some s \<Rightarrow>
          (case scan_long s of
             None \<Rightarrow> (if dropWhile is_space s = [] then - 1 else 0, - 1)
           | Some (sz, rest) \<Rightarrow>
               (case scan_long rest of
                  None \<Rightarrow> (sz, if dropWhile is_space rest = [] then - 1 else 0)
                | Some (res, rest') \<Rightarrow> (sz, res))))"

definition proc_of :: "int \<Rightarrow> int \<Rightarrow> string \<times> string option \<times> string option \<Rightarrow> proc_mem option" where
  "proc_of self pg e =
     (case e of (nm, statm, comm) \<Rightarrow>
        if nm = [] \<or> \<not> is_digit (hd nm) then None
        else let pid = strtol0 nm
             in if pid \<le> 0 \<or> pid = self then None
                else let (sz, res) = statm_pair statm
                     in if res < 0 then None
                        else Some \<lparr>pm_pid = pid,
                          pm_name = (case comm of None \<Rightarrow> nm | Some c \<Rightarrow> if c = [] then nm else c),
                          pm_rss = res * pg, pm_vms = (if 0 < sz then sz else 0) * pg\<rparr>)"

definition readProcessList :: "int \<Rightarrow> int \<Rightarrow> (string \<times> string option \<times> string option) list option \<Rightarrow> proc_mem list" where
  "readProcessList self page dir =
     (case dir of None \<Rightarrow> [] | Some es \<Rightarrow> List.map_filter (proc_of self (if page \<le> 0 then 4096 else page)) es)"

definition processRssBytes :: "int \<Rightarrow> string option \<Rightarrow> int" where
  "processRssBytes page statm =
     (case read_two statm of None \<Rightarrow> - 1 | Some (_, res) \<Rightarrow> res * (if page \<le> 0 then 4096 else page))"

section \<open>The victim\<close>

text \<open>
  \<open>maybeEvict\<close>, the scan under the lock: a candidate is whether its backend runs, its last active time, and the
  resident size of its backend. \<open>best\<close> is \<open>bestIdle\<close>, \<open>bestRss\<close> and the index.
\<close>

record candidate =
  cd_running :: bool
  cd_lastActive :: int
  cd_rss :: int

definition idle_of :: "int \<Rightarrow> candidate \<Rightarrow> int" where
  "idle_of now r = max 0 (now - cd_lastActive r)"

fun victim_loop :: "int \<Rightarrow> nat \<Rightarrow> candidate list \<Rightarrow> int \<times> int \<times> nat option \<Rightarrow> int \<times> int \<times> nat option" where
  "victim_loop now i [] best = best"
| "victim_loop now i (r # rs) (bestIdle, bestRss, victimIdx) =
     (if \<not> cd_running r then victim_loop now (Suc i) rs (bestIdle, bestRss, victimIdx)
      else if idle_of now r > bestIdle \<or> (idle_of now r = bestIdle \<and> cd_rss r > bestRss)
           then victim_loop now (Suc i) rs (idle_of now r, cd_rss r, Some i)
           else victim_loop now (Suc i) rs (bestIdle, bestRss, victimIdx))"

definition choose_victim :: "int \<Rightarrow> candidate list \<Rightarrow> nat option" where
  "choose_victim now rs = snd (snd (victim_loop now 0 rs (- 1, - 1, None)))"

section \<open>One tick of the sampling loop\<close>

record loop_state =
  ls_metrics :: sys_metrics
  ls_fast :: bool
  ls_emergency :: bool
  ls_prevCritical :: bool
  ls_criticalSince :: int

text \<open>The readings a tick starts from: the new metrics, \<open>None\<close> when they cannot be read, and the time.\<close>

type_synonym tick = "sys_metrics option \<times> int"

definition critical :: "system_monitor_config \<Rightarrow> sys_metrics \<Rightarrow> bool" where
  "critical cfg m \<longleftrightarrow> mx_memPercent m > ev_memoryCritical (sm_eviction cfg) * 100 \<and> mx_swapValid m \<and>
     mx_swapPercent m > ev_swapCritical (sm_eviction cfg) * 100"

definition tick_metrics :: "loop_state \<Rightarrow> tick \<Rightarrow> sys_metrics" where
  "tick_metrics st t = (case fst t of None \<Rightarrow> ls_metrics st | Some m \<Rightarrow> m)"

definition snapshot_step :: "system_monitor_config \<Rightarrow> loop_state \<Rightarrow> tick \<Rightarrow> loop_state" where
  "snapshot_step cfg st t =
     (let m = tick_metrics st t
      in st\<lparr>ls_metrics := m,
            ls_fast := (mx_memPercent m > sm_memoryHighThreshold cfg * 100),
            ls_emergency := (mx_swapValid m \<and> mx_swapPercent m > sm_swapHighThreshold cfg * 100)\<rparr>)"

text \<open>The eviction timer: the new state, and whether \<open>maybeEvict\<close> is called.\<close>

definition timer_step :: "system_monitor_config \<Rightarrow> loop_state \<Rightarrow> int \<Rightarrow> loop_state \<times> bool" where
  "timer_step cfg st now =
     (if \<not> ev_enabled (sm_eviction cfg) then (st, False)
      else if critical cfg (ls_metrics st) then
        (if \<not> ls_prevCritical st then (st\<lparr>ls_criticalSince := now, ls_prevCritical := True\<rparr>, False)
         else if now - ls_criticalSince st \<ge> ev_sustainSeconds (sm_eviction cfg)
              then (st\<lparr>ls_prevCritical := False, ls_criticalSince := 0\<rparr>, True)
              else (st, False))
      else if ls_prevCritical st then (st\<lparr>ls_prevCritical := False, ls_criticalSince := 0\<rparr>, False)
      else (st, False))"

definition loop_tick :: "system_monitor_config \<Rightarrow> loop_state \<Rightarrow> tick \<Rightarrow> loop_state \<times> bool" where
  "loop_tick cfg st t = timer_step cfg (snapshot_step cfg st t) (snd t)"

definition sleep_interval :: "system_monitor_config \<Rightarrow> loop_state \<Rightarrow> int" where
  "sleep_interval cfg st =
     max 1 (if ls_fast st then sm_fastIntervalSeconds cfg else sm_intervalSeconds cfg)"

definition loop_init :: "sys_metrics \<Rightarrow> loop_state" where
  "loop_init m = \<lparr>ls_metrics = m, ls_fast = False, ls_emergency = False, ls_prevCritical = False, ls_criticalSince = 0\<rparr>"

text \<open>The whole thread: it does not start without a first reading.\<close>

fun loop_run :: "system_monitor_config \<Rightarrow> loop_state \<Rightarrow> tick list \<Rightarrow> loop_state \<times> bool list" where
  "loop_run cfg st [] = (st, [])"
| "loop_run cfg st (t # ts) =
     (let (st1, ev) = loop_tick cfg st t; (st2, evs) = loop_run cfg st1 ts in (st2, ev # evs))"

definition sampler :: "system_monitor_config \<Rightarrow> sys_metrics option \<Rightarrow> tick list \<Rightarrow> (loop_state \<times> bool list) option" where
  "sampler cfg first ts =
     (if \<not> sm_enabled cfg then None
      else case first of None \<Rightarrow> None | Some m \<Rightarrow> Some (loop_run cfg (loop_init m) ts))"

section \<open>Emergency commands\<close>

definition is_blank2 :: "char \<Rightarrow> bool" where
  "is_blank2 c \<longleftrightarrow> c = SP \<or> c = TAB"

definition first_word :: "string \<Rightarrow> string" where
  "first_word s = takeWhile (\<lambda>c. \<not> is_blank4 c) s"

definition after_word :: "string \<Rightarrow> string" where
  "after_word s = dropWhile (\<lambda>c. \<not> is_blank4 c) s"

text \<open>\<open>emergency\<close> is that a sampler exists and is in the emergency state, \<open>names\<close> its list of commands.\<close>

definition sysMonEmergencyPinBypass :: "bool \<Rightarrow> string list \<Rightarrow> string \<Rightarrow> bool" where
  "sysMonEmergencyPinBypass emergency names rawCommand =
     (if \<not> emergency then False
      else let s = dropWhile is_blank2 rawCommand
           in if s = [] then False
              else if first_word s = ''sudo'' \<or> first_word s = ''doas'' then
                (let s2 = dropWhile is_blank2 (after_word s)
                 in if s2 = [] then False else first_word s2 \<in> set names)
              else first_word s \<in> set names)"

end
