(* ===== verification/GK_SysMonProps.thy ===== *)
theory GK_SysMonProps
  imports GK_SysMon
begin

text \<open>
  What the system monitor promises: percentages between 0 and 100, a victim that is a longest-idle running
  backend, an eviction only after the machine was critical at every sample of the whole sustained
  time, and exactly which commands pass without a PIN in an emergency.
\<close>

section \<open>Metrics\<close>

lemma ratio_percent:
  assumes "0 \<le> a" and "a \<le> b" and "0 < (b :: int)"
  shows "0 \<le> (of_int a / of_int b * 100 :: rat) \<and> of_int a / of_int b * 100 \<le> (100 :: rat)"
proof -
  have "0 \<le> (of_int a / of_int b :: rat)" "(of_int a / of_int b :: rat) \<le> 1"
    using assms by (simp_all add: divide_le_eq)
  then have "0 \<le> (of_int a / of_int b * 100 :: rat)" "(of_int a / of_int b * 100 :: rat) \<le> 1 * 100"
    by (intro mult_nonneg_nonneg mult_right_mono; simp)+
  then show ?thesis by (simp only: mult_1)
qed

text \<open>
  The percentages the decisions are taken on lie between 0 and 100 whenever the kernel's numbers are consistent, that is
  the available memory is at most the total and the free swap is not negative.
\<close>
theorem mem_metrics_percent:
  assumes "ma_ma a \<le> ma_mt a" and "0 \<le> ma_sf a" and "m = mem_metrics a zero_metrics"
  shows "0 \<le> mx_memPercent m \<and> mx_memPercent m \<le> 100 \<and> 0 \<le> mx_swapPercent m \<and> mx_swapPercent m \<le> 100 \<and>
    mx_memUsed m + mx_memAvailable m = mx_memTotal m"
proof (cases "ma_mt a \<le> 0")
  case True
  then show ?thesis using assms(3) by (simp add: mem_metrics_def zero_metrics_def)
next
  case False
  let ?avail = "if 0 < ma_ma a then ma_ma a else ma_mt a"
  have "0 \<le> ma_mt a - ?avail" "ma_mt a - ?avail \<le> ma_mt a" using assms(1) False by auto
  note mem = ratio_percent [OF this] False
  have sw: "0 \<le> max 0 (ma_st a - ma_sf a)" "0 < ma_st a \<Longrightarrow> max 0 (ma_st a - ma_sf a) \<le> ma_st a"
    using assms(2) by auto
  show ?thesis
  proof (cases "0 < ma_st a")
    case True
    then show ?thesis using mem ratio_percent [OF sw(1) sw(2) [OF True] True] assms(3) False
      by (simp add: mem_metrics_def Let_def algebra_simps)
  next
    case st: False
    then show ?thesis using mem assms(3) False by (simp add: mem_metrics_def zero_metrics_def Let_def algebra_simps)
  qed
qed

theorem mem_metrics_percent_witness:
  "mx_memPercent (mem_metrics \<lparr>ma_mt = 1000, ma_ma = 250, ma_st = 0, ma_sf = 0\<rparr> zero_metrics) \<le> 100"
  using mem_metrics_percent [of "\<lparr>ma_mt = 1000, ma_ma = 250, ma_st = 0, ma_sf = 0\<rparr>", OF _ _ refl] by simp

section \<open>The victim\<close>

text \<open>The key of a candidate: longest idle first, then the largest resident size.\<close>

datatype evict_key = EvictKey int int

instantiation evict_key :: linorder
begin

fun less_eq_evict_key :: "evict_key \<Rightarrow> evict_key \<Rightarrow> bool" where
  "less_eq_evict_key (EvictKey i r) (EvictKey i' r') \<longleftrightarrow> i < i' \<or> (i = i' \<and> r \<le> r')"

fun less_evict_key :: "evict_key \<Rightarrow> evict_key \<Rightarrow> bool" where
  "less_evict_key (EvictKey i r) (EvictKey i' r') \<longleftrightarrow> i < i' \<or> (i = i' \<and> r < r')"

instance
proof
  fix x y z :: evict_key
  show "x < y \<longleftrightarrow> x \<le> y \<and> \<not> y \<le> x" by (cases x; cases y) auto
  show "x \<le> x" by (cases x) auto
  show "x \<le> y \<Longrightarrow> y \<le> z \<Longrightarrow> x \<le> z" by (cases x; cases y; cases z) auto
  show "x \<le> y \<Longrightarrow> y \<le> x \<Longrightarrow> x = y" by (cases x; cases y) auto
  show "x \<le> y \<or> y \<le> x" by (cases x; cases y) auto
qed

end

definition key_of :: "int \<Rightarrow> candidate \<Rightarrow> evict_key" where
  "key_of now r = EvictKey (idle_of now r) (cd_rss r)"

definition best_among :: "int \<Rightarrow> candidate list \<Rightarrow> nat \<Rightarrow> bool" where
  "best_among now rs i \<longleftrightarrow> i < length rs \<and> cd_running (rs ! i) \<and>
     (\<forall>j < length rs. cd_running (rs ! j) \<longrightarrow> key_of now (rs ! j) \<le> key_of now (rs ! i)) \<and>
     (\<forall>j < i. cd_running (rs ! j) \<longrightarrow> key_of now (rs ! j) < key_of now (rs ! i))"

definition no_better :: "int \<Rightarrow> candidate list \<Rightarrow> evict_key \<Rightarrow> bool" where
  "no_better now rs k \<longleftrightarrow> (\<forall>r \<in> set rs. cd_running r \<longrightarrow> key_of now r \<le> k)"

lemma best_among_Cons:
  assumes "best_among now rs i" and "cd_running r \<Longrightarrow> key_of now r < key_of now (rs ! i)"
  shows "best_among now (r # rs) (Suc i)"
  unfolding best_among_def
proof (intro conjI allI impI)
  show "Suc i < length (r # rs)" "cd_running ((r # rs) ! Suc i)" using assms(1) by (auto simp: best_among_def)
next
  fix j assume "j < length (r # rs)" "cd_running ((r # rs) ! j)"
  then show "key_of now ((r # rs) ! j) \<le> key_of now ((r # rs) ! Suc i)"
    using assms by (cases j) (auto simp: best_among_def intro: less_imp_le)
next
  fix j assume "j < Suc i" "cd_running ((r # rs) ! j)"
  then show "key_of now ((r # rs) ! j) < key_of now ((r # rs) ! Suc i)"
    using assms by (cases j) (auto simp: best_among_def)
qed

lemma victim_loop_best:
  "(no_better now rs (EvictKey bi br) \<and> victim_loop now k rs (bi, br, v) = (bi, br, v)) \<or>
   (\<exists>i bi' br'. victim_loop now k rs (bi, br, v) = (bi', br', Some (k + i)) \<and> best_among now rs i \<and>
      EvictKey bi br < key_of now (rs ! i))"
proof (induction rs arbitrary: k bi br v)
  case Nil
  then show ?case by (simp add: no_better_def)
next
  case (Cons r rs)
  show ?case
  proof (cases "cd_running r \<and> EvictKey bi br < key_of now r")
    case True
    then have e: "victim_loop now k (r # rs) (bi, br, v) = victim_loop now (Suc k) rs (idle_of now r, cd_rss r, Some k)"
      by (auto simp: key_of_def)
    from Cons.IH [of "idle_of now r" "cd_rss r" "Suc k" "Some k"] show ?thesis
    proof
      assume a: "no_better now rs (EvictKey (idle_of now r) (cd_rss r)) \<and>
        victim_loop now (Suc k) rs (idle_of now r, cd_rss r, Some k) = (idle_of now r, cd_rss r, Some k)"
      then have "best_among now (r # rs) 0"
        using True by (auto simp: best_among_def no_better_def key_of_def nth_Cons all_set_conv_all_nth split: nat.splits)
      then show ?thesis using a e True by (intro disjI2) (rule exI [of _ 0], simp)
    next
      assume "\<exists>i bi' br'. victim_loop now (Suc k) rs (idle_of now r, cd_rss r, Some k) = (bi', br', Some (Suc k + i)) \<and>
        best_among now rs i \<and> EvictKey (idle_of now r) (cd_rss r) < key_of now (rs ! i)"
      then obtain i bi' br' where i: "victim_loop now (Suc k) rs (idle_of now r, cd_rss r, Some k) = (bi', br', Some (Suc k + i))"
        "best_among now rs i" "key_of now r < key_of now (rs ! i)" by (auto simp: key_of_def)
      then show ?thesis using e True best_among_Cons [of now rs i r]
        by (intro disjI2) (rule exI [of _ "Suc i"], auto intro: less_trans)
    qed
  next
    case False
    then have e: "victim_loop now k (r # rs) (bi, br, v) = victim_loop now (Suc k) rs (bi, br, v)"
      by (auto simp: key_of_def)
    have le: "cd_running r \<Longrightarrow> key_of now r \<le> EvictKey bi br" using False by (simp add: not_less)
    from Cons.IH [of bi br "Suc k" v] show ?thesis
    proof
      assume "no_better now rs (EvictKey bi br) \<and> victim_loop now (Suc k) rs (bi, br, v) = (bi, br, v)"
      then show ?thesis using e le by (simp add: no_better_def)
    next
      assume "\<exists>i bi' br'. victim_loop now (Suc k) rs (bi, br, v) = (bi', br', Some (Suc k + i)) \<and>
        best_among now rs i \<and> EvictKey bi br < key_of now (rs ! i)"
      then obtain i bi' br' where i: "victim_loop now (Suc k) rs (bi, br, v) = (bi', br', Some (Suc k + i))"
        "best_among now rs i" "EvictKey bi br < key_of now (rs ! i)" by blast
      then show ?thesis using e best_among_Cons [of now rs i r] le
        by (intro disjI2) (rule exI [of _ "Suc i"], auto intro: le_less_trans)
    qed
  qed
qed

lemma choose_victim_Some: "choose_victim now rs = Some i \<Longrightarrow> best_among now rs i"
  using victim_loop_best [of now rs "- 1" "- 1" 0 None] by (auto simp: choose_victim_def)

text \<open>
  C22: the victim of an eviction is right: there is one exactly when some backend runs, it runs, no running
  backend has been idle longer, none idle as long is larger, and of equals it is the first.
\<close>
theorem choose_victim_best:
  "case choose_victim now rs of
     None \<Rightarrow> \<not> list_ex cd_running rs
   | Some i \<Rightarrow> best_among now rs i"
proof -
  have run: "EvictKey (- 1) (- 1) < key_of now r" for r by (simp add: key_of_def idle_of_def less_max_iff_disj)
  from victim_loop_best [of now rs "- 1" "- 1" 0 None] show ?thesis
  proof
    assume a: "no_better now rs (EvictKey (- 1) (- 1)) \<and> victim_loop now 0 rs (- 1, - 1, None) = (- 1, - 1, None)"
    have "\<not> cd_running r" if "r \<in> set rs" for r
      using a that run [of r] by (auto simp: no_better_def)
    then show ?thesis using a by (auto simp: choose_victim_def list_ex_iff)
  next
    assume "\<exists>i bi' br'. victim_loop now 0 rs (- 1, - 1, None) = (bi', br', Some (0 + i)) \<and> best_among now rs i \<and>
        EvictKey (- 1) (- 1) < key_of now (rs ! i)"
    then show ?thesis by (auto simp: choose_victim_def)
  qed
qed

section \<open>The eviction timer\<close>

text \<open>The metrics each tick decides on: those read, or the last ones when reading fails.\<close>

fun readings :: "sys_metrics \<Rightarrow> tick list \<Rightarrow> sys_metrics list" where
  "readings m [] = []"
| "readings m (t # ts) = (let m' = (case fst t of None \<Rightarrow> m | Some x \<Rightarrow> x) in m' # readings m' ts)"

text \<open>The loop with its history: the metrics and the time of every tick so far.\<close>

definition hist_step ::
    "system_monitor_config \<Rightarrow> loop_state \<times> (sys_metrics \<times> int) list \<Rightarrow> tick \<Rightarrow> loop_state \<times> (sys_metrics \<times> int) list" where
  "hist_step cfg s t = (fst (loop_tick cfg (fst s) t), snd s @ [(tick_metrics (fst s) t, snd t)])"

definition hist_inv :: "system_monitor_config \<Rightarrow> loop_state \<times> (sys_metrics \<times> int) list \<Rightarrow> bool" where
  "hist_inv cfg s \<longleftrightarrow> (ls_prevCritical (fst s) \<longrightarrow>
     (\<exists>h1 m h2. snd s = h1 @ (m, ls_criticalSince (fst s)) # h2 \<and>
        (\<forall>x \<in> set ((m, ls_criticalSince (fst s)) # h2). critical cfg (fst x))))"

lemma snapshot_step_sel [simp]:
  "ls_prevCritical (snapshot_step cfg st t) = ls_prevCritical st"
  "ls_criticalSince (snapshot_step cfg st t) = ls_criticalSince st"
  "ls_metrics (snapshot_step cfg st t) = tick_metrics st t"
  by (simp_all add: snapshot_step_def Let_def)

lemma timer_step_metrics [simp]: "ls_metrics (fst (timer_step cfg st now)) = ls_metrics st"
  by (simp add: timer_step_def)

lemma hist_inv_step:
  assumes "hist_inv cfg s" and "ev_enabled (sm_eviction cfg)"
  shows "hist_inv cfg (hist_step cfg s t)"
proof -
  let ?m = "tick_metrics (fst s) t"
  show ?thesis
  proof (cases "critical cfg ?m")
    case False
    then show ?thesis using assms(2) by (auto simp: hist_inv_def hist_step_def loop_tick_def timer_step_def)
  next
    case crit: True
    show ?thesis
    proof (cases "ls_prevCritical (fst s)")
      case False
      then have "fst (loop_tick cfg (fst s) t) =
          (snapshot_step cfg (fst s) t)\<lparr>ls_criticalSince := snd t, ls_prevCritical := True\<rparr>"
        using crit assms(2) by (simp add: loop_tick_def timer_step_def)
      then show ?thesis using crit unfolding hist_inv_def hist_step_def
        by (intro impI exI [of _ "snd s"] exI [of _ ?m] exI [of _ "[]"]) simp
    next
      case True
      then obtain h1 m h2 where h: "snd s = h1 @ (m, ls_criticalSince (fst s)) # h2"
          "\<forall>x \<in> set ((m, ls_criticalSince (fst s)) # h2). critical cfg (fst x)"
        using assms(1) unfolding hist_inv_def by blast
      let ?st' = "fst (loop_tick cfg (fst s) t)"
      have "\<not> ls_prevCritical ?st' \<or> ls_criticalSince ?st' = ls_criticalSince (fst s)"
        using True crit assms(2) by (simp add: loop_tick_def timer_step_def)
      then show ?thesis
      proof
        assume "\<not> ls_prevCritical ?st'"
        then show ?thesis by (simp add: hist_inv_def hist_step_def)
      next
        assume e: "ls_criticalSince ?st' = ls_criticalSince (fst s)"
        show ?thesis unfolding hist_inv_def hist_step_def
          by (rule impI, rule exI [of _ h1], rule exI [of _ m], rule exI [of _ "h2 @ [(?m, snd t)]"])
            (use h e crit in auto)
      qed
    qed
  qed
qed

text \<open>The timer is a machine with an invariant, for every configuration that evicts.\<close>

definition evicting_inv :: "system_monitor_config \<Rightarrow> loop_state \<times> (sys_metrics \<times> int) list \<Rightarrow> bool" where
  "evicting_inv cfg s \<longleftrightarrow> ev_enabled (sm_eviction cfg) \<and> hist_inv cfg s"

interpretation timer: machine_inv "hist_step cfg" "evicting_inv cfg" for cfg
  by unfold_locales (simp add: evicting_inv_def hist_inv_step)

lemma hist_step_pair: "hist_step cfg (st, h) t = (fst (loop_tick cfg st t), h @ [(tick_metrics st t, snd t)])"
  by (simp add: hist_step_def)

lemma readings_tick: "readings (ls_metrics st) (t # ts) = tick_metrics st t # readings (tick_metrics st t) ts"
  by (simp add: tick_metrics_def Let_def)

lemma loop_tick_metrics: "ls_metrics (fst (loop_tick cfg st t)) = tick_metrics st t"
  by (simp add: loop_tick_def)

lemma hist_run:
  "snd (foldl (hist_step cfg) (st, h) ts) = h @ zip (readings (ls_metrics st) ts) (map snd ts)"
proof (induction ts arbitrary: st h)
  case (Cons t ts)
  show ?case unfolding readings_tick foldl_Cons hist_step_pair Cons loop_tick_metrics by simp
qed simp

lemma loop_run_nth:
  "k < length ts \<Longrightarrow> snd (loop_run cfg st ts) ! k = snd (loop_tick cfg (fst (foldl (hist_step cfg) (st, h) (take k ts))) (ts ! k))"
proof (induction ts arbitrary: st h k)
  case (Cons t ts)
  then show ?case
    by (cases k) (auto simp: hist_step_def split_beta Let_def)
qed simp

lemma foldl_metrics: "ls_metrics (fst (foldl (hist_step cfg) (st, h) ts)) = last (ls_metrics st # readings (ls_metrics st) ts)"
proof (induction ts arbitrary: st h)
  case (Cons t ts)
  show ?case unfolding readings_tick foldl_Cons hist_step_pair Cons loop_tick_metrics by simp
qed simp

lemma readings_length [simp]: "length (readings m ts) = length ts"
  by (induction ts arbitrary: m) (simp_all add: Let_def)

lemma readings_nth: "k < length ts \<Longrightarrow> readings m ts ! k = (case fst (ts ! k) of None \<Rightarrow> last (m # readings m (take k ts)) | Some x \<Rightarrow> x)"
proof (induction ts arbitrary: m k)
  case (Cons t ts)
  then show ?case by (cases k) (auto simp: Let_def split: option.splits)
qed simp

lemma readings_take: "readings m (take k ts) = take k (readings m ts)"
proof (induction ts arbitrary: m k)
  case (Cons t ts)
  then show ?case by (cases k) (simp_all add: Let_def)
qed simp

text \<open>
  C21: the sampler evicts only under sustained pressure: when a tick calls \<open>maybeEvict\<close>, there is an earlier tick at least the
  configured number of seconds before it, and every sample from that one to this one had both memory and
  swap above their critical thresholds.
\<close>
theorem evict_only_sustained:
  assumes "k < length ts" and "snd (loop_run cfg (loop_init m0) ts) ! k"
  shows "ev_enabled (sm_eviction cfg) \<and>
    (\<exists>j < k. snd (ts ! k) - snd (ts ! j) \<ge> ev_sustainSeconds (sm_eviction cfg) \<and>
       (\<forall>i. j \<le> i \<and> i \<le> k \<longrightarrow> critical cfg (readings m0 ts ! i)))"
proof -
  let ?s = "foldl (hist_step cfg) (loop_init m0, []) (take k ts)"
  let ?r = "readings m0 ts"
  have ev: "snd (loop_tick cfg (fst ?s) (ts ! k))" using assms(2) loop_run_nth [OF assms(1)] by simp
  then have en: "ev_enabled (sm_eviction cfg)" and pc: "ls_prevCritical (fst ?s)"
    and cr: "critical cfg (tick_metrics (fst ?s) (ts ! k))"
    and late: "snd (ts ! k) - ls_criticalSince (fst ?s) \<ge> ev_sustainSeconds (sm_eviction cfg)"
    by (auto simp: loop_tick_def timer_step_def split: if_splits)
  have m0: "ls_metrics (loop_init m0) = m0" by (simp add: loop_init_def)
  have "evicting_inv cfg (loop_init m0, [])" using en by (simp add: evicting_inv_def hist_inv_def loop_init_def)
  then have "evicting_inv cfg ?s" by (rule timer.run_inv)
  then obtain h1 m h2 where h: "snd ?s = h1 @ (m, ls_criticalSince (fst ?s)) # h2"
      and hc: "\<forall>x \<in> set ((m, ls_criticalSince (fst ?s)) # h2). critical cfg (fst x)"
    using pc unfolding evicting_inv_def hist_inv_def by blast
  have hs: "snd ?s = zip (take k ?r) (take k (map snd ts))"
    by (simp add: hist_run m0 readings_take take_map)
  have len: "length (snd ?s) = k" using hs assms(1) by simp
  let ?j = "length h1"
  have jk: "?j < k" using h len by (metis length_append length_Cons add_less_cancel_left less_add_Suc1 add_Suc_right)
  have nth: "snd ?s ! i = (?r ! i, snd (ts ! i))" if "i < k" for i
    using that assms(1) unfolding hs by simp
  have since: "snd (ts ! ?j) = ls_criticalSince (fst ?s)" using nth [OF jk] h by simp
  have crit: "critical cfg (?r ! i)" if i: "?j \<le> i" "i \<le> k" for i
  proof (cases "i = k")
    case True
    have e: "last (m0 # readings m0 (take k ts)) = ls_metrics (fst ?s)" unfolding foldl_metrics m0 by (rule refl)
    show ?thesis using cr unfolding True readings_nth [OF assms(1)] e tick_metrics_def .
  next
    case False
    then have ik: "i < k" using i by simp
    let ?X = "(m, ls_criticalSince (fst ?s)) # h2"
    have "length h1 + length ?X = k" using len unfolding h by simp
    then have "i - ?j < length ?X" using ik i(1) by linarith
    then have "critical cfg (fst (?X ! (i - ?j)))" using hc nth_mem by blast
    moreover have "snd ?s ! i = ?X ! (i - ?j)" unfolding h using i(1) by (simp only: nth_append not_less [symmetric] if_False)
    ultimately show ?thesis using nth [OF ik] by (metis fst_conv)
  qed
  show ?thesis using en late since jk crit by auto
qed

text \<open>Two critical samples 900 seconds apart do trigger it.\<close>

definition full_metrics :: sys_metrics where
  "full_metrics = zero_metrics\<lparr>mx_memPercent := 95, mx_swapPercent := 95, mx_swapValid := True\<rparr>"

definition evicting_config :: system_monitor_config where
  "evicting_config = default_sysmon\<lparr>sm_enabled := True, sm_eviction := default_eviction\<lparr>ev_enabled := True\<rparr>\<rparr>"

lemma critical_full: "critical evicting_config full_metrics"
  by (simp add: critical_def full_metrics_def evicting_config_def zero_metrics_def default_sysmon_def default_eviction_def)

theorem evict_only_sustained_witness:
  "\<exists>j < 1. snd ([(Some full_metrics, 1000), (None, 1900)] ! 1) - snd ([(Some full_metrics, 1000), (None, 1900)] ! j)
     \<ge> ev_sustainSeconds (sm_eviction evicting_config)"
proof -
  have en: "ev_enabled (sm_eviction evicting_config)" "ev_sustainSeconds (sm_eviction evicting_config) = 900"
    by (simp_all add: evicting_config_def default_sysmon_def default_eviction_def)
  have "snd (loop_run evicting_config (loop_init zero_metrics) [(Some full_metrics, 1000), (None, 1900)]) ! 1"
    using critical_full en
    by (simp add: loop_tick_def timer_step_def snapshot_step_def tick_metrics_def Let_def loop_init_def)
  from evict_only_sustained [OF _ this] show ?thesis by auto
qed

section \<open>Emergency commands\<close>

text \<open>
  In an emergency the first word decides alone: for a listed name without blanks, with or without \<open>sudo\<close>, any
  text may follow, also one that makes the shell run further commands, and the PIN is
  waived; outside an emergency it never is.
\<close>
theorem emergency_bypass_any_tail:
  assumes "nm \<in> set names" and "nm \<noteq> []" and "\<forall>c \<in> set nm. \<not> is_blank4 c"
    and "nm \<noteq> ''sudo''" and "nm \<noteq> ''doas''"
  shows "sysMonEmergencyPinBypass True names (nm @ SP # tail) \<and>
    sysMonEmergencyPinBypass True names (''sudo '' @ nm @ SP # tail) \<and>
    \<not> sysMonEmergencyPinBypass False names cmd"
proof -
  obtain c cs where nm: "nm = c # cs" using assms(2) by (cases nm) auto
  have c: "\<not> is_blank2 c" using assms(3) nm by (auto simp: is_blank2_def is_blank4_def)
  have fw: "first_word (nm @ SP # tail) = nm"
    using assms(3) by (simp add: first_word_def takeWhile_append2 is_blank4_def)
  have d: "dropWhile is_blank2 (nm @ SP # tail) = nm @ SP # tail" using nm c by simp
  have sd: "dropWhile is_blank2 (''sudo '' @ nm @ SP # tail) = ''sudo '' @ nm @ SP # tail" by (simp add: is_blank2_def)
  have sw: "first_word (''sudo '' @ nm @ SP # tail) = ''sudo''" "after_word (''sudo '' @ nm @ SP # tail) = SP # nm @ SP # tail"
    by (simp_all add: first_word_def after_word_def is_blank4_def)
  have sp: "dropWhile is_blank2 (SP # nm @ SP # tail) = nm @ SP # tail" using d by (simp add: is_blank2_def)
  show ?thesis
    using assms(1,4,5) unfolding sysMonEmergencyPinBypass_def Let_def d sd sw sp fw by simp
qed

theorem emergency_bypass_any_tail_witness:
  "sysMonEmergencyPinBypass True [''reboot'', ''shutdown''] (''reboot'' @ SP # ''; rm -rf /'')"
  using emergency_bypass_any_tail [of "''reboot''" "[''reboot'', ''shutdown'']" "''; rm -rf /''"]
  by (simp add: is_blank4_def)

end
