(* ===== verification/GK_Control.thy ===== *)
theory GK_Control
  imports GK_SysMon GK_Platform GK_Address
begin

text \<open>
  The control server, \<open>control_server.h\<close> and \<open>control_server.cpp\<close>: the rate limiter, reading an HTTP
  request, authentication, routing, the handlers, and the resolution of \<open>/run\<close>. What a
  handler does outside the server (reload, change a refresh time, run a command) is an
  \<open>outcome\<close>, and the reply to it a function of the result. Reads of the socket are an argument.
\<close>

section \<open>Rate limiter\<close>

record rate_limiter =
  rl_window :: "string \<Rightarrow> int list"
  rl_maxConnections :: int
  rl_windowMs :: int

definition rate_limiter0 :: rate_limiter where
  "rate_limiter0 = \<lparr>rl_window = (\<lambda>_. []), rl_maxConnections = 20, rl_windowMs = 60000\<rparr>"

definition setRateLimit :: "int \<Rightarrow> int \<Rightarrow> rate_limiter \<Rightarrow> rate_limiter" where
  "setRateLimit maxConnections windowSeconds rl =
     rl\<lparr>rl_maxConnections := maxConnections, rl_windowMs := windowSeconds * 1000\<rparr>"

definition allow :: "string \<Rightarrow> int \<Rightarrow> rate_limiter \<Rightarrow> bool \<times> rate_limiter" where
  "allow ip now rl =
     (let ts = dropWhile (\<lambda>t. now - t \<ge> rl_windowMs rl) (rl_window rl ip)
      in if int (length ts) \<ge> rl_maxConnections rl then (False, rl\<lparr>rl_window := (rl_window rl)(ip := ts)\<rparr>)
         else (True, rl\<lparr>rl_window := (rl_window rl)(ip := ts @ [now])\<rparr>))"

section \<open>Text helpers\<close>

definition trim :: "string \<Rightarrow> string" where
  "trim s = rev (dropWhile is_space (rev (dropWhile is_space s)))"

definition to_lower :: "char \<Rightarrow> char" where
  "to_lower c = (if 65 \<le> code c \<and> code c \<le> 90 then char_of (code c + 32) else c)"

definition hexVal :: "char \<Rightarrow> nat option" where
  "hexVal c = (if is_digit c then Some (code c - 48)
     else if 97 \<le> code c \<and> code c \<le> 102 then Some (code c - 87)
     else if 65 \<le> code c \<and> code c \<le> 70 then Some (code c - 55) else None)"

fun urlDecode :: "string \<Rightarrow> string" where
  "urlDecode [] = []"
| "urlDecode (c # h # l # cs) =
     (if c = CHR ''%'' \<and> hexVal h \<noteq> None \<and> hexVal l \<noteq> None
      then char_of (16 * the (hexVal h) + the (hexVal l)) # urlDecode cs
      else c # urlDecode (h # l # cs))"
| "urlDecode (c # cs) = c # urlDecode cs"

text \<open>The pieces between the separators of a query.\<close>

fun split_on :: "char \<Rightarrow> string \<Rightarrow> string list" where
  "split_on d [] = [[]]"
| "split_on d (c # cs) =
     (if c = d then [] # split_on d cs
      else (case split_on d cs of [] \<Rightarrow> [[c]] | p # ps \<Rightarrow> (c # p) # ps))"

fun query_lookup :: "string \<Rightarrow> string list \<Rightarrow> string" where
  "query_lookup key [] = []"
| "query_lookup key (kv # kvs) =
     (let k = (case find_char (CHR ''='') kv of None \<Rightarrow> kv | Some eq \<Rightarrow> take eq kv)
      in if k = key then urlDecode (case find_char (CHR ''='') kv of None \<Rightarrow> [] | Some eq \<Rightarrow> drop (eq + 1) kv)
         else query_lookup key kvs)"

definition queryValue :: "string \<Rightarrow> string \<Rightarrow> string" where
  "queryValue path key =
     (case find_char (CHR ''?'') path of
        None \<Rightarrow> []
      | Some q \<Rightarrow> query_lookup key (split_on (CHR ''&'') (drop (q + 1) path)))"

section \<open>Reading a request\<close>

record http_request =
  rq_method :: string
  rq_path :: string
  rq_headers :: "string \<Rightarrow> string option"
  rq_body :: string

definition CRLF2 :: string where "CRLF2 = [CR, NL, CR, NL]"

text \<open>The header loop: an empty read is the end or an error; the text read and the reads left.\<close>

fun read_header :: "string list \<Rightarrow> string \<Rightarrow> string \<times> string list" where
  "read_header [] data = (data, [])"
| "read_header (r # rs) data =
     (if r = [] then (data, rs)
      else let d = data @ r
           in if find_sub CRLF2 d \<noteq> None then (d, rs)
              else if 8192 < length d then (d, rs) else read_header rs d)"

fun read_body :: "int \<Rightarrow> string list \<Rightarrow> string \<Rightarrow> string" where
  "read_body cl [] body = body"
| "read_body cl (r # rs) body =
     (if int (length body) \<ge> cl then body else if r = [] then body else read_body cl rs (body @ r))"

text \<open>\<open>std::getline\<close> until the stream is exhausted.\<close>

function getlines :: "string \<Rightarrow> string list" where
  "getlines s = (if s = [] then [] else takeWhile (\<lambda>c. c \<noteq> NL) s # getlines (drop 1 (dropWhile (\<lambda>c. c \<noteq> NL) s)))"
  by pat_completeness auto
termination
proof (relation "measure length")
  fix s :: string assume "s \<noteq> []"
  then show "(drop 1 (dropWhile (\<lambda>c. c \<noteq> NL) s), s) \<in> measure length"
    using length_dropWhile_le [of "\<lambda>c. c \<noteq> NL" s] by (cases s) (auto simp: less_Suc_eq_le intro: le_trans diff_le_self)
qed simp

declare getlines.simps [simp del]

fun header_lines :: "string list \<Rightarrow> (string \<Rightarrow> string option) \<Rightarrow> (string \<Rightarrow> string option)" where
  "header_lines [] hs = hs"
| "header_lines (l # ls) hs =
     (if l = [] \<or> l = [CR] then hs
      else (case find_char (CHR '':'') l of
              None \<Rightarrow> header_lines ls hs
            | Some colon \<Rightarrow>
                header_lines ls (hs(map to_lower (trim (take colon l)) \<mapsto> trim (drop (colon + 1) l)))))"

text \<open>\<open>BadRequest\<close> is the return of \<open>false\<close>; \<open>Throws\<close> the exception of \<open>std::stoi\<close> on a bad content length.\<close>

datatype parse_result = BadRequest | Throws | Parsed http_request

definition parseHttpRequest :: "string list \<Rightarrow> parse_result" where
  "parseHttpRequest reads =
     (let (data, rest) = read_header reads [];
          (header, body) = (case find_sub CRLF2 data of None \<Rightarrow> (data, []) | Some pos \<Rightarrow> (take pos data, drop (pos + 4) data))
      in case getlines header of
           [] \<Rightarrow> BadRequest
         | line # lines \<Rightarrow>
             (let ws = words_of line;
                  req = \<lparr>rq_method = (case ws of [] \<Rightarrow> [] | w # _ \<Rightarrow> w),
                         rq_path = (case ws of _ # p # _ \<Rightarrow> p | _ \<Rightarrow> []),
                         rq_headers = header_lines lines (\<lambda>_. None), rq_body = body\<rparr>
              in case rq_headers req ''content-length'' of
                   None \<Rightarrow> Parsed req
                 | Some l \<Rightarrow>
                     (case stoi l of
                        None \<Rightarrow> Throws
                      | Some cl \<Rightarrow> Parsed (req\<lparr>rq_body := read_body cl rest body\<rparr>))))"

section \<open>Responses\<close>

definition CRLF :: string where "CRLF = [CR, NL]"

definition http_response :: "int \<Rightarrow> string \<Rightarrow> string \<Rightarrow> string" where
  "http_response status contentType body =
     ''HTTP/1.1 '' @ to_string status @ '' OK'' @ CRLF @ ''Content-Type: '' @ contentType @ CRLF
     @ ''Content-Length: '' @ to_string (int (length body)) @ CRLF @ ''Connection: close'' @ CRLF @ CRLF @ body"

definition cors_response :: "int \<Rightarrow> string \<Rightarrow> string" where
  "cors_response status body =
     ''HTTP/1.1 '' @ to_string status @ '' OK'' @ CRLF @ ''Content-Type: application/json; charset=utf-8'' @ CRLF
     @ ''Access-Control-Allow-Origin: *'' @ CRLF @ ''Cache-Control: no-store'' @ CRLF
     @ ''Content-Length: '' @ to_string (int (length body)) @ CRLF @ ''Connection: close'' @ CRLF @ CRLF @ body"

definition json_response :: "string \<Rightarrow> string" where
  "json_response body = http_response 200 ''application/json'' body"

definition error_response :: "int \<Rightarrow> string \<Rightarrow> string" where
  "error_response status message = http_response status ''application/json'' (''{\"error\":\"'' @ message @ ''\"}'')"

text \<open>\<open>jsonEscape\<close>: control characters without a short form become four hexadecimal digits.\<close>

definition json_escape_char :: "char \<Rightarrow> string" where
  "json_escape_char c =
     (if c = DQ then [BS, DQ] else if c = BS then [BS, BS]
      else if c = CHR 0x08 then [BS, CHR ''b''] else if c = CHR 0x0C then [BS, CHR ''f'']
      else if c = NL then [BS, CHR ''n''] else if c = CR then [BS, CHR ''r''] else if c = TAB then [BS, CHR ''t'']
      else if code c < 32 then BS # ''u00'' @ [hexc (code c div 16), hexc (code c mod 16)]
      else [c])"

definition jsonEscape :: "string \<Rightarrow> string" where
  "jsonEscape s = concat (map json_escape_char s)"

section \<open>Authentication\<close>

definition checkAuth :: "control_config \<Rightarrow> http_request \<Rightarrow> bool" where
  "checkAuth cfg req =
     (if ca_type (ct_auth cfg) \<noteq> ''token'' then True
      else (case rq_headers req ''x-auth-token'' of None \<Rightarrow> False | Some t \<Rightarrow> t = ca_token (ct_auth cfg)))"

text \<open>The comparison loop of \<open>verifyPin\<close>, over the longer of the two texts.\<close>

definition byte_at :: "string \<Rightarrow> nat \<Rightarrow> 8 word" where
  "byte_at s i = (if i < length s then word_of_nat (code (s ! i)) else 0)"

definition pin_diff :: "string \<Rightarrow> string \<Rightarrow> 8 word" where
  "pin_diff pin expected =
     foldl (\<lambda>d i. or d (xor (byte_at pin i) (byte_at expected i))) 0 [0..<max (length pin) (length expected)]"

definition verifyPin :: "control_config \<Rightarrow> string \<Rightarrow> bool" where
  "verifyPin cfg pin =
     (if ct_pin cfg = [] then False else if pin = [] then False
      else pin_diff pin (ct_pin cfg) = 0 \<and> length pin = length (ct_pin cfg))"

section \<open>Commands\<close>

datatype run_resolution = RunErr int string | RunCmd string bool

definition STREAM_MARK :: string where "STREAM_MARK = CHR 0x01 # ''STREAM'' @ [CHR 0x01]"

text \<open>\<open>resolveRun\<close>; \<open>bypass\<close> is \<open>sysMonEmergencyPinBypass\<close>. \<open>None\<close> when the JSON reader does not end.\<close>

definition resolve_json :: "control_config \<Rightarrow> (string \<Rightarrow> bool) \<Rightarrow> json \<Rightarrow> run_resolution" where
  "resolve_json cfg bypass body =
     (if \<not> is_obj body then RunErr 400 ''invalid JSON body''
      else let nm = get_str body ''name'' []; cmd = get_str body ''command'' []; wantStream = get_bool body ''stream'' False
           in if nm \<noteq> [] then
                (case find (\<lambda>c. cc_name c = nm) (ct_commands cfg) of
                   Some c \<Rightarrow> RunCmd (if wantStream then STREAM_MARK @ cc_command c else cc_command c) True
                 | None \<Rightarrow> RunErr 404 (''unknown command name: '' @ nm))
              else if cmd = [] then RunErr 400 (''missing '' @ [SQ] @ ''name'' @ [SQ] @ '' or '' @ [SQ] @ ''command'' @ [SQ])
              else if \<not> verifyPin cfg (get_str body ''pin'' []) \<and> \<not> bypass cmd then RunErr 401 ''PIN required or incorrect''
              else RunCmd (if wantStream then STREAM_MARK @ cmd else cmd) False)"

definition resolveRun :: "control_config \<Rightarrow> (string \<Rightarrow> bool) \<Rightarrow> http_request \<Rightarrow> run_resolution option" where
  "resolveRun cfg bypass req = map_option (resolve_json cfg bypass) (parse_json (rq_body req))"

section \<open>The server's view of the rest of the program\<close>

record relay_view =
  rv_id :: nat
  rv_name :: string
  rv_listen :: string
  rv_running :: bool

record server_env =
  en_config :: control_config
  en_refreshToken :: string
  en_relays :: "relay_view list"
  en_version :: string
  en_sysmon :: "system_monitor_config option"
  en_loop :: loop_state
  en_procs :: "proc_mem list"

text \<open>Whether the sampler exists and is enabled.\<close>

definition sysmon_on :: "server_env \<Rightarrow> bool" where
  "sysmon_on env = (case en_sysmon env of None \<Rightarrow> False | Some c \<Rightarrow> sm_enabled c)"

definition env_bypass :: "server_env \<Rightarrow> string \<Rightarrow> bool" where
  "env_bypass env cmd =
     (case en_sysmon env of
        None \<Rightarrow> False
      | Some c \<Rightarrow> sysMonEmergencyPinBypass (ls_emergency (en_loop env)) (sm_emergencyCommands c) cmd)"

section \<open>Handlers\<close>

text \<open>What handling a request comes to.\<close>

datatype outcome =
    Reply string
  | Reload
  | SetRefresh nat int
  | RunSync string
  | RunStream string
  | Diverges

definition status_entry :: "relay_view \<Rightarrow> string" where
  "status_entry r = ''{\"name\":\"'' @ rv_name r @ ''\",\"running\":'' @ (if rv_running r then ''true'' else ''false'') @ ''}''"

fun comma_sep :: "string list \<Rightarrow> string" where
  "comma_sep [] = []"
| "comma_sep [x] = x"
| "comma_sep (x # y # xs) = x @ '','' @ comma_sep (y # xs)"

definition handleStatus :: "server_env \<Rightarrow> string" where
  "handleStatus env = json_response (''{\"ports\":['' @ comma_sep (map status_entry (en_relays env)) @ '']}'')"

text \<open>\<open>fmt\<close> is \<open>printf("%.2f")\<close>.\<close>

definition handleSysInfo :: "(rat \<Rightarrow> string) \<Rightarrow> server_env \<Rightarrow> string" where
  "handleSysInfo fmt env =
     (if \<not> sysmon_on env then json_response ''{\"enabled\":false}''
      else let m = ls_metrics (en_loop env); n = (\<lambda>i. to_string i)
           in json_response (''{\"enabled\":true,\"cpu_percent\":'' @ (if mx_cpuValid m then fmt (mx_cpuPercent m) else ''null'')
                @ '',\"memory\":{\"total\":'' @ n (mx_memTotal m) @ '',\"available\":'' @ n (mx_memAvailable m)
                @ '',\"used\":'' @ n (mx_memUsed m) @ '',\"percent\":'' @ fmt (mx_memPercent m) @ ''}''
                @ (if mx_swapValid m then '',\"swap\":{\"total\":'' @ n (mx_swapTotal m) @ '',\"used\":'' @ n (mx_swapUsed m)
                     @ '',\"percent\":'' @ fmt (mx_swapPercent m) @ ''}'' else '',\"swap\":null'')
                @ '',\"mode\":\"'' @ (if ls_fast (en_loop env) then ''fast'' else ''normal'') @ ''\"''
                @ '',\"emergency\":'' @ (if ls_emergency (en_loop env) then ''true'' else ''false'') @ ''}''))"

definition procs_limit :: "string \<Rightarrow> int" where
  "procs_limit path =
     (let l = (case find_char (CHR ''?'') path of
                 None \<Rightarrow> 10
               | Some q \<Rightarrow>
                   (let qs = drop (q + 1) path
                    in case find_char (CHR ''='') qs of
                         None \<Rightarrow> 10
                       | Some eq \<Rightarrow> if take eq qs = ''limit'' then (case stoi (drop (eq + 1) qs) of None \<Rightarrow> 10 | Some v \<Rightarrow> v) else 10))
      in min 100 (max 1 l))"

definition proc_json :: "proc_mem \<Rightarrow> string" where
  "proc_json p = ''{\"pid\":'' @ to_string (pm_pid p) @ '',\"name\":\"'' @ jsonEscape (pm_name p) @ ''\",\"rss\":'' @ to_string (pm_rss p)
     @ '',\"vms\":'' @ to_string (pm_vms p) @ ''}''"

text \<open>\<open>std::sort\<close> leaves equal sizes in any order; the model keeps the order of the list.\<close>

definition top_procs :: "int \<Rightarrow> proc_mem list \<Rightarrow> proc_mem list" where
  "top_procs limit ps = take (nat limit) (sort_key (\<lambda>p. - pm_rss p) ps)"

definition handleProcs :: "server_env \<Rightarrow> http_request \<Rightarrow> string" where
  "handleProcs env req =
     (if \<not> sysmon_on env then json_response ''{\"enabled\":false}''
      else json_response (''{\"procs\":['' @ comma_sep (map proc_json (top_procs (procs_limit (rq_path req)) (en_procs env))) @ '']}''))"

text \<open>The C string \<open>strtol\<close> sees, and its test that the whole of it is a number.\<close>

definition cstr :: "string \<Rightarrow> string" where
  "cstr s = takeWhile (\<lambda>c. c \<noteq> CHR 0x00) s"

definition whole_long :: "string \<Rightarrow> int option" where
  "whole_long s = (case strtol (cstr s) of None \<Rightarrow> None | Some (v, r) \<Rightarrow> if r = [] then Some v else None)"

definition clamp3600 :: "int \<Rightarrow> int" where
  "clamp3600 v = (if v > 3600 then 3600 else if v < - 3600 then - 3600 else v)"

definition find_relay :: "string \<Rightarrow> string \<Rightarrow> relay_view list \<Rightarrow> relay_view option" where
  "find_relay listen nm rs =
     (case (if listen = [] then None else find (\<lambda>r. rv_listen r = listen) rs) of
        Some r \<Rightarrow> Some r
      | None \<Rightarrow> if nm = [] then None else find (\<lambda>r. rv_name r = nm) rs)"

definition handleRefresh :: "server_env \<Rightarrow> http_request \<Rightarrow> outcome" where
  "handleRefresh env req =
     (let token = queryValue (rq_path req) ''token''
      in if en_refreshToken env = [] \<or> token = [] \<or> token \<noteq> en_refreshToken env
         then Reply (cors_response 401 ''{\"error\":\"Unauthorized\"}'')
         else (case whole_long (queryValue (rq_path req) ''secs'') of
                 None \<Rightarrow> Reply (cors_response 400 ''{\"error\":\"invalid secs\"}'')
               | Some v \<Rightarrow>
                   (case find_relay (queryValue (rq_path req) ''listen'') (queryValue (rq_path req) ''name'') (en_relays env) of
                      None \<Rightarrow> Reply (cors_response 404 ''{\"error\":\"relay not found\"}'')
                    | Some r \<Rightarrow> SetRefresh (rv_id r) (clamp3600 v))))"

definition refresh_reply :: "bool \<Rightarrow> int \<Rightarrow> string" where
  "refresh_reply ok secs =
     cors_response 200 (if ok then ''{\"ok\":true,\"refresh_seconds\":'' @ to_string secs @ ''}''
                        else ''{\"ok\":false,\"error\":\"persist failed\"}'')"

record reload_summary =
  rs_added :: "string list"
  rs_removed :: "string list"
  rs_modified :: "string list"
  rs_success :: bool

definition reload_reply :: "reload_summary \<Rightarrow> string" where
  "reload_reply s =
     (if rs_success s then
        json_response (''{\"result\":\"reload completed\",\"added\":'' @ to_string (int (length (rs_added s)))
          @ '',\"removed\":'' @ to_string (int (length (rs_removed s)))
          @ '',\"modified\":'' @ to_string (int (length (rs_modified s))) @ ''}'')
      else error_response 400 ''Reload failed'')"

definition handleRun :: "server_env \<Rightarrow> http_request \<Rightarrow> outcome" where
  "handleRun env req =
     (case resolveRun (en_config env) (env_bypass env) req of
        None \<Rightarrow> Diverges
      | Some (RunErr status msg) \<Rightarrow> Reply (error_response status msg)
      | Some (RunCmd cmd preset) \<Rightarrow>
          if 8 < length cmd \<and> take 8 cmd = STREAM_MARK then RunStream (drop 8 cmd) else RunSync cmd)"

text \<open>The routes, in the order of \<open>handleRequest\<close>.\<close>

definition handle_parsed :: "(rat \<Rightarrow> string) \<Rightarrow> server_env \<Rightarrow> http_request \<Rightarrow> outcome" where
  "handle_parsed fmt env req =
     (if rq_method req = ''GET'' \<and> (rq_path req = ''/__set_refresh'' \<or> starts_with ''/__set_refresh?'' (rq_path req))
      then handleRefresh env req
      else if \<not> checkAuth (en_config env) req then Reply (error_response 401 ''Unauthorized'')
      else if rq_method req = ''GET'' \<and> rq_path req = ''/health'' then Reply (json_response ''{\"status\":\"ok\"}'')
      else if rq_method req = ''GET'' \<and> rq_path req = ''/version''
           then Reply (json_response (''{\"version\":\"'' @ en_version env @ ''\"}''))
      else if rq_method req = ''GET'' \<and> rq_path req = ''/status'' then Reply (handleStatus env)
      else if rq_method req = ''GET'' \<and> rq_path req = ''/sysinfo'' then Reply (handleSysInfo fmt env)
      else if rq_method req = ''GET'' \<and> (rq_path req = ''/procs'' \<or> starts_with ''/procs?'' (rq_path req))
           then Reply (handleProcs env req)
      else if rq_method req = ''POST'' \<and> rq_path req = ''/reload'' then Reload
      else if rq_method req = ''POST'' \<and> rq_path req = ''/run'' then handleRun env req
      else Reply (error_response 404 ''Not Found''))"

definition handleRequest :: "(rat \<Rightarrow> string) \<Rightarrow> server_env \<Rightarrow> string list \<Rightarrow> outcome" where
  "handleRequest fmt env reads =
     (case parseHttpRequest reads of
        BadRequest \<Rightarrow> Reply (error_response 400 ''Bad Request'')
      | Throws \<Rightarrow> Reply (error_response 400 ''Bad Request'')
      | Parsed req \<Rightarrow> handle_parsed fmt env req)"

text \<open>One accepted connection of \<open>serverLoop\<close>.\<close>

definition serve_client :: "(rat \<Rightarrow> string) \<Rightarrow> server_env \<Rightarrow> string \<Rightarrow> int \<Rightarrow> string list \<Rightarrow> rate_limiter \<Rightarrow> outcome \<times> rate_limiter" where
  "serve_client fmt env ip now reads rl =
     (let (ok, rl') = allow ip now rl
      in (if ok then handleRequest fmt env reads else Reply (error_response 429 ''Too Many Requests''), rl'))"

section \<open>Running a command\<close>

definition run_sync_reply :: "int \<Rightarrow> string \<Rightarrow> string" where
  "run_sync_reply exitCode output =
     json_response (''{\"exit_code\":'' @ to_string exitCode @ '',\"stdout\":\"'' @ jsonEscape output @ ''\"''
       @ '',\"truncated\":'' @ (if 65536 \<le> length output then ''true'' else ''false'') @ ''}'')"

text \<open>\<open>runSync\<close> on the rounds of the capture; \<open>None\<close> when it never returns.\<close>

definition runSync :: "bool \<Rightarrow> (int \<times> poll_out) list \<Rightarrow> child_end \<Rightarrow> string option" where
  "runSync started rounds child =
     map_option (\<lambda>(ec, out, _). run_sync_reply ec out) (runShellCommand started 65536 rounds child)"

definition stream_header :: string where
  "stream_header = ''HTTP/1.1 200 OK'' @ CRLF @ ''Content-Type: text/plain; charset=utf-8'' @ CRLF
     @ ''Transfer-Encoding: chunked'' @ CRLF @ ''Connection: close'' @ CRLF @ CRLF"

definition stream_term :: "int \<Rightarrow> string" where
  "stream_term ec = (if ec = - 2 then ''[timeout]'' @ CRLF else ''[exit='' @ to_string ec @ '']'' @ CRLF)"

text \<open>The bytes a streaming thread writes: the frames of the output and the closing frame.\<close>

definition runStream :: "bool \<Rightarrow> (int \<times> stream_event) list \<Rightarrow> nat option \<Rightarrow> string" where
  "runStream started rounds reaped =
     (let (frames, ec, _) = runShellStream started rounds reaped
      in concat frames @ hex_len (length (stream_term ec)) @ CRLF @ stream_term ec @ CRLF @ ''0'' @ CRLF @ CRLF)"

end
