(* ===== verification/GK_ControlProps.thy ===== *)
theory GK_ControlProps
  imports GK_Control
begin

text \<open>
  What the control server promises: the rate limit holds in every window, the PIN comparison is
  equality, nothing is run and nothing reloaded without authentication, ad-hoc commands need the PIN
  or the emergency, the wait page's route only changes a refresh time, and the text encodings read back.
\<close>

section \<open>Rate limit\<close>

text \<open>
  The limiter with the times it accepted per address; an event is an address and the milliseconds since the last event.
\<close>

type_synonym limiter_hist = "rate_limiter \<times> (string \<Rightarrow> int list) \<times> int"

definition lim_step :: "limiter_hist \<Rightarrow> string \<times> nat \<Rightarrow> limiter_hist" where
  "lim_step s e =
     (case s of (rl, acc, prv) \<Rightarrow>
        let now = prv + int (snd e); (ok, rl') = allow (fst e) now rl
        in (rl', if ok then acc(fst e := acc (fst e) @ [now]) else acc, now))"

definition spaced :: "nat \<Rightarrow> int \<Rightarrow> int list \<Rightarrow> bool" where
  "spaced k w ts \<longleftrightarrow> (\<forall>i. i + k < length ts \<longrightarrow> ts ! (i + k) - ts ! i \<ge> w)"

definition lim_inv :: "int \<Rightarrow> int \<Rightarrow> limiter_hist \<Rightarrow> bool" where
  "lim_inv mx w s \<longleftrightarrow>
     (case s of (rl, acc, prv) \<Rightarrow>
        rl_maxConnections rl = mx \<and> rl_windowMs rl = w \<and>
        (\<forall>ip. spaced (nat mx) w (acc ip) \<and>
           (\<exists>p. acc ip = p @ rl_window rl ip \<and> (\<forall>t \<in> set p. prv - t \<ge> w))))"

lemma spaced_append:
  assumes "spaced k w (p @ q)" and "\<forall>t \<in> set p. now - t \<ge> w" and "length q < k"
  shows "spaced k w (p @ q @ [now])"
  unfolding spaced_def
proof (intro allI impI)
  fix i assume i: "i + k < length (p @ q @ [now])"
  show "w \<le> (p @ q @ [now]) ! (i + k) - (p @ q @ [now]) ! i"
  proof (cases "i + k < length (p @ q)")
    case True
    then have "(p @ q @ [now]) ! (i + k) = (p @ q) ! (i + k)" "(p @ q @ [now]) ! i = (p @ q) ! i"
      by (simp_all add: nth_append flip: append_assoc)
    then show ?thesis using assms(1) True by (simp add: spaced_def)
  next
    case False
    then have e: "i + k = length (p @ q)" using i by simp
    then have "i < length p" using assms(3) by simp
    moreover have "(p @ q @ [now]) ! (i + k) = now" unfolding e by (metis append_assoc nth_append_length)
    ultimately show ?thesis using assms(2) by (simp add: nth_append)
  qed
qed

lemma lim_inv_step:
  assumes "lim_inv mx w s"
  shows "lim_inv mx w (lim_step s e)"
proof -
  obtain rl acc prv where s: "s = (rl, acc, prv)" by (cases s) auto
  obtain ip d where e: "e = (ip, d)" by (cases e) auto
  let ?now = "prv + int d"
  let ?old = "takeWhile (\<lambda>t. ?now - t \<ge> w) (rl_window rl ip)"
  let ?ts = "dropWhile (\<lambda>t. ?now - t \<ge> w) (rl_window rl ip)"
  have mw: "rl_maxConnections rl = mx" "rl_windowMs rl = w" using assms s by (simp_all add: lim_inv_def)
  have acc: "spaced (nat mx) w (acc ip')" "\<exists>p. acc ip' = p @ rl_window rl ip' \<and> (\<forall>t \<in> set p. ?now - t \<ge> w)" for ip'
    using assms s by (auto simp: lim_inv_def) fastforce
  then obtain p where p: "acc ip = p @ rl_window rl ip" "\<forall>t \<in> set p. ?now - t \<ge> w" by blast
  have split: "acc ip = (p @ ?old) @ ?ts" "\<forall>t \<in> set (p @ ?old). ?now - t \<ge> w"
    using p by (auto dest: set_takeWhileD)
  show ?thesis
  proof (cases "int (length ?ts) \<ge> mx")
    case True
    then have st: "lim_step s e = (rl\<lparr>rl_window := (rl_window rl)(ip := ?ts)\<rparr>, acc, ?now)"
      by (simp add: lim_step_def s e allow_def mw Let_def)
    have "\<exists>p'. acc ip = p' @ ?ts \<and> (\<forall>t \<in> set p'. ?now - t \<ge> w)" using split by (intro exI [of _ "p @ ?old"]) simp
    then show ?thesis unfolding st lim_inv_def using acc mw by auto
  next
    case False
    then have st: "lim_step s e = (rl\<lparr>rl_window := (rl_window rl)(ip := ?ts @ [?now])\<rparr>, acc(ip := acc ip @ [?now]), ?now)"
      by (simp add: lim_step_def s e allow_def mw Let_def)
    have "length ?ts < nat mx" using False by linarith
    then have "spaced (nat mx) w ((p @ ?old) @ ?ts @ [?now])"
      by (rule spaced_append [OF acc(1) [of ip, unfolded split(1)] split(2)])
    then have "spaced (nat mx) w (acc ip @ [?now])" by (subst split(1)) (simp only: append_assoc)
    moreover have "\<exists>p'. acc ip @ [?now] = p' @ ?ts @ [?now] \<and> (\<forall>t \<in> set p'. ?now - t \<ge> w)"
      using split by (intro exI [of _ "p @ ?old"]) simp
    ultimately show ?thesis unfolding st lim_inv_def using acc mw by auto
  qed
qed

interpretation limiter: machine_inv lim_step "lim_inv mx w" for mx w
  by unfold_locales (rule lim_inv_step)

text \<open>
  The rate limit holds in every window: of the connections accepted from one address, any one and the one
  \<open>max_connections\<close> places later are at least the window apart, whatever other addresses do.
\<close>
theorem rate_limit_window:
  assumes "foldl lim_step (setRateLimit mx secs rate_limiter0, (\<lambda>_. []), t0) es = (rl, acc, t1)"
    and "i + nat mx < length (acc ip)"
  shows "acc ip ! (i + nat mx) - acc ip ! i \<ge> secs * 1000"
proof -
  have "lim_inv mx (secs * 1000) (setRateLimit mx secs rate_limiter0, (\<lambda>_. []), t0)"
    by (simp add: lim_inv_def setRateLimit_def rate_limiter0_def spaced_def)
  from limiter.run_inv [OF this, of es] assms(1) have "lim_inv mx (secs * 1000) (rl, acc, t1)" by simp
  then show ?thesis using assms(2) by (simp add: lim_inv_def spaced_def)
qed

theorem rate_limit_window_witness:
  "\<exists>rl acc t1. foldl lim_step (setRateLimit 1 1 rate_limiter0, (\<lambda>_. []), 0) [(''a'', 5), (''a'', 10), (''a'', 2000)] = (rl, acc, t1) \<and>
     acc ''a'' ! 1 - acc ''a'' ! 0 \<ge> 1000"
proof -
  let ?es = "[(''a'', 5), (''a'', 10), (''a'', 2000)] :: (string \<times> nat) list"
  obtain rl acc t1 where f: "foldl lim_step (setRateLimit 1 1 rate_limiter0, (\<lambda>_. []), 0) ?es = (rl, acc, t1)"
    by (cases "foldl lim_step (setRateLimit 1 1 rate_limiter0, (\<lambda>_. []), 0) ?es") auto
  then have "acc ''a'' = [5, 2015]"
    by (auto simp: lim_step_def allow_def setRateLimit_def rate_limiter0_def Let_def)
  with rate_limit_window [OF f, of 0 "''a''"] f show ?thesis by auto
qed

section \<open>The PIN\<close>

lemma or_eq_0: "or a b = 0 \<longleftrightarrow> a = 0 \<and> b = (0 :: 8 word)"
  by (auto simp: bit_eq_iff bit_or_iff)

lemma pin_diff_foldl:
  "foldl (\<lambda>d i. or d (f i)) d0 is = 0 \<longleftrightarrow> d0 = 0 \<and> (\<forall>i \<in> set is. f i = (0 :: 8 word))"
  by (induction "is" arbitrary: d0) (auto simp: or_eq_0)

lemma xor_eq_0: "xor a b = 0 \<longleftrightarrow> a = (b :: 8 word)"
  by (auto simp: bit_eq_iff bit_xor_iff)

lemma byte_eq: "word_of_nat (code a) = (word_of_nat (code b) :: 8 word) \<longleftrightarrow> a = b"
proof
  assume "word_of_nat (code a) = (word_of_nat (code b) :: 8 word)"
  then have "unat (word_of_nat (code a) :: 8 word) = unat (word_of_nat (code b) :: 8 word)" by simp
  then have "code a mod 256 = code b mod 256" by (simp add: unat_of_nat)
  then show "a = b" by (metis char_of_char of_char_mod_256)
qed simp

lemma verifyPin_eq: "verifyPin cfg pin \<longleftrightarrow> ct_pin cfg \<noteq> [] \<and> pin = ct_pin cfg"
proof -
  have "pin_diff pin e = 0 \<and> length pin = length e \<longleftrightarrow> pin = e" for e
  proof
    assume d: "pin_diff pin e = 0 \<and> length pin = length e"
    then have "\<forall>i < length pin. byte_at pin i = byte_at e i"
      by (auto simp: pin_diff_def pin_diff_foldl xor_eq_0)
    then have "\<forall>i < length pin. pin ! i = e ! i" using d by (simp add: byte_at_def byte_eq)
    then show "pin = e" using d by (simp add: list_eq_iff_nth_eq)
  next
    have "pin_diff e e = 0" unfolding pin_diff_def pin_diff_foldl by simp
    moreover assume "pin = e"
    ultimately show "pin_diff pin e = 0 \<and> length pin = length e" by simp
  qed
  then show ?thesis by (auto simp: verifyPin_def)
qed

text \<open>
  The constant-time comparison decides equality: a PIN is accepted exactly when one is configured and
  the given one is the same text.
\<close>
theorem verifyPin_iff: "verifyPin cfg pin \<longleftrightarrow> ct_pin cfg \<noteq> [] \<and> pin = ct_pin cfg"
  by (rule verifyPin_eq)

section \<open>What may be run\<close>

lemma take_drop_mark: "take 8 s = STREAM_MARK \<Longrightarrow> s = STREAM_MARK @ drop 8 s"
  by (metis append_take_drop_id)

text \<open>The commands a request may run, from its body and the configuration.\<close>

definition run_allowed :: "control_config \<Rightarrow> (string \<Rightarrow> bool) \<Rightarrow> json \<Rightarrow> string \<Rightarrow> bool" where
  "run_allowed cfg bypass body full \<longleftrightarrow>
     (\<exists>c \<in> set (ct_commands cfg). cc_name c = get_str body ''name'' [] \<and> cc_name c \<noteq> [] \<and>
        (full = cc_command c \<or> full = STREAM_MARK @ cc_command c)) \<or>
     (get_str body ''name'' [] = [] \<and>
        (full = get_str body ''command'' [] \<or> full = STREAM_MARK @ get_str body ''command'' []) \<and>
        (ct_pin cfg \<noteq> [] \<and> get_str body ''pin'' [] = ct_pin cfg \<or> bypass (get_str body ''command'' [])))"

lemma resolve_json_allowed:
  assumes "resolve_json cfg bypass body = RunCmd full preset"
  shows "run_allowed cfg bypass body full"
proof (cases "get_str body ''name'' [] = []")
  case True
  then show ?thesis using assms
    by (auto simp: resolve_json_def run_allowed_def verifyPin_eq Let_def split: if_splits)
next
  case False
  then obtain c where c: "find (\<lambda>c. cc_name c = get_str body ''name'' []) (ct_commands cfg) = Some c"
      "full = (if get_bool body ''stream'' False then STREAM_MARK @ cc_command c else cc_command c)"
    using assms by (auto simp: resolve_json_def Let_def split: if_splits option.splits)
  then have "c \<in> set (ct_commands cfg)" "cc_name c = get_str body ''name'' []"
    by (auto simp: find_Some_iff)
  then show ?thesis using c(2) False unfolding run_allowed_def by auto
qed

text \<open>
  C1: nothing runs without permission: when handling a request comes to running a command, the request is an authenticated POST to
  \<open>/run\<close>, and the command is a configured preset the body names, or the body's own command
  with the configured PIN or under the emergency rule.
\<close>
theorem run_needs_permission:
  assumes "handle_parsed fmt env req = RunSync cmd \<or> handle_parsed fmt env req = RunStream cmd"
  shows "checkAuth (en_config env) req \<and> rq_method req = ''POST'' \<and> rq_path req = ''/run'' \<and>
    (\<exists>body. parse_json (rq_body req) = Some body \<and>
       (run_allowed (en_config env) (env_bypass env) body cmd \<or>
        run_allowed (en_config env) (env_bypass env) body (STREAM_MARK @ cmd)))"
proof -
  have nr: "handleRefresh env req \<noteq> RunSync cmd" "handleRefresh env req \<noteq> RunStream cmd"
    by (auto simp: handleRefresh_def Let_def split: option.splits)
  from assms nr have a: "checkAuth (en_config env) req" "rq_method req = ''POST''" "rq_path req = ''/run''"
    and h: "handleRun env req = RunSync cmd \<or> handleRun env req = RunStream cmd"
    by (auto simp: handle_parsed_def split: if_splits)
  from h obtain full preset body where b: "parse_json (rq_body req) = Some body"
      "resolve_json (en_config env) (env_bypass env) body = RunCmd full preset"
      "full = cmd \<or> (take 8 full = STREAM_MARK \<and> cmd = drop 8 full)"
    by (auto simp: handleRun_def resolveRun_def split: option.splits run_resolution.splits if_splits)
  from b(3) have "full = cmd \<or> full = STREAM_MARK @ cmd" using take_drop_mark by blast
  then show ?thesis using a b(1) resolve_json_allowed [OF b(2)] by blast
qed

text \<open>
  C2: the token gates everything but the wait page's route: with token authentication and a wrong or missing
  token, the outcome is the 401 reply, or that of the refresh route.
\<close>
theorem no_token_no_action:
  assumes "ca_type (ct_auth (en_config env)) = ''token''"
    and "rq_headers req ''x-auth-token'' \<noteq> Some (ca_token (ct_auth (en_config env)))"
  shows "handle_parsed fmt env req = Reply (error_response 401 ''Unauthorized'') \<or>
    (rq_method req = ''GET'' \<and> starts_with ''/__set_refresh'' (rq_path req) \<and> handle_parsed fmt env req = handleRefresh env req)"
proof -
  have "\<not> checkAuth (en_config env) req" using assms by (auto simp: checkAuth_def split: option.splits)
  moreover have "starts_with ''/__set_refresh?'' p \<Longrightarrow> starts_with ''/__set_refresh'' p" for p
    by (auto simp: starts_with_iff)
  ultimately show ?thesis by (auto simp: handle_parsed_def)
qed

text \<open>
  The wait page's route can do one thing: it changes a refresh time only for the server's own refresh token, only of a
  relay the server has, and only to a value between -3600 and 3600.
\<close>
theorem refresh_route_limits:
  assumes "handle_parsed fmt env req = SetRefresh i secs"
  shows "en_refreshToken env \<noteq> [] \<and> queryValue (rq_path req) ''token'' = en_refreshToken env \<and>
    (\<exists>r \<in> set (en_relays env). rv_id r = i) \<and> - 3600 \<le> secs \<and> secs \<le> 3600"
proof -
  have "handleRun env req \<noteq> SetRefresh i secs"
    by (auto simp: handleRun_def split: option.splits run_resolution.splits)
  then have h: "handleRefresh env req = SetRefresh i secs"
    using assms by (auto simp: handle_parsed_def split: if_splits)
  have fr: "find_relay l n rs = Some r \<Longrightarrow> r \<in> set rs" for l n rs r
    by (auto simp: find_relay_def find_Some_iff split: option.splits if_splits)
  from h obtain r v where r: "find_relay (queryValue (rq_path req) ''listen'') (queryValue (rq_path req) ''name'') (en_relays env) = Some r"
      "i = rv_id r" "secs = clamp3600 v" "en_refreshToken env \<noteq> []"
      "queryValue (rq_path req) ''token'' = en_refreshToken env"
    by (auto simp: handleRefresh_def Let_def split: option.splits if_splits)
  then show ?thesis using fr [OF r(1)] by (auto simp: clamp3600_def)
qed

text \<open>
  In the emergency state the PIN does not protect the shell: a request without any PIN that names no preset and whose
  command begins with a listed emergency word is resolved to that command, whatever follows the word.
\<close>
theorem emergency_runs_any_tail:
  assumes "sysMonEmergencyPinBypass True names cmd" and "cmd \<noteq> []"
  shows "resolve_json cfg (sysMonEmergencyPinBypass True names) (JObj [(''command'', JStr cmd)]) = RunCmd cmd False"
  using assms by (simp add: resolve_json_def Let_def)

theorem emergency_runs_any_tail_witness:
  "resolve_json default_control (sysMonEmergencyPinBypass True [''reboot'']) (JObj [(''command'', JStr ''reboot --help; id'')])
     = RunCmd ''reboot --help; id'' False"
proof -
  have "sysMonEmergencyPinBypass True [''reboot''] ''reboot --help; id''"
    by (simp add: sysMonEmergencyPinBypass_def is_blank2_def first_word_def is_blank4_def)
  then show ?thesis by (rule emergency_runs_any_tail) simp
qed

text \<open>
  An authentication type other than the two documented ones turns authentication off.
\<close>
theorem unknown_auth_type_is_open:
  assumes "ca_type (ct_auth cfg) \<noteq> ''token''"
  shows "checkAuth cfg req"
  using assms by (simp add: checkAuth_def)

text \<open>
  The route \<open>POST /config\<close> does not exist: an authenticated request to it is answered with 404.
\<close>
theorem config_route_missing:
  assumes "checkAuth (en_config env) req" and "rq_method req = ''POST''" and "rq_path req = ''/config''"
  shows "handle_parsed fmt env req = Reply (error_response 404 ''Not Found'')"
  using assms by (simp add: handle_parsed_def)

section \<open>Sample requests\<close>

definition sample_env :: server_env where
  "sample_env = \<lparr>en_config = default_control\<lparr>ct_auth := \<lparr>ca_type = ''token'', ca_token = ''s3cret''\<rparr>,
       ct_commands := [\<lparr>cc_name = ''disk'', cc_command = ''df -h''\<rparr>]\<rparr>,
     en_refreshToken = ''abc'', en_relays = [\<lparr>rv_id = 7, rv_name = ''web'', rv_listen = '':80'', rv_running = True\<rparr>],
     en_version = ''1'', en_sysmon = None, en_loop = loop_init zero_metrics, en_procs = []\<rparr>"

definition sample_req :: "string \<Rightarrow> string \<Rightarrow> string option \<Rightarrow> string \<Rightarrow> http_request" where
  "sample_req meth path tok body = \<lparr>rq_method = meth, rq_path = path,
     rq_headers = (\<lambda>h. if h = ''x-auth-token'' then tok else None), rq_body = body\<rparr>"

lemma sample_run:
  "handle_parsed fmt sample_env (sample_req ''POST'' ''/run'' (Some ''s3cret'') ''{\"name\":\"disk\"}'') = RunSync ''df -h''"
proof -
  have "parse_json ''{\"name\":\"disk\"}'' = Some (JObj [(''name'', JStr ''disk'')])" by code_simp
  then show ?thesis
    by (simp add: handle_parsed_def sample_env_def sample_req_def checkAuth_def handleRun_def resolveRun_def resolve_json_def
        STREAM_MARK_def default_control_def)
qed

theorem run_needs_permission_witness:
  "checkAuth (en_config sample_env) (sample_req ''POST'' ''/run'' (Some ''s3cret'') ''{\"name\":\"disk\"}'')"
  using run_needs_permission [OF disjI1 [OF sample_run]] by blast

theorem no_token_no_action_witness:
  "handle_parsed (\<lambda>_. []) sample_env (sample_req ''POST'' ''/reload'' (Some ''guess'') []) = Reply (error_response 401 ''Unauthorized'')"
  using no_token_no_action [of sample_env "sample_req ''POST'' ''/reload'' (Some ''guess'') []" "\<lambda>_. []"]
  by (simp add: sample_env_def sample_req_def)

theorem config_route_missing_witness:
  "handle_parsed (\<lambda>_. []) sample_env (sample_req ''POST'' ''/config'' (Some ''s3cret'') ''{}'') = Reply (error_response 404 ''Not Found'')"
  by (rule config_route_missing) (simp_all add: sample_env_def sample_req_def checkAuth_def)

theorem unknown_auth_type_is_open_witness:
  "checkAuth (default_control\<lparr>ct_auth := \<lparr>ca_type = ''Token'', ca_token = ''s3cret''\<rparr>\<rparr>) (sample_req ''POST'' ''/reload'' None [])"
  by (rule unknown_auth_type_is_open) simp

lemma sample_refresh:
  "handle_parsed fmt sample_env (sample_req ''GET'' ''/__set_refresh?secs=99999&token=abc&listen=:80'' None []) = SetRefresh 7 3600"
proof -
  let ?p = "''/__set_refresh?secs=99999&token=abc&listen=:80''"
  have q: "queryValue ?p ''token'' = ''abc''" "queryValue ?p ''secs'' = ''99999''" "queryValue ?p ''listen'' = '':80''" "queryValue ?p ''name'' = []"
    by code_simp+
  have "whole_long ''99999'' = Some 99999"
    by (simp add: whole_long_def cstr_def strtol_def scan_long_def scan_sign_def is_space_def is_digit_def digits_val_def
        digit_val_def LONG_MAX_def LONG_MIN_def)
  then show ?thesis
    by (simp add: handle_parsed_def sample_req_def handleRefresh_def q find_relay_def)
      (simp add: sample_env_def clamp3600_def)
qed

theorem refresh_route_limits_witness:
  "queryValue ''/__set_refresh?secs=99999&token=abc&listen=:80'' ''token'' = ''abc''"
  using refresh_route_limits [OF sample_refresh] by (simp add: sample_env_def sample_req_def)

section \<open>Encodings\<close>

text \<open>\<open>encodeURIComponent\<close>, which the wait page applies to each value: the specification.\<close>

definition uri_plain :: "char \<Rightarrow> bool" where
  "uri_plain c \<longleftrightarrow> is_alnum c \<or> c \<in> set ''-_.!~*()'' \<or> c = SQ"

definition uri_char :: "char \<Rightarrow> string" where
  "uri_char c = (if uri_plain c then [c] else [CHR ''%'', hex_upper (code c div 16), hex_upper (code c mod 16)])"

definition uri_encode :: "string \<Rightarrow> string" where
  "uri_encode s = concat (map uri_char s)"

lemma hexVal_hex_upper: "n < 16 \<Longrightarrow> hexVal (hex_upper n) = Some n"
  by (auto simp: hexVal_def hex_upper_def is_digit_def)

lemma uri_plain_not: "uri_plain c \<Longrightarrow> c \<noteq> CHR ''%'' \<and> c \<noteq> CHR ''&'' \<and> c \<noteq> CHR ''='' \<and> c \<noteq> CHR ''?''"
  by (auto simp: uri_plain_def is_alnum_def is_alpha_def is_digit_def)

lemma hex_upper_not: "n < 16 \<Longrightarrow> hex_upper n \<noteq> CHR ''&'' \<and> hex_upper n \<noteq> CHR ''='' \<and> hex_upper n \<noteq> CHR ''?''"
proof -
  assume "n < 16"
  then have "code (hex_upper n) = (if n < 10 then 48 + n else 55 + n)" by (simp add: hex_upper_def)
  then have "code (hex_upper n) \<noteq> 38 \<and> code (hex_upper n) \<noteq> 61 \<and> code (hex_upper n) \<noteq> 63" using \<open>n < 16\<close> by auto
  then show ?thesis by auto
qed

lemma uri_char_not: "x \<in> set (uri_char c) \<Longrightarrow> x \<noteq> CHR ''&'' \<and> x \<noteq> CHR ''='' \<and> x \<noteq> CHR ''?''"
proof -
  have "code c div 16 < 16" by (simp add: div_less_iff_less_mult)
  then show "x \<in> set (uri_char c) \<Longrightarrow> x \<noteq> CHR ''&'' \<and> x \<noteq> CHR ''='' \<and> x \<noteq> CHR ''?''"
    using uri_plain_not [of c] hex_upper_not by (auto simp: uri_char_def split: if_splits)
qed

lemma uri_encode_not: "CHR ''&'' \<notin> set (uri_encode s)" "CHR ''='' \<notin> set (uri_encode s)" "CHR ''?'' \<notin> set (uri_encode s)"
  using uri_char_not by (fastforce simp: uri_encode_def)+

lemma urlDecode_plain: "c \<noteq> CHR ''%'' \<Longrightarrow> urlDecode (c # s) = c # urlDecode s"
  by (cases "(c # s)" rule: urlDecode.cases) auto

lemma urlDecode_uri: "urlDecode (uri_encode s) = s"
proof (induction s)
  case (Cons c s)
  show ?case
  proof (cases "uri_plain c")
    case True
    then show ?thesis using Cons uri_plain_not [OF True] urlDecode_plain by (simp add: uri_encode_def uri_char_def)
  next
    case False
    have "code c div 16 < 16" by (simp add: div_less_iff_less_mult)
    then show ?thesis using Cons False
      by (simp add: uri_encode_def uri_char_def hexVal_hex_upper)
  qed
qed (simp add: uri_encode_def)

interpretation uris: codec "\<lambda>_. True" uri_encode "\<lambda>s. Some (urlDecode s)"
  by unfold_locales (simp add: urlDecode_uri)

lemma split_on_single: "d \<notin> set s \<Longrightarrow> split_on d s = [s]"
  by (induction s) auto

lemma split_on_append: "d \<notin> set s \<Longrightarrow> split_on d (s @ d # r) = s # split_on d r"
  by (induction s) auto

text \<open>A query of encoded pairs.\<close>

definition query_pair :: "string \<times> string \<Rightarrow> string" where
  "query_pair kv = fst kv @ CHR ''='' # uri_encode (snd kv)"

fun query_text :: "(string \<times> string) list \<Rightarrow> string" where
  "query_text [] = []"
| "query_text [kv] = query_pair kv"
| "query_text (kv # kv' # kvs) = query_pair kv @ CHR ''&'' # query_text (kv' # kvs)"

definition query_key :: "string \<Rightarrow> bool" where
  "query_key k \<longleftrightarrow> CHR ''='' \<notin> set k \<and> CHR ''&'' \<notin> set k \<and> CHR ''?'' \<notin> set k"

lemma query_pair_amp: "query_key (fst kv) \<Longrightarrow> CHR ''&'' \<notin> set (query_pair kv)"
  using uri_encode_not by (simp add: query_pair_def query_key_def)

lemma split_query: "kvs \<noteq> [] \<Longrightarrow> list_all (query_key \<circ> fst) kvs \<Longrightarrow> split_on (CHR ''&'') (query_text kvs) = map query_pair kvs"
  by (induction kvs rule: query_text.induct)
    (simp_all add: split_on_single split_on_append query_pair_amp)

lemma query_lookup_pairs:
  "list_all (query_key \<circ> fst) kvs \<Longrightarrow>
     query_lookup key (map query_pair kvs) = (case map_of kvs key of None \<Rightarrow> [] | Some v \<Rightarrow> v)"
proof (induction kvs)
  case (Cons kv kvs)
  obtain a b where kv: "kv = (a, b)" by (cases kv) auto
  have f: "find_char (CHR ''='') (query_pair kv) = Some (length a)"
    using Cons.prems find_char_first [of "CHR ''=''" a] by (simp add: query_pair_def query_key_def kv)
  have t: "take (length a) (query_pair kv) = a" "drop (length a + 1) (query_pair kv) = uri_encode b"
    by (simp_all add: query_pair_def kv)
  have "query_lookup key (map query_pair (kv # kvs)) = (if a = key then b else query_lookup key (map query_pair kvs))"
    by (simp only: list.map query_lookup.simps Let_def f option.case t urlDecode_uri)
  then show ?case using Cons by (simp add: kv)
qed simp

text \<open>
  The values of a request made by the wait page arrive unchanged: in a query of distinct keys whose values are percent
  encoded, \<open>queryValue\<close> returns for every key the value that was sent, whatever bytes it holds.
\<close>
theorem queryValue_roundtrip:
  assumes "CHR ''?'' \<notin> set path" and "list_all (query_key \<circ> fst) kvs" and "map_of kvs key = Some v"
  shows "queryValue (path @ CHR ''?'' # query_text kvs) key = v"
proof -
  have "kvs \<noteq> []" using assms(3) by auto
  then show ?thesis
    using assms find_char_first [OF assms(1), of "query_text kvs"]
    by (simp add: queryValue_def split_query query_lookup_pairs)
qed

theorem queryValue_roundtrip_witness:
  "queryValue (''/__set_refresh'' @ CHR ''?'' # query_text [(''name'', ''a&b=c d''), (''token'', ''x'')]) ''name'' = ''a&b=c d''"
  by (rule queryValue_roundtrip) (simp_all add: query_key_def)

text \<open>Strings that need no numeric escape.\<close>

definition no_u_escape :: "char \<Rightarrow> bool" where
  "no_u_escape c \<longleftrightarrow> 32 \<le> code c \<or> c \<in> {CHR 0x08, CHR 0x0C, NL, CR, TAB}"

text \<open>
  What the server escapes its own JSON reader reads back, for every string whose control characters have a
  short escape; the numeric escape of the others is written but not understood: it reads back as
  the letter \<open>u\<close> and its digits.
\<close>
theorem jsonEscape_reads:
  "(list_all no_u_escape s \<longrightarrow> parse_str (DQ # jsonEscape s @ DQ # rest) = (s, rest)) \<and>
   parse_str (DQ # jsonEscape [CHR 0x01] @ DQ # rest) = (''u0001'', rest)"
proof
  have "list_all no_u_escape s \<Longrightarrow> str_body (jsonEscape s @ DQ # rest) = (s, rest)"
  proof (induction s)
    case (Cons c s)
    then have "no_u_escape c" "str_body (concat (map json_escape_char s) @ DQ # rest) = (s, rest)"
      by (simp_all add: jsonEscape_def)
    then show ?case
      by (auto simp: jsonEscape_def json_escape_char_def no_u_escape_def unescape_def)
  qed (simp add: jsonEscape_def)
  then show "list_all no_u_escape s \<longrightarrow> parse_str (DQ # jsonEscape s @ DQ # rest) = (s, rest)"
    by (simp add: parse_str_def)
  have "jsonEscape [CHR 0x01] = BS # ''u0001''" by code_simp
  then show "parse_str (DQ # jsonEscape [CHR 0x01] @ DQ # rest) = (''u0001'', rest)"
    by (simp add: parse_str_def unescape_def)
qed

theorem jsonEscape_reads_witness: "parse_str (DQ # jsonEscape [DQ, NL, CHR ''a''] @ DQ # []) = ([DQ, NL, CHR ''a''], [])"
  using jsonEscape_reads [of "[DQ, NL, CHR ''a'']" "[]"] by (simp add: no_u_escape_def)

section \<open>The process list\<close>

lemma sorted_desc_take: "sorted (map f xs) \<Longrightarrow> sorted (map f (take n xs))"
  by (simp add: sorted_wrt_take flip: take_map)

text \<open>
  The process list shows the largest processes: at most 100 of them, ordered by falling size, all from the list
  read, and none left out is larger than one shown.
\<close>
theorem top_procs_largest:
  fixes ps path
  defines "l \<equiv> top_procs (procs_limit path) ps"
  shows "1 \<le> procs_limit path \<and> length l \<le> 100 \<and> sorted (map (\<lambda>p. - pm_rss p) l) \<and> set l \<subseteq> set ps \<and>
    (\<exists>r. sort_key (\<lambda>p. - pm_rss p) ps = l @ r \<and> (\<forall>p \<in> set l. \<forall>q \<in> set r. pm_rss q \<le> pm_rss p))"
proof -
  let ?k = "\<lambda>p. - pm_rss p"
  let ?s = "sort_key ?k ps"
  have lim: "1 \<le> procs_limit path" "procs_limit path \<le> 100" by (simp_all add: procs_limit_def Let_def)
  have l: "l = take (nat (procs_limit path)) ?s" by (simp add: l_def top_procs_def)
  have "set l \<subseteq> set ps" unfolding l using set_take_subset [of _ ?s] by simp
  moreover have "sorted (map ?k l)" unfolding l by (rule sorted_desc_take) simp
  moreover have "length l \<le> 100" unfolding l using lim by simp
  moreover have "\<exists>r. ?s = l @ r \<and> (\<forall>p \<in> set l. \<forall>q \<in> set r. pm_rss q \<le> pm_rss p)"
  proof (intro exI conjI)
    show s: "?s = l @ drop (nat (procs_limit path)) ?s" unfolding l by simp
    have "sorted (map ?k ?s)" by simp
    then have "sorted (map ?k l @ map ?k (drop (nat (procs_limit path)) ?s))" by (metis s map_append)
    then show "\<forall>p \<in> set l. \<forall>q \<in> set (drop (nat (procs_limit path)) ?s). pm_rss q \<le> pm_rss p"
      by (auto simp: sorted_append)
  qed
  ultimately show ?thesis using lim by blast
qed

end
