(* ===== verification/GK_Relay.thy ===== *)
theory GK_Relay
  imports GK_Config GK_Address GK_Platform GK_SysMon
begin

text \<open>
  One managed port: the class \<open>PortRelay\<close> of \<open>relay.h\<close> and \<open>relay.cpp\<close>, its state and its
  operations. What an operation learns from the system (whether a port is bound, whether a child is alive,
  the pid of a fork, the clock) is an argument; when it asks repeatedly, the argument is the list of the
  answers. Threads, pages and log lines are left out; the loops are in \<open>GK_RelayLoop\<close>.
\<close>

section \<open>State\<close>

record backend_state =
  bs_type :: string
  bs_command :: string
  bs_proxyTo :: string
  bs_delayMs :: int
  bs_pid :: int
  bs_ready :: bool

record relay =
  r_name :: string
  r_listenAddr :: string
  r_command :: string
  r_delayMs :: int
  r_refreshSeconds :: int
  r_retrySeconds :: int
  r_retrySecondsBase :: int
  r_retrySecondsMax :: int
  r_autoRestart :: bool
  r_mode :: string
  r_holdPort :: bool
  r_stopCommand :: string
  r_idleMinutes :: int
  r_protocols :: "protocol_config list"
  r_auth :: auth_config
  r_httpTarget :: string
  r_listenFd :: int
  r_group :: "string option"
  r_groupReleased :: bool
  r_launchOnStart :: bool
  r_backendPid :: int
  r_externalOccupied :: bool
  r_recycleGiveUp :: bool
  r_evicted :: bool
  r_stackSize :: int
  r_stop :: bool
  r_pendingRemoval :: bool
  r_backends :: "backend_state list"
  r_tcpMonitorInterval :: int
  r_monitorIpv6 :: bool
  r_logDedupMode :: string
  r_logDedupCounter :: int
  r_consecutiveBindFailures :: int
  r_lastActiveTime :: int
  r_lastNonListen :: int
  r_lastSampleTime :: int

definition new_relay :: "port_config \<Rightarrow> int \<Rightarrow> relay" where
  "new_relay cfg now = \<lparr>r_name = (if pc_name cfg = [] then pc_listenAddr cfg else pc_name cfg),
     r_listenAddr = pc_listenAddr cfg, r_command = pc_command cfg, r_delayMs = pc_delayMs cfg,
     r_refreshSeconds = pc_refreshSeconds cfg, r_retrySeconds = pc_retrySeconds cfg,
     r_retrySecondsBase = pc_retrySeconds cfg, r_retrySecondsMax = pc_maxRetrySeconds cfg,
     r_autoRestart = pc_autoRestart cfg, r_mode = pc_mode cfg, r_holdPort = pc_holdPort cfg,
     r_stopCommand = pc_stopCommand cfg, r_idleMinutes = (if 0 \<le> pc_idleMinutes cfg then pc_idleMinutes cfg else 20),
     r_protocols = pc_protocols cfg, r_auth = pc_auth cfg, r_httpTarget = pc_httpTarget cfg, r_listenFd = - 1,
     r_group = None, r_groupReleased = False, r_launchOnStart = False, r_backendPid = 0,
     r_externalOccupied = False, r_recycleGiveUp = False, r_evicted = False,
     r_stackSize = (if 0 < pc_stackSize cfg then pc_stackSize cfg else 512), r_stop = False, r_pendingRemoval = False,
     r_backends = [], r_tcpMonitorInterval = (if mo_enabled (pc_monitor cfg) then mo_intervalSec (pc_monitor cfg) else 0),
     r_monitorIpv6 = mo_ipv6 (pc_monitor cfg), r_logDedupMode = mo_logDedup (pc_monitor cfg), r_logDedupCounter = 0,
     r_consecutiveBindFailures = 0, r_lastActiveTime = now, r_lastNonListen = - 1, r_lastSampleTime = 0\<rparr>"

lemma new_relay_sel [simp]:
  "r_listenAddr (new_relay cfg now) = pc_listenAddr cfg" "r_command (new_relay cfg now) = pc_command cfg"
  "r_delayMs (new_relay cfg now) = pc_delayMs cfg" "r_retrySeconds (new_relay cfg now) = pc_retrySeconds cfg"
  "r_retrySecondsBase (new_relay cfg now) = pc_retrySeconds cfg" "r_retrySecondsMax (new_relay cfg now) = pc_maxRetrySeconds cfg"
  "r_autoRestart (new_relay cfg now) = pc_autoRestart cfg" "r_stopCommand (new_relay cfg now) = pc_stopCommand cfg"
  "r_refreshSeconds (new_relay cfg now) = pc_refreshSeconds cfg" "r_mode (new_relay cfg now) = pc_mode cfg"
  "r_holdPort (new_relay cfg now) = pc_holdPort cfg" "r_auth (new_relay cfg now) = pc_auth cfg"
  "r_listenFd (new_relay cfg now) = - 1" "r_group (new_relay cfg now) = None" "\<not> r_groupReleased (new_relay cfg now)"
  "\<not> r_launchOnStart (new_relay cfg now)" "r_backendPid (new_relay cfg now) = 0" "\<not> r_externalOccupied (new_relay cfg now)"
  "\<not> r_recycleGiveUp (new_relay cfg now)" "\<not> r_evicted (new_relay cfg now)" "\<not> r_stop (new_relay cfg now)"
  "\<not> r_pendingRemoval (new_relay cfg now)" "r_backends (new_relay cfg now) = []"
  "r_consecutiveBindFailures (new_relay cfg now) = 0" "r_lastActiveTime (new_relay cfg now) = now"
  by (simp_all add: new_relay_def)

definition isBackendRunning :: "relay \<Rightarrow> bool" where
  "isBackendRunning r \<longleftrightarrow> r_backendPid r > 0 \<or> r_externalOccupied r"

definition monitorEnabled :: "relay \<Rightarrow> bool" where
  "monitorEnabled r \<longleftrightarrow> r_tcpMonitorInterval r > 0"

definition relay_port :: "relay \<Rightarrow> int" where
  "relay_port r = monitorPort (r_listenAddr r)"

definition hasRecentActivity :: "int \<Rightarrow> int \<Rightarrow> relay \<Rightarrow> bool" where
  "hasRecentActivity now minutes r \<longleftrightarrow> minutes = 0 \<or> r_lastActiveTime r \<ge> now - minutes * 60"

definition updateActivity :: "int \<Rightarrow> bool \<Rightarrow> relay \<Rightarrow> relay" where
  "updateActivity now active r = (if active then r\<lparr>r_lastActiveTime := now\<rparr> else r)"

section \<open>Listening\<close>

text \<open>\<open>isPortBound\<close>, a trial bind: the descriptor, whether the bind fails, and whether with \<open>EADDRINUSE\<close>. No descriptor counts as in use.\<close>

definition isPortBound :: "int \<Rightarrow> bool \<Rightarrow> bool \<Rightarrow> bool" where
  "isPortBound fd fails in_use = (if fd < 0 then True else fails \<and> in_use)"

text \<open>
  \<open>createListener\<close>: the address, then the answers of \<open>socket\<close>, \<open>bind\<close> and \<open>listen\<close>. The result is the
  descriptor, or \<open>-1\<close>; a socket that cannot be bound or listened on is closed.
\<close>

definition createListener ::
    "(string \<Rightarrow> 'a option) \<Rightarrow> (string \<Rightarrow> 'b option) \<Rightarrow> (('a, 'b) sockaddr \<Rightarrow> int) \<Rightarrow> (int \<Rightarrow> bool) \<Rightarrow> (int \<Rightarrow> bool) \<Rightarrow> relay \<Rightarrow> int" where
  "createListener pton4 pton6 sock binds listens r =
     (case parseSockaddr pton4 pton6 (r_listenAddr r) of
        None \<Rightarrow> - 1
      | Some sa \<Rightarrow> let fd = sock sa in if fd < 0 then - 1 else if \<not> binds fd then - 1 else if \<not> listens fd then - 1 else fd)"

text \<open>A failed bind: adopt the process that holds the port, if there is a way to stop it.\<close>

definition tryAdoptExternalOccupant :: "bool \<Rightarrow> relay \<Rightarrow> bool \<times> relay" where
  "tryAdoptExternalOccupant bound r =
     (if r_stopCommand r = [] \<or> r_recycleGiveUp r then (False, r)
      else if relay_port r \<le> 0 then (False, r)
      else if \<not> bound then (False, r)
      else (True, r\<lparr>r_externalOccupied := True, r_consecutiveBindFailures := 0, r_retrySeconds := r_retrySecondsBase r\<rparr>))"

definition count_failure :: "relay \<Rightarrow> relay" where
  "count_failure r = r\<lparr>r_consecutiveBindFailures := r_consecutiveBindFailures r + 1\<rparr>"

definition back_off :: "relay \<Rightarrow> relay" where
  "back_off r = r\<lparr>r_retrySeconds := min (r_retrySeconds r * 2) (r_retrySecondsMax r)\<rparr>"

text \<open>The log lines of a failed bind: the first failure, and the announcement of silence at the tenth.\<close>

definition LOG_SILENCE_THRESHOLD :: int where "LOG_SILENCE_THRESHOLD = 10"

definition bind_logs :: "relay \<Rightarrow> bool" where
  "bind_logs r \<longleftrightarrow> r_consecutiveBindFailures r = 1 \<or> r_consecutiveBindFailures r = LOG_SILENCE_THRESHOLD"

text \<open>
  The whole branch of the three loops after a failed bind: the new state, whether it logs, and the time it waits
  when the port is not adopted.
\<close>

definition bind_failed :: "bool \<Rightarrow> relay \<Rightarrow> relay \<times> bool \<times> int option" where
  "bind_failed bound r =
     (let r1 = count_failure r; (adopted, r2) = tryAdoptExternalOccupant bound r1
      in if adopted then (r2, bind_logs r1, None) else (back_off r2, bind_logs r1, Some (r_retrySeconds r2)))"

text \<open>After a successful bind: \<open>listenLoop\<close> resets both, \<open>mixedListenLoop\<close> and \<open>socks5ListenLoop\<close> only the interval.\<close>

definition bind_ok_simple :: "int \<Rightarrow> relay \<Rightarrow> relay" where
  "bind_ok_simple fd r = r\<lparr>r_listenFd := fd, r_retrySeconds := r_retrySecondsBase r, r_consecutiveBindFailures := 0\<rparr>"

definition bind_ok_mixed :: "int \<Rightarrow> relay \<Rightarrow> relay" where
  "bind_ok_mixed fd r = r\<lparr>r_listenFd := fd, r_retrySeconds := r_retrySecondsBase r\<rparr>"

definition bind_ok_socks5 :: "int \<Rightarrow> relay \<Rightarrow> relay" where
  "bind_ok_socks5 fd r = r\<lparr>r_listenFd := fd, r_retrySeconds := r_retrySecondsBase r\<rparr>"

text \<open>While the port is held by an adopted process: look whether it has been released.\<close>

definition poll_external :: "bool \<Rightarrow> relay \<Rightarrow> relay" where
  "poll_external bound r = (if relay_port r > 0 \<and> \<not> bound then r\<lparr>r_externalOccupied := False\<rparr> else r)"

section \<open>The refresh request on the port itself\<close>

definition setRefreshSeconds :: "int \<Rightarrow> relay \<Rightarrow> relay \<times> int" where
  "setRefreshSeconds secs r =
     (let s = (if secs > 3600 then 3600 else if secs < - 3600 then - 3600 else secs)
      in (r\<lparr>r_refreshSeconds := s\<rparr>, s))"

definition REFRESH_PREFIX :: string where "REFRESH_PREFIX = ''GET /__set_refresh?secs=''"

text \<open>
  The number in the request: an optional minus and digits, accumulated in an \<open>int\<close> that wraps; \<open>None\<close>
  when the request is not one. \<open>req\<close> is what the two peeks deliver, at most 256 bytes.
\<close>

definition wrap32 :: "int \<Rightarrow> int" where
  "wrap32 v = (v + 2 ^ 31) mod 2 ^ 32 - 2 ^ 31"

definition digits_wrap :: "string \<Rightarrow> int" where
  "digits_wrap ds = foldl (\<lambda>a c. wrap32 (a * 10 + int (digit_val c))) 0 ds"

definition refresh_secs :: "string \<Rightarrow> int option" where
  "refresh_secs req =
     (case find_sub REFRESH_PREFIX req of
        None \<Rightarrow> None
      | Some p \<Rightarrow>
          (let s = drop (p + length REFRESH_PREFIX) req;
               neg = (s \<noteq> [] \<and> hd s = CHR ''-'');
               ds = takeWhile is_digit (if neg then tl s else s)
           in if ds = [] then None
              else let v = (if neg then wrap32 (- digits_wrap ds) else digits_wrap ds)
                   in Some (if v > 3600 then 3600 else if v < - 3600 then - 3600 else v)))"

text \<open>The peeks: the first, and when it has nothing the second.\<close>

definition tryHandleRefreshRequest :: "string \<Rightarrow> string \<Rightarrow> relay \<Rightarrow> (relay \<times> int) option" where
  "tryHandleRefreshRequest peek1 peek2 r =
     (let req = take 256 (if peek1 = [] then peek2 else peek1)
      in if req = [] then None
         else (case refresh_secs req of None \<Rightarrow> None | Some secs \<Rightarrow> Some (setRefreshSeconds secs r)))"

section \<open>Launching\<close>

definition relaunchMemoryOk :: "eviction_config \<Rightarrow> sys_metrics option \<Rightarrow> bool" where
  "relaunchMemoryOk ec m =
     (case m of
        None \<Rightarrow> True
      | Some m \<Rightarrow>
          if mx_memPercent m \<ge> ev_relaunchMemoryBelow ec * 100 then False
          else if mx_swapValid m \<and> mx_swapPercent m \<ge> ev_relaunchSwapBelow ec * 100 then False
          else True)"

text \<open>A failed \<open>exec\<close> shows as exit code 127 or 126.\<close>

definition exec_failed :: "nat \<Rightarrow> bool" where
  "exec_failed st \<longleftrightarrow> wifexited st \<and> (wexitstatus st = 127 \<or> wexitstatus st = 126)"

datatype exit_desc = ExitOk | ExitCode nat | ExitNotFound | ExitNoPermission | ExitSignal nat | ExitRaw nat

definition describeExitStatus :: "nat \<Rightarrow> exit_desc" where
  "describeExitStatus st =
     (if st = 0 then ExitOk
      else if wifexited st then
        (if wexitstatus st = 127 then ExitNotFound else if wexitstatus st = 126 then ExitNoPermission else ExitCode (wexitstatus st))
      else if wifsignaled st then ExitSignal (wtermsig st)
      else ExitRaw st)"

text \<open>What \<open>waitChild\<close> returns: the child with its status, an error, or nothing as long as the child runs.\<close>

datatype wait_result = WaitExited nat | WaitError | WaitBlocks

text \<open>
  \<open>launchAndRelease\<close>: \<open>pid\<close> is what the launch returns, \<open>w\<close> what the wait for the new child returns.
  The result is the state and whether the readiness of the backend is then waited for; \<open>None\<close> as
  long as the wait blocks.
\<close>

definition launchAndRelease :: "int \<Rightarrow> int \<Rightarrow> wait_result \<Rightarrow> relay \<Rightarrow> (relay \<times> bool) option" where
  "launchAndRelease pid now w r =
     (if pid < 0 then Some (r, False)
      else let r1 = r\<lparr>r_backendPid := pid, r_lastActiveTime := now, r_listenFd := - 1\<rparr>
           in case w of
                WaitBlocks \<Rightarrow> None
              | WaitError \<Rightarrow> Some (r1, True)
              | WaitExited st \<Rightarrow> if exec_failed st then Some (r1\<lparr>r_backendPid := 0\<rparr>, False) else Some (r1, True))"

section \<open>Stopping\<close>

definition signalStop :: "relay \<Rightarrow> relay" where
  "signalStop r = r\<lparr>r_stop := True, r_listenFd := - 1\<rparr>"

definition setPendingRemoval :: "relay \<Rightarrow> relay" where
  "setPendingRemoval r = signalStop (r\<lparr>r_pendingRemoval := True\<rparr>)"

text \<open>The signals an operation sends and the commands it runs, in order.\<close>

datatype signal_act = Term int | Kill int | Run string

definition kill_if_alive :: "(int \<Rightarrow> bool) \<Rightarrow> int \<Rightarrow> signal_act list" where
  "kill_if_alive alive pid = (if 0 < pid \<and> alive pid then [Kill pid] else [])"

definition relay_stop :: "(int \<Rightarrow> bool) \<Rightarrow> relay \<Rightarrow> relay \<times> signal_act list" where
  "relay_stop alive r =
     (r\<lparr>r_stop := True, r_listenFd := - 1\<rparr>,
      kill_if_alive alive (r_backendPid r) @ concat (map (\<lambda>b. kill_if_alive alive (bs_pid b)) (r_backends r)))"

text \<open>
  The polling loops of \<open>gracefulStop\<close>, one answer per second: \<open>Gone\<close> when the monitor thread has meanwhile
  cleared the pid, otherwise whether the child is alive. The result is whether the backend ended within \<open>n\<close> rounds.
  When answers run out the child stays alive.
\<close>

datatype alive_poll = Gone | Alive | Dead

fun poll_exit :: "nat \<Rightarrow> alive_poll list \<Rightarrow> bool" where
  "poll_exit 0 ps = False"
| "poll_exit (Suc n) [] = False"
| "poll_exit (Suc n) (p # ps) = (if p = Alive then poll_exit n ps else True)"

fun poll_released :: "nat \<Rightarrow> bool list \<Rightarrow> bool" where
  "poll_released 0 bs = False"
| "poll_released (Suc n) [] = False"
| "poll_released (Suc n) (b # bs) = (if \<not> b then True else poll_released n bs)"

definition recycle_external :: "bool list \<Rightarrow> relay \<Rightarrow> relay \<times> signal_act list" where
  "recycle_external bounds r =
     (if r_stopCommand r = [] then (r\<lparr>r_recycleGiveUp := True, r_externalOccupied := False\<rparr>, [])
      else let released = (if relay_port r \<le> 0 then True else poll_released 30 bounds);
               r1 = r\<lparr>r_externalOccupied := False\<rparr>
           in (if released then r1 else r1\<lparr>r_recycleGiveUp := True\<rparr>, [Run (r_stopCommand r)]))"

definition gracefulStop :: "bool list \<Rightarrow> alive_poll list \<Rightarrow> alive_poll list \<Rightarrow> relay \<Rightarrow> relay \<times> signal_act list" where
  "gracefulStop bounds polls1 polls2 r =
     (if r_externalOccupied r then recycle_external bounds r
      else if r_backendPid r \<le> 0 then (r, [])
      else let stop = (if r_stopCommand r = [] then [] else [Run (r_stopCommand r)]);
               r0 = r\<lparr>r_backendPid := 0\<rparr>
           in if r_stopCommand r \<noteq> [] \<and> poll_exit 30 polls1 then (r0, stop)
              else if poll_exit 10 polls2 then (r0, stop @ [Term (r_backendPid r)])
              else (r0, stop @ [Term (r_backendPid r), Kill (r_backendPid r)]))"

text \<open>\<open>resetForIdle\<close>, after the old threads are joined: the relay is armed again.\<close>

definition resetForIdle :: "relay \<Rightarrow> relay" where
  "resetForIdle r = r\<lparr>r_stop := False, r_pendingRemoval := False, r_groupReleased := False, r_listenFd := - 1\<rparr>"

definition evict_backends :: "(int \<Rightarrow> bool) \<Rightarrow> backend_state list \<Rightarrow> backend_state list \<times> signal_act list" where
  "evict_backends alive bs =
     (map (\<lambda>b. if 0 < bs_pid b \<and> alive (bs_pid b) then b\<lparr>bs_pid := 0\<rparr> else b) bs,
      concat (map (\<lambda>b. kill_if_alive alive (bs_pid b)) bs))"

definition evict :: "(int \<Rightarrow> bool) \<Rightarrow> bool list \<Rightarrow> alive_poll list \<Rightarrow> alive_poll list \<Rightarrow> relay \<Rightarrow> relay \<times> signal_act list" where
  "evict alive bounds polls1 polls2 r =
     (let r1 = r\<lparr>r_evicted := True\<rparr>;
          (r2, acts) = (if r_backendPid r > 0 \<or> r_externalOccupied r then gracefulStop bounds polls1 polls2 r1 else (r1, []));
          (bs, kills) = evict_backends alive (r_backends r2)
      in (resetForIdle (signalStop (r2\<lparr>r_backends := bs\<rparr>)), acts @ kills))"

definition forceReleasePort :: "relay \<Rightarrow> relay" where
  "forceReleasePort r = r\<lparr>r_groupReleased := True, r_listenFd := - 1\<rparr>"

definition clearGroupLaunch :: "relay \<Rightarrow> relay" where
  "clearGroupLaunch r = r\<lparr>r_groupReleased := False\<rparr>"

section \<open>Protocol backends of the hold-port mode\<close>

definition protocol_complete :: "protocol_config \<Rightarrow> bool" where
  "protocol_complete p \<longleftrightarrow> pr_enabled p \<and> pr_command p \<noteq> [] \<and> pr_proxyTo p \<noteq> []"

definition init_backends :: "relay \<Rightarrow> relay" where
  "init_backends r = r\<lparr>r_backends := map (\<lambda>p. \<lparr>bs_type = pr_type p, bs_command = pr_command p, bs_proxyTo = pr_proxyTo p,
       bs_delayMs = (if 0 < pr_delayMs p then pr_delayMs p else r_delayMs r), bs_pid = 0, bs_ready = False\<rparr>)
       (filter protocol_complete (r_protocols r))\<rparr>"

definition findBackend :: "string \<Rightarrow> relay \<Rightarrow> backend_state option" where
  "findBackend ty r = find (\<lambda>b. bs_type b = ty) (r_backends r)"

text \<open>
  \<open>launchProtocolBackend\<close> on the relay and one of its backends: \<open>pid\<close> is what the launch of the backend's command returns,
  \<open>reached\<close> whether a connection to its address succeeds within its delay, \<open>valid\<close> whether that address parses.
  The relay's own command and delay are overwritten and put back at the end.
\<close>

definition launchProtocolBackend :: "int \<Rightarrow> bool \<Rightarrow> bool \<Rightarrow> relay \<times> backend_state \<Rightarrow> relay \<times> backend_state" where
  "launchProtocolBackend pid valid reached rb =
     (case rb of (r, bs) \<Rightarrow>
        if bs_pid bs \<noteq> 0 \<or> bs_ready bs then (r, bs)
        else let r1 = r\<lparr>r_command := bs_command bs, r_delayMs := bs_delayMs bs\<rparr>
             in if pid < 0 then (r1, bs\<lparr>bs_pid := 0\<rparr>)
                else (r1\<lparr>r_command := r_command r, r_delayMs := r_delayMs r\<rparr>,
                      bs\<lparr>bs_pid := pid, bs_ready := (valid \<and> reached)\<rparr>))"

text \<open>One round of \<open>proxyMonitorLoop\<close> over the backends.\<close>

definition proxy_monitor_round :: "(int \<Rightarrow> bool) \<Rightarrow> relay \<Rightarrow> relay" where
  "proxy_monitor_round alive r =
     r\<lparr>r_backends := map (\<lambda>b. if 0 < bs_pid b \<and> \<not> alive (bs_pid b) then b\<lparr>bs_pid := 0, bs_ready := False\<rparr> else b) (r_backends r)\<rparr>"

section \<open>The backend monitor\<close>

text \<open>
  One round of \<open>monitorBackend\<close> with a running backend. \<open>w\<close> is what the wait returns; \<open>freed\<close> is that a daemon and
  its port are found gone before a stop; \<open>finds\<close> are the answers of \<open>findPidUsingPort\<close>, \<open>self\<close> the own pid.
  The result is the state and whether the thread goes on.
\<close>

definition daemon_retries :: "relay \<Rightarrow> nat" where
  "daemon_retries r = nat (max 1 (to_int (rat_of_int (r_delayMs r) * (3 / 2) / 2000)))"

definition is_daemon :: "int \<Rightarrow> relay \<Rightarrow> int \<Rightarrow> bool" where
  "is_daemon self r p \<longleftrightarrow> 0 < p \<and> p \<noteq> r_backendPid r \<and> p \<noteq> self"

fun find_daemon :: "nat \<Rightarrow> (int \<Rightarrow> bool) \<Rightarrow> int list \<Rightarrow> int option" where
  "find_daemon 0 ok ps = None"
| "find_daemon (Suc n) ok [] = None"
| "find_daemon (Suc n) ok (p # ps) = (if ok p then Some p else find_daemon n ok ps)"

definition monitor_round :: "wait_result \<Rightarrow> bool \<Rightarrow> int list \<Rightarrow> int \<Rightarrow> int \<Rightarrow> relay \<Rightarrow> (relay \<times> bool) option" where
  "monitor_round w freed finds self now r =
     (if r_stop r then Some (r, False)
      else if r_backendPid r \<le> 0 then Some (r, True)
      else (case w of
              WaitBlocks \<Rightarrow> None
            | WaitError \<Rightarrow>
                if relay_port r > 0 \<and> \<not> freed then Some (r, False)
                else Some (r\<lparr>r_backendPid := 0\<rparr>, r_autoRestart r)
            | WaitExited st \<Rightarrow>
                (case (if relay_port r > 0 then find_daemon (daemon_retries r) (is_daemon self r) finds else None) of
                   Some p \<Rightarrow> Some (r\<lparr>r_backendPid := p, r_lastActiveTime := now\<rparr>, True)
                 | None \<Rightarrow> Some (r\<lparr>r_backendPid := 0\<rparr>, r_autoRestart r))))"

end
