(* ===== verification/GK_RelayProps.thy ===== *)
theory GK_RelayProps
  imports GK_Relay
begin

text \<open>
  What one port's operations promise: the retry interval and its bound, the order of the signals of a graceful
  stop, what an eviction leaves behind, the gate on the restart, and what goes wrong when
  a protocol backend fails or is late.
\<close>

section \<open>Retry\<close>

text \<open>A run of failed binds that are not adopted.\<close>

definition no_adopt :: "relay \<Rightarrow> bool" where
  "no_adopt r \<longleftrightarrow> r_stopCommand r = [] \<or> r_recycleGiveUp r \<or> relay_port r \<le> 0"

lemma bind_failed_no_adopt:
  "no_adopt r \<Longrightarrow> bind_failed bound r = (back_off (count_failure r), bind_logs (count_failure r), Some (r_retrySeconds r))"
  by (auto simp: bind_failed_def tryAdoptExternalOccupant_def no_adopt_def count_failure_def relay_port_def Let_def)

lemma no_adopt_step: "no_adopt r \<Longrightarrow> no_adopt (fst (bind_failed bound r))"
  by (simp add: bind_failed_no_adopt) (simp add: no_adopt_def back_off_def count_failure_def relay_port_def)

definition fail_times :: "nat \<Rightarrow> relay \<Rightarrow> relay" where
  "fail_times n r = ((\<lambda>r. fst (bind_failed True r)) ^^ n) r"

lemma fail_times_fields:
  assumes "no_adopt r"
  shows "no_adopt (fail_times n r) \<and> r_retrySecondsMax (fail_times n r) = r_retrySecondsMax r \<and>
    r_retrySecondsBase (fail_times n r) = r_retrySecondsBase r \<and>
    r_consecutiveBindFailures (fail_times n r) = r_consecutiveBindFailures r + int n"
proof (induction n)
  case 0
  then show ?case using assms by (simp add: fail_times_def)
next
  case (Suc n)
  have e: "fail_times (Suc n) r = fst (bind_failed True (fail_times n r))" by (simp add: fail_times_def)
  show ?case unfolding e using Suc no_adopt_step
    by (simp add: bind_failed_no_adopt back_off_def count_failure_def)
      (use Suc no_adopt_step [of "fail_times n r" True] in \<open>simp add: bind_failed_no_adopt back_off_def count_failure_def\<close>)
qed



text \<open>
  The loops of the mixed and the proxy mode never reset the count of failed binds: after a successful bind
  that followed a failure, a later failure is not the first any more, so the reason it failed
  is not logged, while the simple mode logs it.
\<close>
theorem mixed_bind_failure_silent:
  assumes "r_consecutiveBindFailures r \<ge> 1" and "r_consecutiveBindFailures r \<noteq> LOG_SILENCE_THRESHOLD - 1"
  shows "\<not> fst (snd (bind_failed bound (bind_ok_mixed fd r))) \<and> \<not> fst (snd (bind_failed bound (bind_ok_socks5 fd r))) \<and>
    fst (snd (bind_failed bound (bind_ok_simple fd r)))"
  using assms by (simp add: bind_failed_def bind_logs_def count_failure_def bind_ok_mixed_def bind_ok_socks5_def
      bind_ok_simple_def LOG_SILENCE_THRESHOLD_def Let_def split: prod.split)

theorem mixed_bind_failure_silent_witness:
  "\<not> fst (snd (bind_failed False (bind_ok_mixed 5 (count_failure (new_relay default_port 0)))))"
  using mixed_bind_failure_silent [of "count_failure (new_relay default_port 0)" False 5]
  by (simp add: count_failure_def LOG_SILENCE_THRESHOLD_def)

section \<open>Graceful stop\<close>

lemma kill_if_alive_set: "a \<in> set (kill_if_alive alive pid) \<Longrightarrow> \<exists>p > 0. a = Kill p"
  by (auto simp: kill_if_alive_def split: if_splits)



text \<open>When the ten answers after the signal are all that the backend lives, it is killed.\<close>

lemma poll_exit_alive: "list_all (\<lambda>p. p = Alive) ps \<Longrightarrow> \<not> poll_exit n ps"
  by (induction n ps rule: poll_exit.induct) auto

text \<open>
  An adopted process that does not let go is given up: when the port is still held through thirty looks after the stop
  command, the relay ends the adoption and never adopts again, whatever holds the port later.
\<close>
theorem recycle_gives_up:
  assumes "r_externalOccupied r" and "r_stopCommand r \<noteq> []" and "relay_port r > 0" and "list_all id bounds"
  shows "case gracefulStop bounds p1 p2 r of (r', acts) \<Rightarrow>
    acts = [Run (r_stopCommand r)] \<and> \<not> r_externalOccupied r' \<and> r_recycleGiveUp r' \<and>
    (\<forall>bound. \<not> fst (tryAdoptExternalOccupant bound r'))"
proof -
  have "\<not> poll_released n bs" if "list_all id bs" for n bs
    using that by (induction n bs rule: poll_released.induct) auto
  then show ?thesis using assms
    by (simp add: gracefulStop_def recycle_external_def tryAdoptExternalOccupant_def Let_def)
qed

theorem recycle_gives_up_witness:
  "r_recycleGiveUp (fst (gracefulStop (replicate 40 True) [] []
     (new_relay (default_port\<lparr>pc_listenAddr := CHR '':'' # to_string 80, pc_stopCommand := ''x''\<rparr>) 0\<lparr>r_externalOccupied := True\<rparr>)))"
proof -
  let ?r = "new_relay (default_port\<lparr>pc_listenAddr := CHR '':'' # to_string 80, pc_stopCommand := ''x''\<rparr>) 0\<lparr>r_externalOccupied := True\<rparr>"
  have "monitorPort (CHR '':'' # to_string 80) = 80"
    by (simp add: monitorPort_def parse_port_text_plain)
  then have "relay_port ?r > 0" by (simp add: relay_port_def)
  moreover have "list_all id (replicate 40 True)" by (simp add: list_all_iff)
  ultimately show ?thesis using recycle_gives_up [of ?r "replicate 40 True" "[]" "[]"]
    by (simp add: split_beta)
qed

section \<open>Eviction\<close>

definition backends_dead :: "(int \<Rightarrow> bool) \<Rightarrow> relay \<Rightarrow> bool" where
  "backends_dead alive r \<longleftrightarrow> (\<forall>b \<in> set (r_backends r). bs_pid b \<le> 0 \<or> \<not> alive (bs_pid b))"

lemma gracefulStop_fields:
  "r_evicted (fst (gracefulStop bs p1 p2 r)) = r_evicted r \<and> r_backends (fst (gracefulStop bs p1 p2 r)) = r_backends r \<and>
   (r_backendPid r > 0 \<or> r_externalOccupied r \<longrightarrow> \<not> r_externalOccupied (fst (gracefulStop bs p1 p2 r)))"
  by (auto simp: gracefulStop_def recycle_external_def Let_def)



text \<open>
  A relay in hold-port mode is invisible to the reclaiming of resources: however many of its protocol backends run, it
  does not count as running, so the monitor neither stops it when idle nor chooses it for eviction.
\<close>
theorem hold_port_never_running:
  "\<not> isBackendRunning (init_backends (new_relay cfg now)) \<and>
   isBackendRunning (fst (launchProtocolBackend pid valid reached (r, bs))) = isBackendRunning r \<and>
   isBackendRunning (r\<lparr>r_backends := bss\<rparr>) = isBackendRunning r \<and>
   isBackendRunning (proxy_monitor_round alive r) = isBackendRunning r"
  by (simp add: isBackendRunning_def init_backends_def launchProtocolBackend_def proxy_monitor_round_def Let_def)

text \<open>
  The gate for the restart after an eviction opens exactly when the metrics cannot be read, or memory is below its threshold and so
  is the swap where there is one.
\<close>
theorem relaunch_gate:
  "relaunchMemoryOk ec m \<longleftrightarrow>
     (case m of None \<Rightarrow> True
      | Some x \<Rightarrow> mx_memPercent x < ev_relaunchMemoryBelow ec * 100 \<and>
          (mx_swapValid x \<longrightarrow> mx_swapPercent x < ev_relaunchSwapBelow ec * 100))"
  by (auto simp: relaunchMemoryOk_def split: option.split)

section \<open>Protocol backends\<close>

text \<open>
  A protocol backend that is not ready within its delay is never used: it keeps its pid without being ready, every later launch does nothing, and
  no round of the monitor changes it as long as its process lives.
\<close>
theorem late_backend_never_ready:
  assumes "bs_pid bs = 0" and "\<not> bs_ready bs" and "0 < pid" and "alive pid"
    and "launchProtocolBackend pid valid False (r, bs) = (r', bs')"
  shows "\<not> bs_ready bs' \<and> (\<forall>pid2 v c r2. snd (launchProtocolBackend pid2 v c (r2, bs')) = bs') \<and>
    (\<forall>r2. bs' \<in> set (r_backends r2) \<longrightarrow> bs' \<in> set (r_backends (proxy_monitor_round alive r2)))"
proof -
  have b: "bs' = bs\<lparr>bs_pid := pid, bs_ready := False\<rparr>"
    using assms by (auto simp: launchProtocolBackend_def Let_def)
  have "bs' \<in> set (r_backends (proxy_monitor_round alive r2))" if m: "bs' \<in> set (r_backends r2)" for r2
  proof -
    have "(if 0 < bs_pid bs' \<and> \<not> alive (bs_pid bs') then bs'\<lparr>bs_pid := 0, bs_ready := False\<rparr> else bs') = bs'"
      using b assms(4) by simp
    then show ?thesis using m by (force simp: proxy_monitor_round_def image_iff)
  qed
  then show ?thesis using b assms(3) by (simp add: launchProtocolBackend_def)
qed

definition sample_backend :: backend_state where
  "sample_backend = \<lparr>bs_type = ''http'', bs_command = ''srv'', bs_proxyTo = ''127.0.0.1:8080'', bs_delayMs = 100, bs_pid = 0, bs_ready = False\<rparr>"

theorem late_backend_never_ready_witness:
  "\<not> bs_ready (snd (launchProtocolBackend 42 True False (new_relay default_port 0, sample_backend)))"
  by (rule conjunct1 [OF late_backend_never_ready [where alive = "\<lambda>_. True", OF _ _ _ _ prod.collapse [symmetric]]])
    (simp_all add: sample_backend_def)

text \<open>
  When the launch of a protocol backend fails, the relay keeps that backend's command and delay as its own.
\<close>
theorem failed_launch_keeps_command:
  assumes "bs_pid bs = 0" and "\<not> bs_ready bs" and "pid < 0"
  shows "r_command (fst (launchProtocolBackend pid valid reached (r, bs))) = bs_command bs \<and>
    r_delayMs (fst (launchProtocolBackend pid valid reached (r, bs))) = bs_delayMs bs"
  using assms by (simp add: launchProtocolBackend_def Let_def)

theorem failed_launch_keeps_command_witness:
  "r_command (fst (launchProtocolBackend (- 1) True True (new_relay default_port 0, sample_backend))) = ''srv''"
  using failed_launch_keeps_command [of sample_backend "- 1"] by (simp add: sample_backend_def)

section \<open>Launch\<close>

text \<open>
  The port is released before the backend is waited for, and the wait that is to detect a failed \<open>exec\<close> lasts as long as the backend
  does: while the child runs, \<open>launchAndRelease\<close> has not returned, and the readiness of the
  backend is looked at only after the child has ended otherwise than by a failed \<open>exec\<close>.
\<close>
theorem launch_waits_for_exit:
  "(launchAndRelease pid now w r = None \<longleftrightarrow> 0 \<le> pid \<and> w = WaitBlocks) \<and>
   (\<forall>r'. launchAndRelease pid now w r = Some (r', True) \<longrightarrow> w = WaitError \<or> (\<exists>st. w = WaitExited st \<and> \<not> exec_failed st)) \<and>
   (\<forall>r' b. 0 \<le> pid \<longrightarrow> launchAndRelease pid now w r = Some (r', b) \<longrightarrow> r_listenFd r' = - 1)"
  by (auto simp: launchAndRelease_def Let_def split: wait_result.splits if_splits)

theorem launch_waits_for_exit_witness: "launchAndRelease 42 0 WaitBlocks (new_relay default_port 0) = None"
  using launch_waits_for_exit [of 42 0 WaitBlocks] by simp

section \<open>Refresh requests\<close>

lemma digits_wrap_small: "list_all is_digit ds \<Longrightarrow> digits_val ds < 2 ^ 31 \<Longrightarrow> digits_wrap ds = int (digits_val ds)"
proof (induction ds rule: rev_induct)
  case Nil
  then show ?case by (simp add: digits_wrap_def)
next
  case (snoc d ds)
  have b: "digits_val (ds @ [d]) = 10 * digits_val ds + digit_val d" by (rule digits_val_append)
  with snoc have "digits_wrap ds = int (digits_val ds)" by simp
  then have "digits_wrap (ds @ [d]) = wrap32 (int (digits_val (ds @ [d])))" by (simp add: digits_wrap_def b mult.commute)
  then show ?case using snoc.prems(2) by (simp add: wrap32_def)
qed

text \<open>
  The refresh time a client asks for is taken over within bounds: the request for \<open>n\<close> seconds, any number of at most nine digits with or
  without a minus, sets it to \<open>n\<close> clamped to -3600 to 3600, whatever follows in the request.
\<close>
theorem refresh_request_value:
  assumes "\<bar>n\<bar> < 2 ^ 31" and "rest = [] \<or> \<not> is_digit (hd rest)"
  shows "refresh_secs (REFRESH_PREFIX @ to_string n @ rest) = Some (max (- 3600) (min 3600 n))"
proof -
  let ?ds = "nat_digits (nat \<bar>n\<bar>)"
  have f: "find_sub REFRESH_PREFIX (REFRESH_PREFIX @ to_string n @ rest) = Some 0"
    by (simp add: REFRESH_PREFIX_def)
  have tw: "takeWhile is_digit (?ds @ rest) = ?ds" using takeWhile_digits [of ?ds rest] assms(2) by auto
  have w: "digits_wrap ?ds = \<bar>n\<bar>" using digits_wrap_small [of ?ds] assms(1) by (simp add: list_all_iff)
  obtain d ds where hd: "?ds = d # ds" "is_digit d" using nat_digits_hd by blast
  then have nm: "d \<noteq> CHR ''-''" by (auto simp: is_digit_def)
  show ?thesis
  proof (cases "n < 0")
    case True
    then have t: "to_string n = CHR ''-'' # ?ds" by (simp add: to_string_def)
    have "wrap32 (- \<bar>n\<bar>) = n" using True assms(1) by (simp add: wrap32_def)
    then show ?thesis unfolding refresh_secs_def f option.case unfolding t using tw w by (simp add: Let_def)
  next
    case False
    then have t: "to_string n = ?ds" by (simp add: to_string_def)
    have "hd (?ds @ rest) \<noteq> CHR ''-''" using hd nm by simp
    then show ?thesis unfolding refresh_secs_def f option.case unfolding t using tw w False by (simp add: Let_def)
  qed
qed

theorem refresh_request_value_witness:
  "refresh_secs (REFRESH_PREFIX @ to_string 5000 @ '' HTTP/1.1'') = Some 3600"
  using refresh_request_value [of 5000 "'' HTTP/1.1''"] by (simp add: is_digit_def)

end
