(* ===== verification/GK_Proxy.thy ===== *)
theory GK_Proxy
  imports GK_Config
begin

text \<open>
  The connection level of \<open>relay.cpp\<close>: protocol detection, the bootstrap answers of the mixed mode, the one-directional copy of a
  tunnel, exact reads, and the SOCKS5 negotiation of the proxy mode with its
  target. Bytes are characters. A socket's input is the list of what successive reads
  could deliver; an empty piece is the end of the stream or an error, and so is the end of the list.
\<close>

section \<open>Detection\<close>

definition http_methods :: "string list" where
  "http_methods = [''GET '', ''POST'', ''HEAD'', ''PUT '', ''DELETE'', ''CONNECT'', ''OPTIONS'', ''PATCH'', ''TRACE'']"

text \<open>\<open>peek\<close> is what the peek of eight bytes delivers.\<close>

definition detectProtocol :: "string \<Rightarrow> string" where
  "detectProtocol peek =
     (case take 8 peek of
        [] \<Rightarrow> ''unknown''
      | b # bs \<Rightarrow>
          if b = CHR 0x05 then ''socks5''
          else if b = CHR 0x04 then ''socks4''
          else if b \<in> set ''GPHDCOTR'' \<and> list_ex (\<lambda>m. starts_with m (b # bs)) http_methods then ''http''
          else ''unknown'')"

text \<open>The bootstrap answer; \<open>page\<close> is the answer to an HTTP client, a page or the reply to a refresh request.\<close>

definition sendMixedResponse :: "string \<Rightarrow> string \<Rightarrow> string" where
  "sendMixedResponse page proto =
     (if proto = ''http'' then page
      else if proto = ''socks5'' then [CHR 0x05, CHR 0xFF]
      else if proto = ''socks4'' then CHR 0x00 # CHR 0x5B # replicate 6 (CHR 0x00)
      else [])"

section \<open>Tunnel\<close>

text \<open>The inner loop: each write takes a number of bytes, zero for a failure. The bytes written, success, and the writes left.\<close>

fun write_all :: "string \<Rightarrow> nat list \<Rightarrow> string \<times> bool \<times> nat list" where
  "write_all data [] = ([], data = [], [])"
| "write_all data (w # ws) =
     (if data = [] then ([], True, w # ws)
      else if w = 0 then ([], False, ws)
      else (let (out, r) = write_all (drop w data) ws in (take w data @ out, r)))"

text \<open>\<open>pipeRelay\<close>: all that is written to the other side, and whether it ended at the end of the source.\<close>

fun pipeRelay :: "string list \<Rightarrow> nat list \<Rightarrow> string \<times> bool" where
  "pipeRelay [] ws = ([], True)"
| "pipeRelay (c # cs) ws =
     (if c = [] then ([], True)
      else (case write_all c ws of
              (out, False, _) \<Rightarrow> (out, False)
            | (out, True, ws') \<Rightarrow> (let (rest, fin) = pipeRelay cs ws' in (out @ rest, fin))))"

text \<open>
  \<open>connectToBackend\<close>, from the answers of its calls, and \<open>proxyConnection\<close>: what reaches the backend and the client through the two threads of a tunnel, from what
  each side delivers until the tunnel is shut and how much each write takes; \<open>None\<close> when the client is closed at once.
\<close>

definition connectToBackend :: "bool \<Rightarrow> int \<Rightarrow> bool \<Rightarrow> int" where
  "connectToBackend parsed fd conn_ok =
     (if \<not> parsed then - 1 else if fd < 0 then - 1 else if \<not> conn_ok then - 1 else fd)"

definition proxyConnection ::
    "int \<Rightarrow> string list \<Rightarrow> nat list \<Rightarrow> string list \<Rightarrow> nat list \<Rightarrow> (string \<times> string) option" where
  "proxyConnection backendFd fromClient ws1 fromBackend ws2 =
     (if backendFd < 0 then None else Some (fst (pipeRelay fromClient ws1), fst (pipeRelay fromBackend ws2)))"

section \<open>Exact reads\<close>

fun recv_exact :: "nat \<Rightarrow> string list \<Rightarrow> string \<times> string list" where
  "recv_exact n [] = ([], [])"
| "recv_exact n (c # cs) =
     (if n = 0 then ([], c # cs)
      else if c = [] then ([], [])
      else if n < length c then (take n c, drop n c # cs)
      else (let (d, r) = recv_exact (n - length c) cs in (c @ d, r)))"

text \<open>A read that must deliver all its bytes.\<close>

definition recv_all :: "nat \<Rightarrow> string list \<Rightarrow> (string \<times> string list) option" where
  "recv_all n cs = (let (d, r) = recv_exact n cs in if length d = n then Some (d, r) else None)"

section \<open>SOCKS5\<close>

text \<open>The choice of the method: \<open>None\<close> for the refusal \<open>0xFF\<close>, otherwise whether user and password are asked for.\<close>

definition socks_method :: "auth_config \<Rightarrow> string \<Rightarrow> bool option" where
  "socks_method auth methods =
     (if au_type auth = ''userpass'' \<and> CHR 0x02 \<in> set methods then Some True
      else if au_type auth \<noteq> ''userpass'' \<and> CHR 0x00 \<in> set methods then Some False
      else None)"

definition method_byte :: "bool option \<Rightarrow> char" where
  "method_byte m = (case m of None \<Rightarrow> CHR 0xFF | Some True \<Rightarrow> CHR 0x02 | Some False \<Rightarrow> CHR 0x00)"

text \<open>The negotiations: the bytes written, and the input left when it goes on.\<close>

definition socks_greeting :: "auth_config \<Rightarrow> string list \<Rightarrow> string \<times> (bool \<times> string list) option" where
  "socks_greeting auth cs =
     (case recv_all 2 cs of
        None \<Rightarrow> ([], None)
      | Some (b, r) \<Rightarrow>
          if code (b ! 1) < 1 then ([], None)
          else (case recv_all (code (b ! 1)) r of
                  None \<Rightarrow> ([], None)
                | Some (methods, r2) \<Rightarrow>
                    ([CHR 0x05, method_byte (socks_method auth methods)],
                     map_option (\<lambda>up. (up, r2)) (socks_method auth methods))))"

definition socks_userpass :: "auth_config \<Rightarrow> string list \<Rightarrow> string \<times> string list option" where
  "socks_userpass auth cs =
     (case recv_all 2 cs of
        None \<Rightarrow> ([], None)
      | Some (b, r) \<Rightarrow>
          if code (b ! 1) < 1 then ([], None)
          else (case recv_all (code (b ! 1)) r of
                  None \<Rightarrow> ([], None)
                | Some (uname, r2) \<Rightarrow>
                    (case recv_all 1 r2 of
                       None \<Rightarrow> ([], None)
                     | Some (l, r3) \<Rightarrow>
                         if code (l ! 0) < 1 then ([], None)
                         else (case recv_all (code (l ! 0)) r3 of
                                 None \<Rightarrow> ([], None)
                               | Some (passwd, r4) \<Rightarrow>
                                   if uname = au_username auth \<and> passwd = au_password auth
                                   then ([CHR 0x01, CHR 0x00], Some r4) else ([CHR 0x01, CHR 0x01], None)))))"

definition dotted :: "string \<Rightarrow> string" where
  "dotted a = to_string (int (code (a ! 0))) @ ''.'' @ to_string (int (code (a ! 1))) @ ''.''
     @ to_string (int (code (a ! 2))) @ ''.'' @ to_string (int (code (a ! 3)))"

text \<open>The address of the request: \<open>None\<close> closes the connection; an unknown type goes on without an address.\<close>

definition socks_addr :: "nat \<Rightarrow> string list \<Rightarrow> (string option \<times> string list) option" where
  "socks_addr atyp cs =
     (if atyp = 1 then map_option (\<lambda>(a, r). (Some (dotted a), r)) (recv_all 4 cs)
      else if atyp = 3 then
        (case recv_all 1 cs of
           None \<Rightarrow> None
         | Some (l, r) \<Rightarrow>
             if code (l ! 0) < 1 then None
             else map_option (\<lambda>(d, r2). (Some d, r2)) (recv_all (code (l ! 0)) r))
      else if atyp = 4 then None
      else Some (None, cs))"

definition socks_request :: "string list \<Rightarrow> ((string \<times> nat) \<times> string list) option" where
  "socks_request cs =
     (case recv_all 4 cs of
        None \<Rightarrow> None
      | Some (hdr, r) \<Rightarrow>
          if code (hdr ! 1) \<noteq> 1 then None
          else (case socks_addr (code (hdr ! 3)) r of
                  None \<Rightarrow> None
                | Some (addr, r2) \<Rightarrow>
                    (case recv_all 2 r2 of
                       None \<Rightarrow> None
                     | Some (p, r3) \<Rightarrow>
                         let port = 256 * code (p ! 0) + code (p ! 1)
                         in (case addr of
                               None \<Rightarrow> None
                             | Some a \<Rightarrow> if port = 0 then None else Some ((a, port), r3)))))"

text \<open>The whole negotiation: the bytes written, and the target with the input left.\<close>

definition socks_negotiate :: "auth_config \<Rightarrow> string list \<Rightarrow> string \<times> ((string \<times> nat) \<times> string list) option" where
  "socks_negotiate auth cs =
     (case socks_greeting auth cs of
        (w, None) \<Rightarrow> (w, None)
      | (w, Some (False, r)) \<Rightarrow> (w, socks_request r)
      | (w, Some (True, r)) \<Rightarrow>
          (case socks_userpass auth r of
             (w2, None) \<Rightarrow> (w @ w2, None)
           | (w2, Some r2) \<Rightarrow> (w @ w2, socks_request r2)))"

text \<open>The final reply, and the first address that can be connected to.\<close>

definition socks_reply :: "bool \<Rightarrow> string" where
  "socks_reply ok = CHR 0x05 # (if ok then CHR 0x00 else CHR 0x01) # CHR 0x00 # CHR 0x01 # replicate 6 (CHR 0x00)"

definition connect_target :: "('a \<Rightarrow> bool) \<Rightarrow> 'a list option \<Rightarrow> 'a option" where
  "connect_target connects res = (case res of None \<Rightarrow> None | Some as \<Rightarrow> find connects as)"

text \<open>
  What the proxy mode does with a connection: negotiate and tunnel to a target, forward to the HTTP target, or
  close. \<open>resolve\<close> is \<open>getaddrinfo\<close>.
\<close>

datatype 'a proxy_action = Tunnel 'a "string list" | Forward string | CloseConn

definition proxy_conn ::
    "auth_config \<Rightarrow> string \<Rightarrow> (string \<Rightarrow> nat \<Rightarrow> 'a list option) \<Rightarrow> ('a \<Rightarrow> bool) \<Rightarrow> string list \<Rightarrow> string \<times> 'a proxy_action" where
  "proxy_conn auth httpTarget resolve connects cs =
     (let proto = detectProtocol (case cs of [] \<Rightarrow> [] | c # _ \<Rightarrow> c)
      in if proto = ''socks5'' then
           (case socks_negotiate auth cs of
              (w, None) \<Rightarrow> (w, CloseConn)
            | (w, Some ((a, p), r)) \<Rightarrow>
                (case connect_target connects (resolve a p) of
                   None \<Rightarrow> (w @ socks_reply False, CloseConn)
                 | Some t \<Rightarrow> (w @ socks_reply True, Tunnel t r)))
         else if proto = ''http'' \<and> httpTarget \<noteq> [] then ([], Forward httpTarget)
         else ([], CloseConn))"

section \<open>Streams\<close>

text \<open>What a socket delivers in all.\<close>

definition avail :: "string list \<Rightarrow> string" where
  "avail cs = concat (takeWhile (\<lambda>c. c \<noteq> []) cs)"

lemma avail_simps [simp]: "avail [] = []" "avail (c # cs) = (if c = [] then [] else c @ avail cs)"
  by (simp_all add: avail_def)

lemma recv_exact_avail:
  "fst (recv_exact n cs) = take n (avail cs) \<and> (length (avail cs) \<ge> n \<longrightarrow> avail (snd (recv_exact n cs)) = drop n (avail cs))"
proof (induction n cs rule: recv_exact.induct)
  case (2 n c cs)
  show ?case
  proof (cases "n = 0 \<or> c = [] \<or> n < length c")
    case True
    then show ?thesis by auto
  next
    case False
    then have e: "recv_exact n (c # cs) = (c @ fst (recv_exact (n - length c) cs), snd (recv_exact (n - length c) cs))"
      by (simp add: split_beta)
    show ?thesis using False 2 unfolding e by (simp add: le_diff_conv)
  qed
qed simp

lemma recv_all_Some: "recv_all n cs = Some (d, r) \<Longrightarrow> avail cs = d @ avail r \<and> length d = n"
proof -
  assume "recv_all n cs = Some (d, r)"
  then have d: "d = fst (recv_exact n cs)" "length d = n" "r = snd (recv_exact n cs)"
    by (auto simp: recv_all_def Let_def split_beta split: if_splits)
  then have "d = take n (avail cs)" using recv_exact_avail [of n cs] by simp
  moreover from this have "n \<le> length (avail cs)" using d(2) by simp
  moreover from this have "avail r = drop n (avail cs)" using d(3) recv_exact_avail [of n cs] by simp
  ultimately show ?thesis using d(2) by (metis append_take_drop_id)
qed

lemma recv_all_append: "avail cs = d @ t \<Longrightarrow> length d = n \<Longrightarrow> \<exists>r. recv_all n cs = Some (d, r) \<and> avail r = t"
  using recv_exact_avail [of n cs] by (auto simp: recv_all_def Let_def split_beta)

section \<open>Properties\<close>

lemma write_all_prefix:
  "\<exists>t. data = fst (write_all data ws) @ t \<and> (fst (snd (write_all data ws)) \<longrightarrow> t = [])"
proof (induction data ws rule: write_all.induct)
  case (2 data w ws)
  show ?case
  proof (cases "data = [] \<or> w = 0")
    case False
    then obtain t where t: "drop w data = fst (write_all (drop w data) ws) @ t"
        "fst (snd (write_all (drop w data) ws)) \<longrightarrow> t = []" using 2 by blast
    then have "data = (take w data @ fst (write_all (drop w data) ws)) @ t" by (metis append_assoc append_take_drop_id)
    with t(2) False show ?thesis by (auto simp: split_beta Let_def)
  qed auto
qed auto

text \<open>
  C29: a tunnel copies faithfully: whatever pieces are read and however few bytes each write takes, the bytes written are a prefix of
  those read, in order, and all of them when the copy ends at the end of its source.
\<close>
theorem pipeRelay_faithful:
  "\<exists>t. avail cs = fst (pipeRelay cs ws) @ t \<and> (snd (pipeRelay cs ws) \<longrightarrow> t = [])"
proof (induction cs ws rule: pipeRelay.induct)
  case (2 c cs ws)
  obtain out ok ws' where w: "write_all c ws = (out, ok, ws')" by (cases "write_all c ws") auto
  obtain t where t: "c = out @ t" "ok \<longrightarrow> t = []" using write_all_prefix [of c ws] w by auto
  show ?case
  proof (cases "c = []")
    case False
    show ?thesis
    proof (cases ok)
      case True
      obtain rest fin where p: "pipeRelay cs ws' = (rest, fin)" by (cases "pipeRelay cs ws'") auto
      from "2.IH" [OF False w [symmetric]] True p obtain u where "avail cs = rest @ u" "fin \<longrightarrow> u = []" by auto
      then show ?thesis using False True w p t by simp
    next
      case nok: False
      then show ?thesis using False w t by auto
    qed
  qed simp
qed simp

theorem pipeRelay_faithful_witness:
  "\<exists>t. ''abcd'' = fst (pipeRelay [''abc'', ''d''] [2, 1, 0]) @ t \<and> length t = 1"
  using pipeRelay_faithful [of "[''abc'', ''d'']" "[2, 1, 0]"] by (simp add: Let_def split_beta)

text \<open>
  C16: a configured password cannot be avoided: with user and password authentication, a client reaches the point of a connection only if its
  stream offers that method and carries exactly the configured name and password.
\<close>
theorem socks_password_required:
  assumes "au_type auth = ''userpass''" and "socks_negotiate auth cs = (w, Some tr)"
  shows "\<exists>v n methods v2 lu lp rest. avail cs = [v, n] @ methods @ [v2, lu] @ au_username auth @ [lp] @ au_password auth @ rest \<and>
    length methods = code n \<and> CHR 0x02 \<in> set methods \<and> code lu = length (au_username auth) \<and>
    code lp = length (au_password auth) \<and> w = [CHR 0x05, CHR 0x02, CHR 0x01, CHR 0x00]"
proof -
  have two: "length b = 2 \<Longrightarrow> b = [b ! 0, b ! 1]" for b :: string by (cases b; cases "tl b") auto
  have one: "length b = 1 \<Longrightarrow> b = [b ! 0]" for b :: string by (cases b) auto
  from assms obtain w1 r where g: "socks_greeting auth cs = (w1, Some (True, r))"
    by (auto simp: socks_negotiate_def socks_greeting_def socks_method_def split: option.splits prod.splits if_splits bool.splits)
  then obtain w2 r2 where u: "socks_userpass auth r = (w2, Some r2)" and w: "w = w1 @ w2"
    using assms(2) by (auto simp: socks_negotiate_def split: option.splits prod.splits)
  from g obtain b r0 methods where gb: "recv_all 2 cs = Some (b, r0)" "recv_all (code (b ! 1)) r0 = Some (methods, r)"
      "CHR 0x02 \<in> set methods" "w1 = [CHR 0x05, CHR 0x02]"
    using assms(1) by (auto simp: socks_greeting_def socks_method_def method_byte_def split: option.splits if_splits)
  from u obtain b2 r1 r3 l r4 where ub: "recv_all 2 r = Some (b2, r1)" "recv_all (code (b2 ! 1)) r1 = Some (au_username auth, r3)"
      "recv_all 1 r3 = Some (l, r4)" "recv_all (code (l ! 0)) r4 = Some (au_password auth, r2)" "w2 = [CHR 0x01, CHR 0x00]"
    by (auto simp: socks_userpass_def split: option.splits if_splits)
  note a = recv_all_Some [OF gb(1)] recv_all_Some [OF gb(2)] recv_all_Some [OF ub(1)] recv_all_Some [OF ub(2)]
    recv_all_Some [OF ub(3)] recv_all_Some [OF ub(4)]
  have "avail cs = [b ! 0, b ! 1] @ methods @ [b2 ! 0, b2 ! 1] @ au_username auth @ [l ! 0] @ au_password auth @ avail r2"
    using a two [of b] two [of b2] one [of l] by metis
  then show ?thesis using a gb(3,4) ub(5) w by (metis append_Cons append_Nil)
qed

theorem socks_password_required_witness:
  "\<exists>v n methods v2 lu lp rest. avail [[CHR 0x05, CHR 0x01], [CHR 0x02, CHR 0x01, CHR 0x01, CHR ''u'', CHR 0x01, CHR ''p''],
      [CHR 0x05, CHR 0x01, CHR 0x00, CHR 0x01, CHR 0x7F, CHR 0x00, CHR 0x00, CHR 0x01], [CHR 0x00, CHR 0x50]] =
    [v, n] @ methods @ [v2, lu] @ ''u'' @ [lp] @ ''p'' @ rest \<and> CHR 0x02 \<in> set methods"
proof -
  have "\<exists>t. socks_negotiate \<lparr>au_type = ''userpass'', au_username = ''u'', au_password = ''p''\<rparr>
     [[CHR 0x05, CHR 0x01], [CHR 0x02, CHR 0x01, CHR 0x01, CHR ''u'', CHR 0x01, CHR ''p''],
      [CHR 0x05, CHR 0x01, CHR 0x00, CHR 0x01, CHR 0x7F, CHR 0x00, CHR 0x00, CHR 0x01], [CHR 0x00, CHR 0x50]]
     = ([CHR 0x05, CHR 0x02, CHR 0x01, CHR 0x00], Some t)"
    by (simp add: socks_negotiate_def socks_greeting_def socks_userpass_def socks_method_def method_byte_def
        socks_request_def socks_addr_def recv_all_def Let_def)
  then obtain t where t: "socks_negotiate \<lparr>au_type = ''userpass'', au_username = ''u'', au_password = ''p''\<rparr>
     [[CHR 0x05, CHR 0x01], [CHR 0x02, CHR 0x01, CHR 0x01, CHR ''u'', CHR 0x01, CHR ''p''],
      [CHR 0x05, CHR 0x01, CHR 0x00, CHR 0x01, CHR 0x7F, CHR 0x00, CHR 0x00, CHR 0x01], [CHR 0x00, CHR 0x50]]
     = ([CHR 0x05, CHR 0x02, CHR 0x01, CHR 0x00], Some t)" by blast
  show ?thesis using socks_password_required [OF _ t] by fastforce
qed



end
