(* ===== verification/GK_RelayLoop.thy ===== *)
theory GK_RelayLoop
  imports GK_Relay GK_Proxy
begin

text \<open>
  The listening threads of a port: \<open>listenLoop\<close>, \<open>mixedListenLoop\<close> and \<open>socks5ListenLoop\<close> of \<open>relay.cpp\<close>, as step functions over a
  program counter and the relay. A step takes the answers of the system that it asks for, and gives the actions it takes. The loops run beside
  the backend monitor and the control threads, which change the same relay between two steps: \<open>relay_env\<close>. Sleeps are steps
  without effect; a step goes from one blocking call or sleep to the next.
\<close>

section \<open>Program counters, answers, actions\<close>

text \<open>
  The points of a loop: its head, the sleep while an external process holds the port, the sleep after a failed bind, the launch, the accept
  loop, the wait for the launched child, the code after the accept loop, the delay, the wait for the port, the wait for the backend (proxy
  mode), the end of the thread.
\<close>

datatype lpc = LTop | LExternal | LRetry | LStart | LAccept | LLaunch int | LClose | LDelay | LInUse | LBackend | LDone

text \<open>What \<open>accept\<close> gives: an error (whether it is \<open>EINVAL\<close>), or a client with what the peeks at it deliver: the detection, and the two peeks of the refresh route.\<close>

datatype accepted = NoClient bool | Client string string string

record answers =
  an_fd :: int
  an_bound :: bool
  an_pid :: int
  an_now :: int
  an_wait :: wait_result
  an_client :: accepted
  an_mem :: "sys_metrics option"
  an_valid :: bool
  an_reached :: bool

datatype lact = SendStart | SendBusy | SendMixed string | Refreshed int | CloseClient | Launch int | Notify | LaunchProto string | Proxy string | Serve string

section \<open>Parts of the loops\<close>

text \<open>The bind and what follows its failure, up to the sleep.\<close>

definition bind_attempt :: "(int \<Rightarrow> relay \<Rightarrow> relay) \<Rightarrow> answers \<Rightarrow> relay \<Rightarrow> lpc \<times> relay" where
  "bind_attempt bind_ok a r =
     (if an_fd a < 0 then
        (let (adopted, r2) = tryAdoptExternalOccupant (an_bound a) (count_failure (r\<lparr>r_listenFd := an_fd a\<rparr>))
         in (if adopted then LTop else LRetry, r2))
      else (LAccept, bind_ok (an_fd a) r))"

text \<open>\<open>launchAndRelease\<close> in two steps: up to the wait for the child, and after it.\<close>

definition launch_begin :: "answers \<Rightarrow> relay \<Rightarrow> lpc \<times> relay" where
  "launch_begin a r =
     (if an_pid a < 0 then (LClose, r)
      else (LLaunch (an_pid a), r\<lparr>r_backendPid := an_pid a, r_lastActiveTime := an_now a, r_listenFd := - 1\<rparr>))"

definition launch_end :: "wait_result \<Rightarrow> int \<Rightarrow> relay \<Rightarrow> lpc \<times> relay" where
  "launch_end w pid r =
     (case w of
        WaitBlocks \<Rightarrow> (LLaunch pid, r)
      | WaitError \<Rightarrow> (LClose, r)
      | WaitExited st \<Rightarrow> (LClose, if exec_failed st then r\<lparr>r_backendPid := 0\<rparr> else r))"

definition external_wake :: "answers \<Rightarrow> relay \<Rightarrow> lpc \<times> relay" where
  "external_wake a r = (if r_stop r then (LDone, r) else (LTop, poll_external (an_bound a) r))"

definition retry_wake :: "relay \<Rightarrow> lpc \<times> relay" where
  "retry_wake r = (if r_stop r then (LDone, r) else (LTop, back_off r))"

definition delay_wake :: "answers \<Rightarrow> relay \<Rightarrow> lpc \<times> relay" where
  "delay_wake a r = (if r_stop r then (LDone, r) else if relay_port r > 0 \<and> an_bound a then (LInUse, r) else (LTop, r))"

text \<open>The wait for the release of the port; the proxy mode does not look at the backend there.\<close>

definition in_use_wake :: "answers \<Rightarrow> relay \<Rightarrow> lpc \<times> relay" where
  "in_use_wake a r =
     (if r_stop r then (LDone, r) else if r_backendPid r > 0 then (LTop, r) else if \<not> an_bound a then (LTop, r) else (LInUse, r))"

definition in_use_wake_proxy :: "answers \<Rightarrow> relay \<Rightarrow> lpc \<times> relay" where
  "in_use_wake_proxy a r = (if r_stop r then (LDone, r) else if \<not> an_bound a then (LTop, r) else (LInUse, r))"

section \<open>Simple mode\<close>

definition simple_top :: "answers \<Rightarrow> relay \<Rightarrow> lpc \<times> relay" where
  "simple_top a r =
     (if r_stop r then (LDone, r)
      else if r_groupReleased r then (LDone, r)
      else if r_backendPid r > 0 then (LTop, r)
      else if r_externalOccupied r then (LExternal, r)
      else let (pc, r1) = bind_attempt bind_ok_simple a r
           in if pc = LAccept \<and> r_launchOnStart r1 then (LStart, r1\<lparr>r_launchOnStart := False\<rparr>) else (pc, r1))"

text \<open>One round of the accept loop. \<open>accept\<close> on a closed socket fails, but not with \<open>EINVAL\<close>.\<close>

definition simple_accept :: "eviction_config \<Rightarrow> answers \<Rightarrow> relay \<Rightarrow> (lpc \<times> relay) \<times> lact list" where
  "simple_accept ec a r =
     (if r_stop r then ((LClose, r), [])
      else case (if r_listenFd r < 0 then NoClient False else an_client a) of
             NoClient einval \<Rightarrow> ((if einval then LClose else LAccept, r), [])
           | Client p8 p1 p2 \<Rightarrow>
               (case tryHandleRefreshRequest p1 p2 r of
                  Some (r1, s) \<Rightarrow> ((LAccept, r1), [Refreshed s, CloseClient])
                | None \<Rightarrow>
                    if r_evicted r \<and> \<not> relaunchMemoryOk ec (an_mem a) then ((LAccept, r), [SendBusy, CloseClient])
                    else let r1 = r\<lparr>r_evicted := False\<rparr>
                         in if r_group r1 \<noteq> None then ((LClose, r1), [SendStart, CloseClient, Notify])
                            else if r_backendPid r1 = 0 then ((LStart, r1), [SendStart, CloseClient])
                            else ((LAccept, r1), [SendStart, CloseClient])))"

definition simple_close :: "relay \<Rightarrow> lpc \<times> relay" where
  "simple_close r =
     (let r1 = r\<lparr>r_listenFd := - 1\<rparr> in if \<not> r_autoRestart r1 \<or> r_stop r1 then (LDone, r1) else (LDelay, r1))"

definition simple_step :: "eviction_config \<Rightarrow> answers \<Rightarrow> lpc \<times> relay \<Rightarrow> (lpc \<times> relay) \<times> lact list" where
  "simple_step ec a s =
     (case s of (pc, r) \<Rightarrow>
        (case pc of
           LTop \<Rightarrow> (simple_top a r, [])
         | LExternal \<Rightarrow> (external_wake a r, [])
         | LRetry \<Rightarrow> (retry_wake r, [])
         | LStart \<Rightarrow> (launch_begin a r, [Launch (an_pid a)])
         | LAccept \<Rightarrow> simple_accept ec a r
         | LLaunch pid \<Rightarrow> (launch_end (an_wait a) pid r, [])
         | LClose \<Rightarrow> (simple_close r, [])
         | LDelay \<Rightarrow> (delay_wake a r, [])
         | LInUse \<Rightarrow> (in_use_wake a r, [])
         | LBackend \<Rightarrow> ((LDone, r), [])
         | LDone \<Rightarrow> ((LDone, r), [])))"

section \<open>Mixed mode\<close>

fun replace_backend :: "backend_state \<Rightarrow> backend_state list \<Rightarrow> backend_state list" where
  "replace_backend b [] = []"
| "replace_backend b (x # xs) = (if bs_type x = bs_type b then b # xs else x # replace_backend b xs)"

text \<open>Before the loop; \<open>qs\<close> are the answers for the launches of all protocol backends, one after the other.\<close>

fun launch_protocols :: "(int \<times> bool \<times> bool) list \<Rightarrow> relay \<Rightarrow> backend_state list \<Rightarrow> relay \<times> backend_state list" where
  "launch_protocols [] r bs = (r, bs)"
| "launch_protocols q r [] = (r, [])"
| "launch_protocols ((pid, valid, reached) # qs) r (b # bs) =
     (let (r1, b1) = launchProtocolBackend pid valid reached (r, b); (r2, bs2) = launch_protocols qs r1 bs in (r2, b1 # bs2))"

definition mixed_init :: "(int \<times> bool \<times> bool) list \<Rightarrow> relay \<Rightarrow> lpc \<times> relay" where
  "mixed_init qs r =
     (if \<not> r_holdPort r then (LTop, r)
      else let r1 = init_backends r
           in if r_backends r1 = [] then (LDone, r1)
              else if \<not> r_launchOnStart r1 then (LTop, r1)
              else let (r2, bs) = launch_protocols qs (r1\<lparr>r_launchOnStart := False\<rparr>) (r_backends r1) in (LTop, r2\<lparr>r_backends := bs\<rparr>))"

definition mixed_top :: "answers \<Rightarrow> relay \<Rightarrow> lpc \<times> relay" where
  "mixed_top a r =
     (if r_stop r then (LDone, r)
      else if r_backendPid r > 0 then (LTop, r)
      else if r_externalOccupied r then (LExternal, r)
      else let (pc, r1) = bind_attempt bind_ok_mixed a r
           in if pc = LAccept \<and> \<not> r_holdPort r1 \<and> r_launchOnStart r1 then (LStart, r1\<lparr>r_launchOnStart := False\<rparr>) else (pc, r1))"

text \<open>\<open>sendMixedResponse\<close> on the relay: an HTTP client may send a refresh request.\<close>

definition mixed_reply :: "string \<Rightarrow> string \<Rightarrow> string \<Rightarrow> relay \<Rightarrow> relay \<times> lact list" where
  "mixed_reply proto p1 p2 r =
     (if proto = ''http'' then
        (case tryHandleRefreshRequest p1 p2 r of Some (r1, s) \<Rightarrow> (r1, [Refreshed s]) | None \<Rightarrow> (r, [SendStart]))
      else (r, [SendMixed proto]))"

text \<open>A client of the hold-port mode.\<close>

definition hold_client :: "answers \<Rightarrow> string \<Rightarrow> string \<Rightarrow> string \<Rightarrow> relay \<Rightarrow> (lpc \<times> relay) \<times> lact list" where
  "hold_client a proto p1 p2 r =
     (case findBackend proto r of
        None \<Rightarrow> ((LAccept, r), [CloseClient])
      | Some b \<Rightarrow>
          let (r1, b1) = (if bs_pid b = 0 then launchProtocolBackend (an_pid a) (an_valid a) (an_reached a) (r, b) else (r, b));
              acts = (if bs_pid b = 0 \<and> \<not> bs_ready b then [LaunchProto proto] else []);
              r2 = r1\<lparr>r_backends := replace_backend b1 (r_backends r1)\<rparr>
          in if bs_ready b1 then ((LAccept, r2), acts @ [Proxy (bs_proxyTo b1)])
             else let (r3, sent) = mixed_reply proto p1 p2 r2 in ((LAccept, r3), acts @ sent))"

definition mixed_accept :: "eviction_config \<Rightarrow> answers \<Rightarrow> relay \<Rightarrow> (lpc \<times> relay) \<times> lact list" where
  "mixed_accept ec a r =
     (if r_stop r then ((LClose, r), [])
      else case (if r_listenFd r < 0 then NoClient False else an_client a) of
             NoClient einval \<Rightarrow> ((if einval then LClose else LAccept, r), [])
           | Client p8 p1 p2 \<Rightarrow>
               let proto = detectProtocol p8
               in if proto = ''unknown'' then ((LAccept, r), [CloseClient])
                  else if r_holdPort r then hold_client a proto p1 p2 r
                  else if r_evicted r \<and> \<not> relaunchMemoryOk ec (an_mem a) then
                    (let (r1, sent) = mixed_reply proto p1 p2 r in ((LAccept, r1), sent @ [CloseClient]))
                  else let (r1, sent) = mixed_reply proto p1 p2 (r\<lparr>r_evicted := False\<rparr>)
                       in ((if r_backendPid r1 = 0 then LStart else LAccept, r1), sent @ [CloseClient]))"

definition close_listener :: "relay \<Rightarrow> relay" where
  "close_listener r = (if r_listenFd r \<ge> 0 then r\<lparr>r_listenFd := - 1\<rparr> else r)"

definition mixed_close :: "relay \<Rightarrow> lpc \<times> relay" where
  "mixed_close r =
     (let r1 = close_listener r
      in if r_holdPort r1 then (LDone, r1) else if \<not> r_autoRestart r1 \<or> r_stop r1 then (LDone, r1) else (LDelay, r1))"

definition mixed_step :: "eviction_config \<Rightarrow> answers \<Rightarrow> lpc \<times> relay \<Rightarrow> (lpc \<times> relay) \<times> lact list" where
  "mixed_step ec a s =
     (case s of (pc, r) \<Rightarrow>
        (case pc of
           LTop \<Rightarrow> (mixed_top a r, [])
         | LExternal \<Rightarrow> (external_wake a r, [])
         | LRetry \<Rightarrow> (retry_wake r, [])
         | LStart \<Rightarrow> (launch_begin a r, [Launch (an_pid a)])
         | LAccept \<Rightarrow> mixed_accept ec a r
         | LLaunch pid \<Rightarrow> (launch_end (an_wait a) pid r, [])
         | LClose \<Rightarrow> (mixed_close r, [])
         | LDelay \<Rightarrow> (delay_wake a r, [])
         | LInUse \<Rightarrow> (in_use_wake a r, [])
         | LBackend \<Rightarrow> ((LDone, r), [])
         | LDone \<Rightarrow> ((LDone, r), [])))"

section \<open>Proxy mode\<close>

definition socks5_top :: "answers \<Rightarrow> relay \<Rightarrow> lpc \<times> relay" where
  "socks5_top a r =
     (if r_stop r then (LDone, r)
      else if r_backendPid r > 0 then (LTop, r)
      else if r_externalOccupied r then (LExternal, r)
      else bind_attempt bind_ok_socks5 a r)"

text \<open>Each client is served to its end before the next one is accepted; \<open>proxy_conn\<close> says how.\<close>

definition socks5_accept :: "answers \<Rightarrow> relay \<Rightarrow> (lpc \<times> relay) \<times> lact list" where
  "socks5_accept a r =
     (if r_stop r then ((LClose, r), [])
      else case (if r_listenFd r < 0 then NoClient False else an_client a) of
             NoClient einval \<Rightarrow> ((if einval then LClose else LAccept, r), [])
           | Client p8 p1 p2 \<Rightarrow> ((LAccept, r), [Serve (detectProtocol p8), CloseClient]))"

definition socks5_close :: "relay \<Rightarrow> lpc \<times> relay" where
  "socks5_close r = (let r1 = close_listener r in if \<not> r_autoRestart r1 \<or> r_stop r1 then (LDone, r1) else (LBackend, r1))"

definition backend_wake :: "relay \<Rightarrow> lpc \<times> relay" where
  "backend_wake r = (if r_stop r then (LDone, r) else if r_backendPid r \<noteq> 0 then (LBackend, r) else (LDelay, r))"

text \<open>This loop launches nothing: its thread is never at \<open>LStart\<close> or \<open>LLaunch\<close>, as the two others are never at \<open>LBackend\<close>.\<close>

definition socks5_step :: "answers \<Rightarrow> lpc \<times> relay \<Rightarrow> (lpc \<times> relay) \<times> lact list" where
  "socks5_step a s =
     (case s of (pc, r) \<Rightarrow>
        (case pc of
           LTop \<Rightarrow> (socks5_top a r, [])
         | LExternal \<Rightarrow> (external_wake a r, [])
         | LRetry \<Rightarrow> (retry_wake r, [])
         | LAccept \<Rightarrow> socks5_accept a r
         | LClose \<Rightarrow> (socks5_close r, [])
         | LBackend \<Rightarrow> (backend_wake r, [])
         | LDelay \<Rightarrow> (delay_wake a r, [])
         | LInUse \<Rightarrow> (in_use_wake_proxy a r, [])
         | LStart \<Rightarrow> ((LClose, r), [])
         | LLaunch pid \<Rightarrow> ((LClose, r), [])
         | LDone \<Rightarrow> ((LDone, r), [])))"

section \<open>The threads of a relay\<close>

text \<open>\<open>PortRelay::start\<close>: the threads it creates; any mode but the two special ones is the simple one.\<close>

datatype relay_thread = SimpleThread | MixedThread | Socks5Thread | ProxyMonitorThread | BackendMonitorThread

definition relay_start :: "relay \<Rightarrow> relay_thread list" where
  "relay_start r =
     (if r_mode r = ''mixed'' then MixedThread # (if r_holdPort r then [ProxyMonitorThread] else [])
      else if r_mode r = ''proxy'' then [Socks5Thread]
      else [SimpleThread]) @ [BackendMonitorThread]"

section \<open>The other threads\<close>

text \<open>
  What happens to a relay between two steps of its loop: a round of its backend monitor, a stop, the removal, the stop of its backend, the TCP monitor's
  activity and its bookkeeping, a refresh value, the eviction mark and the end of the protocol backends, their monitor, the release of the socket by its
  group (\<open>onConnection\<close> of a sibling, with a launched child or without) and the clearing of the group's mark.
\<close>

inductive relay_env :: "relay \<Rightarrow> relay \<Rightarrow> bool" where
  env_monitor: "monitor_round w freed finds self now r = Some (r', goes_on) \<Longrightarrow> relay_env r r'"
| env_stop: "relay_env r (signalStop r)"
| env_remove: "relay_env r (setPendingRemoval r)"
| env_graceful: "relay_env r (fst (gracefulStop bounds polls1 polls2 r))"
| env_activity: "relay_env r (updateActivity now active r)"
| env_refresh: "relay_env r (fst (setRefreshSeconds secs r))"
| env_evicted: "relay_env r (r\<lparr>r_evicted := True\<rparr>)"
| env_proxies: "relay_env r (proxy_monitor_round alive r)"
| env_released: "relay_env r (r\<lparr>r_listenFd := - 1\<rparr>)"
| env_forced: "relay_env r (forceReleasePort r)"
| env_cleared: "relay_env r (clearGroupLaunch r)"
| env_sampled: "relay_env r (r\<lparr>r_lastSampleTime := t, r_lastNonListen := n, r_logDedupCounter := c\<rparr>)"
| env_killed: "relay_env r (r\<lparr>r_backends := fst (evict_backends alive (r_backends r))\<rparr>)"
| env_launched: "r_backendPid r = 0 \<Longrightarrow> 0 < pid \<Longrightarrow> relay_env r (r\<lparr>r_backendPid := pid, r_lastActiveTime := now\<rparr>)"

inductive_simps relay_env_iff: "relay_env r r'"

text \<open>The states a listening thread reaches from a start, with the actions so far, in any interleaving with the other threads.\<close>

inductive loop_reach ::
    "(answers \<Rightarrow> lpc \<times> relay \<Rightarrow> (lpc \<times> relay) \<times> lact list) \<Rightarrow> lpc \<times> relay \<Rightarrow> lpc \<times> relay \<Rightarrow> lact list \<Rightarrow> bool"
    for step and s0 where
  reach_start: "loop_reach step s0 s0 []"
| reach_own: "loop_reach step s0 s tr \<Longrightarrow> step a s = (s', acts) \<Longrightarrow> loop_reach step s0 s' (tr @ acts)"
| reach_env: "loop_reach step s0 (pc, r) tr \<Longrightarrow> relay_env r r' \<Longrightarrow> loop_reach step s0 (pc, r') tr"

text \<open>A thread on its own.\<close>

fun thread_run :: "(answers \<Rightarrow> lpc \<times> relay \<Rightarrow> (lpc \<times> relay) \<times> lact list) \<Rightarrow> answers list \<Rightarrow> lpc \<times> relay \<Rightarrow> (lpc \<times> relay) \<times> lact list" where
  "thread_run step [] s = (s, [])"
| "thread_run step (a # as) s = (let (s1, acts) = step a s; (s2, more) = thread_run step as s1 in (s2, acts @ more))"

end
