(* ===== verification/GK_RelayLoopProps.thy ===== *)
theory GK_RelayLoopProps
  imports GK_RelayLoop
begin

text \<open>
  Properties of the listening threads. What the three loops share is the locale \<open>listen_loop\<close>: the socket is closed outside the accept
  loop, a stopped loop ends in a bounded number of steps, and a loop without restart launches once. The locale is
  interpreted on each of the three step functions.
\<close>

section \<open>The interface of a loop\<close>

definition fd_inv :: "lpc \<times> relay \<Rightarrow> bool" where
  "fd_inv s \<longleftrightarrow> (fst s \<notin> {LStart, LAccept, LClose} \<longrightarrow> r_listenFd (snd s) < 0)"

fun rank :: "lpc \<Rightarrow> nat" where
  "rank LStart = 4"
| "rank LAccept = 3"
| "rank (LLaunch _) = 3"
| "rank LClose = 2"
| "rank LDone = 0"
| "rank _ = 1"

definition late :: "lpc \<Rightarrow> bool" where
  "late pc \<longleftrightarrow> pc = LClose \<or> pc = LDone \<or> (\<exists>p. pc = LLaunch p)"

definition is_launch :: "lact \<Rightarrow> bool" where
  "is_launch x = (case x of Launch _ \<Rightarrow> True | _ \<Rightarrow> False)"

definition launches :: "lact list \<Rightarrow> nat" where
  "launches tr = length (filter is_launch tr)"

lemma launches_simps [simp]: "launches [] = 0" "launches (x # tr) = (if is_launch x then 1 else 0) + launches tr"
    "launches (tr @ tr') = launches tr + launches tr'"
  by (simp_all add: launches_def)

lemma is_launch_simps [simp]: "is_launch (Launch p)" "\<not> is_launch SendStart" "\<not> is_launch SendBusy" "\<not> is_launch (SendMixed x)"
    "\<not> is_launch (Refreshed i)" "\<not> is_launch CloseClient" "\<not> is_launch Notify" "\<not> is_launch (LaunchProto x)" "\<not> is_launch (Proxy x)"
    "\<not> is_launch (Serve x)"
  by (simp_all add: is_launch_def)

text \<open>What the steps of a loop and of the other threads keep.\<close>

definition keeps :: "relay \<Rightarrow> relay \<Rightarrow> bool" where
  "keeps r r' \<longleftrightarrow> r_autoRestart r' = r_autoRestart r \<and> (r_stop r \<longrightarrow> r_stop r')"

lemma keeps_refl [simp]: "keeps r r" by (simp add: keeps_def)

locale listen_loop =
  fixes step :: "answers \<Rightarrow> lpc \<times> relay \<Rightarrow> (lpc \<times> relay) \<times> lact list"
  assumes step_fd: "fd_inv s \<Longrightarrow> fd_inv (fst (step a s))"
    and step_keeps: "keeps (snd s) (snd (fst (step a s)))"
    and step_rank: "r_stop (snd s) \<Longrightarrow> an_wait a \<noteq> WaitBlocks \<Longrightarrow> rank (fst (fst (step a s))) \<le> rank (fst s) - 1"
    and step_launches: "launches (snd (step a s)) \<le> (if fst s = LStart then 1 else 0)"
    and step_late: "\<not> r_autoRestart (snd s) \<Longrightarrow> late (fst s) \<or> fst s = LStart \<Longrightarrow> late (fst (fst (step a s)))"

section \<open>The other threads\<close>

lemma adopt_keeps: "keeps r (snd (tryAdoptExternalOccupant b r))"
  by (simp add: tryAdoptExternalOccupant_def keeps_def)

lemma monitor_round_keeps: "monitor_round w f fs self now r = Some (r', g) \<Longrightarrow> keeps r r' \<and> r_listenFd r' = r_listenFd r"
  by (auto simp: monitor_round_def keeps_def split: if_splits wait_result.splits option.splits)

lemma gracefulStop_keeps: "keeps r (fst (gracefulStop b p q r)) \<and> r_listenFd (fst (gracefulStop b p q r)) = r_listenFd r"
  by (simp add: gracefulStop_def recycle_external_def keeps_def Let_def)

lemma relay_env_keeps: "relay_env r r' \<Longrightarrow> keeps r r' \<and> (r_listenFd r' = r_listenFd r \<or> r_listenFd r' = - 1)"
proof (induction rule: relay_env.induct)
  case (env_monitor w f fs self now r r' g)
  then show ?case using monitor_round_keeps by blast
next
  case (env_graceful b p q r)
  then show ?case using gracefulStop_keeps by blast
qed (auto simp: signalStop_def setPendingRemoval_def updateActivity_def setRefreshSeconds_def proxy_monitor_round_def forceReleasePort_def
    clearGroupLaunch_def keeps_def Let_def)

context listen_loop
begin

lemma reach_fd: "loop_reach step s0 s tr \<Longrightarrow> fd_inv s0 \<Longrightarrow> fd_inv s"
proof (induction rule: loop_reach.induct)
  case (reach_own s tr a s' acts)
  then show ?case using step_fd [of s a] by simp
next
  case (reach_env pc r tr r')
  then show ?case using relay_env_keeps [of r r'] by (auto simp: fd_inv_def)
qed

lemma reach_keeps: "loop_reach step s0 s tr \<Longrightarrow> keeps (snd s0) (snd s)"
proof (induction rule: loop_reach.induct)
  case (reach_own s tr a s' acts)
  then show ?case using step_keeps [of s a] by (auto simp: keeps_def)
next
  case (reach_env pc r tr r')
  then show ?case using relay_env_keeps [of r r'] by (auto simp: keeps_def)
qed simp

lemma reach_once:
  assumes "loop_reach step s0 s tr" and "\<not> r_autoRestart (snd s0)"
  shows "launches tr = 0 \<or> launches tr = 1 \<and> late (fst s)"
  using assms(1)
proof (induction rule: loop_reach.induct)
  case (reach_own s tr a s' acts)
  have na: "\<not> r_autoRestart (snd s)" using reach_keeps [OF reach_own.hyps(1)] assms(2) by (simp add: keeps_def)
  have l: "launches acts \<le> (if fst s = LStart then 1 else 0)" using step_launches [of a s] reach_own.hyps(2) by simp
  have s: "late (fst s) \<or> fst s = LStart \<Longrightarrow> late (fst s')" using step_late [OF na, of a] reach_own.hyps(2) by simp
  have "late (fst s) \<Longrightarrow> fst s \<noteq> LStart" by (auto simp: late_def)
  with reach_own.IH l s show ?case by (cases "fst s = LStart") auto
qed auto

lemma run_stops:
  assumes "\<forall>a\<in>set as. an_wait a \<noteq> WaitBlocks" and "r_stop (snd s)"
  shows "rank (fst (fst (thread_run step as s))) \<le> rank (fst s) - length as"
  using assms
proof (induction as arbitrary: s)
  case (Cons a as)
  have k: "r_stop (snd (fst (step a s)))" using step_keeps [of s a] Cons.prems(2) by (simp add: keeps_def)
  have "rank (fst (fst (thread_run step as (fst (step a s))))) \<le> rank (fst (fst (step a s))) - length as"
    using Cons.IH [OF _ k] Cons.prems(1) by simp
  moreover have "rank (fst (fst (step a s))) \<le> rank (fst s) - 1" using step_rank [OF Cons.prems(2)] Cons.prems(1) by simp
  ultimately show ?case by (simp add: split_beta Let_def)
qed simp

lemma run_stops_4:
  assumes "\<forall>a\<in>set as. an_wait a \<noteq> WaitBlocks" and "r_stop (snd s)" and "4 \<le> length as"
  shows "fst (fst (thread_run step as s)) = LDone"
proof -
  have "rank (fst s) \<le> 4" by (cases "fst s") auto
  then have "rank (fst (fst (thread_run step as s))) = 0" using run_stops [OF assms(1,2)] assms(3) by linarith
  then show ?thesis by (cases "fst (fst (thread_run step as s))") auto
qed

end

section \<open>The three loops\<close>

lemmas wake_defs = external_wake_def retry_wake_def delay_wake_def in_use_wake_def in_use_wake_proxy_def backend_wake_def
  poll_external_def back_off_def
lemmas launch_defs = launch_begin_def launch_end_def
lemmas field_defs = bind_ok_simple_def bind_ok_mixed_def bind_ok_socks5_def close_listener_def count_failure_def
  tryAdoptExternalOccupant_def

lemma refresh_same:
  "tryHandleRefreshRequest p1 p2 r = Some (r1, s) \<Longrightarrow> r_listenFd r1 = r_listenFd r \<and> keeps r r1 \<and> r_backendPid r1 = r_backendPid r"
  by (auto simp: tryHandleRefreshRequest_def setRefreshSeconds_def keeps_def Let_def split: option.splits if_splits)

lemma keeps_updates [simp]:
  "keeps r (r'\<lparr>r_listenFd := i\<rparr>) = keeps r r'" "keeps r (r'\<lparr>r_backendPid := i\<rparr>) = keeps r r'"
  "keeps r (r'\<lparr>r_launchOnStart := b\<rparr>) = keeps r r'" "keeps r (r'\<lparr>r_evicted := b\<rparr>) = keeps r r'"
  "keeps r (r'\<lparr>r_lastActiveTime := i\<rparr>) = keeps r r'" "keeps r (r'\<lparr>r_retrySeconds := i\<rparr>) = keeps r r'"
  "keeps r (r'\<lparr>r_consecutiveBindFailures := i\<rparr>) = keeps r r'" "keeps r (r'\<lparr>r_externalOccupied := b\<rparr>) = keeps r r'"
  "keeps r (r'\<lparr>r_backends := bs\<rparr>) = keeps r r'" "keeps r (r'\<lparr>r_command := c\<rparr>) = keeps r r'"
  "keeps r (r'\<lparr>r_delayMs := i\<rparr>) = keeps r r'"
  by (simp_all add: keeps_def)

lemma fd_inv_simps [simp]:
  "fd_inv (LStart, r)" "fd_inv (LAccept, r)" "fd_inv (LClose, r)"
  "fd_inv (LTop, r) = (r_listenFd r < 0)" "fd_inv (LExternal, r) = (r_listenFd r < 0)" "fd_inv (LRetry, r) = (r_listenFd r < 0)"
  "fd_inv (LLaunch p, r) = (r_listenFd r < 0)" "fd_inv (LDelay, r) = (r_listenFd r < 0)" "fd_inv (LInUse, r) = (r_listenFd r < 0)"
  "fd_inv (LBackend, r) = (r_listenFd r < 0)" "fd_inv (LDone, r) = (r_listenFd r < 0)"
  by (simp_all add: fd_inv_def)

lemma bind_attempt_inv:
  assumes "\<And>fd r. keeps r (f fd r)"
  shows "fd_inv (bind_attempt f a r)" and "keeps r (snd (bind_attempt f a r))"
  using assms by (simp_all add: bind_attempt_def field_defs split_beta Let_def)

lemma bind_attempt_cases:
  "fst (bind_attempt f a r) = LTop \<or> fst (bind_attempt f a r) = LRetry \<or> fst (bind_attempt f a r) = LAccept"
  by (simp add: bind_attempt_def split_beta Let_def)

lemma bind_ok_keeps: "keeps r (bind_ok_simple fd r)" "keeps r (bind_ok_mixed fd r)" "keeps r (bind_ok_socks5 fd r)"
  by (simp_all add: field_defs)

text \<open>The sleeping points.\<close>

lemma wake_inv:
  assumes "r_listenFd r < 0"
  shows "fd_inv (external_wake a r)" "fd_inv (retry_wake r)" "fd_inv (delay_wake a r)" "fd_inv (in_use_wake a r)"
    "fd_inv (in_use_wake_proxy a r)" "fd_inv (backend_wake r)" "fd_inv (launch_end w p r)"
  using assms by (simp_all add: wake_defs launch_defs split: wait_result.splits)

lemma wake_keeps:
  "keeps r (snd (external_wake a r))" "keeps r (snd (retry_wake r))" "keeps r (snd (delay_wake a r))" "keeps r (snd (in_use_wake a r))"
  "keeps r (snd (in_use_wake_proxy a r))" "keeps r (snd (backend_wake r))" "keeps r (snd (launch_end w p r))" "keeps r (snd (launch_begin a r))"
  by (simp_all add: wake_defs launch_defs split: wait_result.splits)

lemma wake_stop:
  assumes "r_stop r"
  shows "external_wake a r = (LDone, r)" "retry_wake r = (LDone, r)" "delay_wake a r = (LDone, r)" "in_use_wake a r = (LDone, r)"
    "in_use_wake_proxy a r = (LDone, r)" "backend_wake r = (LDone, r)"
  using assms by (simp_all add: wake_defs)

lemma launch_begin_cases: "fst (launch_begin a r) = LClose \<or> fst (launch_begin a r) = LLaunch (an_pid a)"
  by (simp add: launch_begin_def)

lemma launch_begin_inv: "fd_inv (launch_begin a r)"
  by (simp add: launch_begin_def)

lemma launch_end_pc: "w \<noteq> WaitBlocks \<Longrightarrow> fst (launch_end w p r) = LClose" "late (fst (launch_end w p r))"
  by (simp_all add: launch_end_def late_def split: wait_result.splits)

lemma late_simps [simp]: "late LClose" "late LDone" "late (LLaunch p)" "\<not> late LStart" "\<not> late LTop" "\<not> late LAccept" "\<not> late LExternal"
  "\<not> late LRetry" "\<not> late LDelay" "\<not> late LInUse" "\<not> late LBackend"
  by (simp_all add: late_def)

text \<open>The two steps of a launch are \<open>launchAndRelease\<close>.\<close>

lemma launch_steps:
  "launchAndRelease (an_pid a) (an_now a) w r =
     (case launch_begin a r of
        (LLaunch p, r1) \<Rightarrow>
          (case w of WaitBlocks \<Rightarrow> None
           | _ \<Rightarrow> Some (snd (launch_end w p r1), \<not> (\<exists>st. w = WaitExited st \<and> exec_failed st)))
      | (_, r1) \<Rightarrow> Some (r1, False))"
  by (simp add: launchAndRelease_def launch_defs Let_def split: wait_result.splits)

section \<open>Simple mode\<close>

lemma simple_top_inv: "r_listenFd r < 0 \<Longrightarrow> fd_inv (simple_top a r)" "keeps r (snd (simple_top a r))"
  using bind_attempt_inv [of bind_ok_simple, OF bind_ok_keeps(1)]
  by (auto simp: simple_top_def Let_def split_beta)

lemma simple_accept_inv:
  "fd_inv (fst (simple_accept ec a r)) \<and> keeps r (snd (fst (simple_accept ec a r))) \<and> launches (snd (simple_accept ec a r)) = 0"
  using refresh_same by (auto simp: simple_accept_def Let_def split: accepted.splits option.splits)

lemma simple_accept_stop: "r_stop r \<Longrightarrow> simple_accept ec a r = ((LClose, r), [])"
  by (simp add: simple_accept_def)

lemma simple_close_inv: "fd_inv (simple_close r) \<and> keeps r (snd (simple_close r))"
  by (simp add: simple_close_def Let_def)

interpretation simple_loop: listen_loop "simple_step ec" for ec
proof
  fix s :: "lpc \<times> relay" and a
  obtain pc r where s: "s = (pc, r)" by (cases s)
  show "fd_inv s \<Longrightarrow> fd_inv (fst (simple_step ec a s))"
    unfolding s by (cases pc) (simp_all add: simple_step_def simple_top_inv wake_inv launch_begin_inv simple_accept_inv simple_close_inv)
  show "keeps (snd s) (snd (fst (simple_step ec a s)))"
    unfolding s by (cases pc) (simp_all add: simple_step_def simple_top_inv wake_keeps simple_accept_inv simple_close_inv)
  show "rank (fst (fst (simple_step ec a s))) \<le> rank (fst s) - 1" if "r_stop (snd s)" "an_wait a \<noteq> WaitBlocks"
    using that launch_begin_cases [of a r] unfolding s
    by (cases pc) (auto simp: simple_step_def simple_top_def wake_stop launch_end_pc simple_accept_stop simple_close_def Let_def)
  show "launches (snd (simple_step ec a s)) \<le> (if fst s = LStart then 1 else 0)"
    unfolding s by (cases pc) (simp_all add: simple_step_def simple_accept_inv)
  show "late (fst (fst (simple_step ec a s)))" if "\<not> r_autoRestart (snd s)" "late (fst s) \<or> fst s = LStart"
    using that launch_begin_cases [of a r] unfolding s
    by (cases pc) (auto simp: simple_step_def launch_end_pc simple_close_def Let_def)
qed

section \<open>Mixed mode\<close>

lemma mixed_top_inv: "r_listenFd r < 0 \<Longrightarrow> fd_inv (mixed_top a r)" "keeps r (snd (mixed_top a r))"
  using bind_attempt_inv [of bind_ok_mixed, OF bind_ok_keeps(2)]
  by (auto simp: mixed_top_def Let_def split_beta)

lemma mixed_reply_inv: "keeps r (fst (mixed_reply proto p1 p2 r)) \<and> launches (snd (mixed_reply proto p1 p2 r)) = 0"
  using refresh_same by (auto simp: mixed_reply_def split: option.splits)

lemma launch_proto_keeps: "keeps r (fst (launchProtocolBackend pid v rc (r, b)))"
  by (simp add: launchProtocolBackend_def Let_def)

lemma keeps_trans: "keeps r s \<Longrightarrow> keeps s t \<Longrightarrow> keeps r t"
  by (auto simp: keeps_def)

lemma hold_client_inv:
  "fst (fst (hold_client a proto p1 p2 r)) = LAccept \<and> keeps r (snd (fst (hold_client a proto p1 p2 r))) \<and>
   launches (snd (hold_client a proto p1 p2 r)) = 0"
proof (cases "findBackend proto r")
  case (Some b)
  define q where "q = (if bs_pid b = 0 then launchProtocolBackend (an_pid a) (an_valid a) (an_reached a) (r, b) else (r, b))"
  define r2 where "r2 = (fst q)\<lparr>r_backends := replace_backend (snd q) (r_backends (fst q))\<rparr>"
  have k: "keeps r r2" using launch_proto_keeps by (simp add: q_def r2_def)
  show ?thesis using keeps_trans [OF k] mixed_reply_inv [of r2 proto p1 p2] k
    by (simp add: hold_client_def Some Let_def split_beta q_def [symmetric] r2_def [symmetric])
qed (simp add: hold_client_def)

lemma mixed_accept_inv:
  "fd_inv (fst (mixed_accept ec a r)) \<and> keeps r (snd (fst (mixed_accept ec a r))) \<and> launches (snd (mixed_accept ec a r)) = 0"
proof -
  have h: "fd_inv (fst (hold_client a proto p1 p2 r))" for proto p1 p2
    using hold_client_inv [of a proto p1 p2 r] by (simp add: fd_inv_def)
  have m: "keeps r (fst (mixed_reply proto p1 p2 (r\<lparr>r_evicted := e\<rparr>)))" for proto p1 p2 e
    using mixed_reply_inv [of "r\<lparr>r_evicted := e\<rparr>" proto p1 p2] by (auto simp: keeps_def)
  show ?thesis using h m hold_client_inv mixed_reply_inv
    by (simp add: mixed_accept_def Let_def split_beta split: accepted.splits)
qed

lemma mixed_accept_stop: "r_stop r \<Longrightarrow> mixed_accept ec a r = ((LClose, r), [])"
  by (simp add: mixed_accept_def)

lemma mixed_close_inv: "fd_inv (mixed_close r) \<and> keeps r (snd (mixed_close r))"
  by (simp add: mixed_close_def close_listener_def Let_def)

interpretation mixed_loop: listen_loop "mixed_step ec" for ec
proof
  fix s :: "lpc \<times> relay" and a
  obtain pc r where s: "s = (pc, r)" by (cases s)
  show "fd_inv s \<Longrightarrow> fd_inv (fst (mixed_step ec a s))"
    unfolding s by (cases pc) (simp_all add: mixed_step_def mixed_top_inv wake_inv launch_begin_inv mixed_accept_inv mixed_close_inv)
  show "keeps (snd s) (snd (fst (mixed_step ec a s)))"
    unfolding s by (cases pc) (simp_all add: mixed_step_def mixed_top_inv wake_keeps mixed_accept_inv mixed_close_inv)
  show "rank (fst (fst (mixed_step ec a s))) \<le> rank (fst s) - 1" if "r_stop (snd s)" "an_wait a \<noteq> WaitBlocks"
    using that launch_begin_cases [of a r] unfolding s
    by (cases pc) (auto simp: mixed_step_def mixed_top_def wake_stop launch_end_pc mixed_accept_stop mixed_close_def close_listener_def Let_def)
  show "launches (snd (mixed_step ec a s)) \<le> (if fst s = LStart then 1 else 0)"
    unfolding s by (cases pc) (simp_all add: mixed_step_def mixed_accept_inv)
  show "late (fst (fst (mixed_step ec a s)))" if "\<not> r_autoRestart (snd s)" "late (fst s) \<or> fst s = LStart"
    using that launch_begin_cases [of a r] unfolding s
    by (cases pc) (auto simp: mixed_step_def launch_end_pc mixed_close_def close_listener_def Let_def)
qed

section \<open>Proxy mode\<close>

lemma socks5_top_inv: "r_listenFd r < 0 \<Longrightarrow> fd_inv (socks5_top a r)" "keeps r (snd (socks5_top a r))"
  using bind_attempt_inv [of bind_ok_socks5, OF bind_ok_keeps(3)]
  by (auto simp: socks5_top_def)

lemma socks5_accept_inv:
  "fd_inv (fst (socks5_accept a r)) \<and> keeps r (snd (fst (socks5_accept a r))) \<and> launches (snd (socks5_accept a r)) = 0"
  by (simp add: socks5_accept_def split: accepted.splits)

lemma socks5_close_inv: "fd_inv (socks5_close r) \<and> keeps r (snd (socks5_close r))"
  by (simp add: socks5_close_def close_listener_def Let_def)

interpretation socks5_loop: listen_loop socks5_step
proof
  fix s :: "lpc \<times> relay" and a
  obtain pc r where s: "s = (pc, r)" by (cases s)
  show "fd_inv s \<Longrightarrow> fd_inv (fst (socks5_step a s))"
    unfolding s by (cases pc) (auto simp: socks5_step_def socks5_top_inv wake_inv socks5_accept_inv socks5_close_inv)
  show "keeps (snd s) (snd (fst (socks5_step a s)))"
    unfolding s by (cases pc) (simp_all add: socks5_step_def socks5_top_inv wake_keeps socks5_accept_inv socks5_close_inv)
  show "rank (fst (fst (socks5_step a s))) \<le> rank (fst s) - 1" if "r_stop (snd s)" "an_wait a \<noteq> WaitBlocks"
    using that unfolding s
    by (cases pc) (auto simp: socks5_step_def socks5_top_def wake_stop socks5_accept_def socks5_close_def close_listener_def Let_def)
  show "launches (snd (socks5_step a s)) \<le> (if fst s = LStart then 1 else 0)"
    unfolding s by (cases pc) (simp_all add: socks5_step_def socks5_accept_inv)
  show "late (fst (fst (socks5_step a s)))" if "\<not> r_autoRestart (snd s)" "late (fst s) \<or> fst s = LStart"
    using that unfolding s
    by (cases pc) (auto simp: socks5_step_def socks5_close_def close_listener_def Let_def)
qed

section \<open>Properties of every loop\<close>

definition relay_loops :: "eviction_config \<Rightarrow> (answers \<Rightarrow> lpc \<times> relay \<Rightarrow> (lpc \<times> relay) \<times> lact list) set" where
  "relay_loops ec = {simple_step ec, mixed_step ec, socks5_step}"

lemma relay_loopsD: "step \<in> relay_loops ec \<Longrightarrow> listen_loop step"
  using simple_loop.listen_loop_axioms mixed_loop.listen_loop_axioms socks5_loop.listen_loop_axioms by (auto simp: relay_loops_def)


text \<open>
  The port is never held where it must be free: in every mode and in every interleaving, outside the accept loop, its launch decision and the closing
  after it, the relay has no open listening socket; so none is open while the thread waits for its child, for the release of the port or between two binds, nor when it has ended.
\<close>
theorem socket_released:
  assumes "step \<in> relay_loops ec" and "loop_reach step (LTop, r0) (pc, r) tr" and "r_listenFd r0 < 0"
    and "pc \<notin> {LStart, LAccept, LClose}"
  shows "r_listenFd r < 0"
  using listen_loop.reach_fd [OF relay_loopsD [OF assms(1)] assms(2)] assms(3,4) by (simp add: fd_inv_def)


section \<open>The gate after an eviction\<close>

definition gated :: "lpc \<times> relay \<Rightarrow> bool" where
  "gated s \<longleftrightarrow> fst s \<noteq> LStart \<and> r_evicted (snd s) \<and> \<not> r_launchOnStart (snd s)"

lemma refresh_gated: "tryHandleRefreshRequest p1 p2 r = Some (r1, s) \<Longrightarrow> r_evicted r1 = r_evicted r \<and> r_launchOnStart r1 = r_launchOnStart r"
  by (auto simp: tryHandleRefreshRequest_def setRefreshSeconds_def Let_def split: option.splits if_splits)

lemma mixed_reply_gated:
  "r_evicted (fst (mixed_reply pr p1 p2 r)) = r_evicted r \<and> r_launchOnStart (fst (mixed_reply pr p1 p2 r)) = r_launchOnStart r"
  using refresh_gated by (auto simp: mixed_reply_def split: option.splits)

lemma hold_client_gated:
  "r_evicted (snd (fst (hold_client a pr p1 p2 r))) = r_evicted r \<and> r_launchOnStart (snd (fst (hold_client a pr p1 p2 r))) = r_launchOnStart r"
  by (simp add: hold_client_def mixed_reply_gated launchProtocolBackend_def Let_def split_beta split: option.splits)

lemma bind_attempt_gated:
  "r_evicted (snd (bind_attempt f a r)) = r_evicted r \<and> r_launchOnStart (snd (bind_attempt f a r)) = r_launchOnStart r"
    if "f \<in> {bind_ok_simple, bind_ok_mixed}"
  using that by (auto simp: bind_attempt_def field_defs split_beta Let_def)

lemma gated_step:
  assumes "\<not> relaunchMemoryOk ec (an_mem a)" and "gated s" and "step \<in> {simple_step ec, mixed_step ec}"
  shows "gated (fst (step a s))"
proof -
  obtain pc r where s: "s = (pc, r)" by (cases s)
  have simple: "gated (fst (simple_step ec a s))"
    using assms(1,2) bind_attempt_gated [of bind_ok_simple a r] bind_attempt_cases [of bind_ok_simple a r] unfolding s
    by (cases pc) (auto simp: gated_def simple_step_def simple_top_def simple_accept_def simple_close_def wake_defs launch_defs
        Let_def split_beta dest: refresh_gated split: accepted.splits option.splits wait_result.splits if_splits)
  have accept: "gated (fst (mixed_accept ec a r))" if "gated (LAccept, r)"
    using assms(1) that hold_client_inv hold_client_gated mixed_reply_gated
    by (auto simp: gated_def mixed_accept_def Let_def split_beta split: accepted.splits)
  have mixed: "gated (fst (mixed_step ec a s))"
    using assms(1,2) accept bind_attempt_gated [of bind_ok_mixed a r] bind_attempt_cases [of bind_ok_mixed a r] unfolding s
    by (cases pc) (auto simp: gated_def mixed_step_def mixed_top_def mixed_close_def close_listener_def wake_defs launch_defs
        Let_def split_beta split: wait_result.splits if_splits)
  show ?thesis using assms(3) simple mixed by auto
qed


section \<open>Single modes\<close>

text \<open>
  A port comes back: with \<open>auto_restart\<close>, when the backend has ended and nobody holds the port, the simple loop listens again
  three steps after its accept loop, with the retry interval and the count of failures reset.
\<close>
theorem port_comes_back:
  assumes "r_autoRestart r" and "\<not> r_stop r" and "r_backendPid r = 0" and "\<not> r_externalOccupied r"
    and "\<not> r_groupReleased r" and "\<not> r_launchOnStart r" and "\<not> an_bound a2" and "0 \<le> an_fd a3"
  shows "thread_run (simple_step ec) [a1, a2, a3] (LClose, r) =
    ((LAccept, r\<lparr>r_listenFd := an_fd a3, r_retrySeconds := r_retrySecondsBase r, r_consecutiveBindFailures := 0\<rparr>), [])"
  using assms
  by (simp add: simple_step_def simple_close_def delay_wake_def simple_top_def bind_attempt_def bind_ok_simple_def Let_def)

text \<open>
  The thread of a group member whose socket was closed by the group never ends and never listens again: it spins on \<open>accept\<close>, since
  the error of a closed descriptor is not the one the loop leaves on, until the relay is stopped.
\<close>
theorem released_member_spins:
  assumes "r_listenFd r < 0" and "\<not> r_stop r"
  shows "thread_run (simple_step ec) as (LAccept, r) = ((LAccept, r), [])"
  using assms by (induction as) (simp_all add: simple_step_def simple_accept_def)

definition client_served :: "lact list \<Rightarrow> bool" where
  "client_served acts \<longleftrightarrow> CloseClient \<in> set acts \<or> (\<exists>x. Proxy x \<in> set acts)"

definition asked :: "answers \<Rightarrow> relay \<Rightarrow> backend_state \<Rightarrow> backend_state" where
  "asked a r b = (if bs_pid b = 0 then snd (launchProtocolBackend (an_pid a) (an_valid a) (an_reached a) (r, b)) else b)"

lemma mixed_reply_not_served: "\<not> client_served (acts @ snd (mixed_reply pr p1 p2 r)) \<longleftrightarrow> \<not> client_served acts"
  by (auto simp: client_served_def mixed_reply_def split: option.splits)

lemma hold_served:
  "client_served (snd (hold_client a pr p1 p2 r)) \<longleftrightarrow> (case findBackend pr r of None \<Rightarrow> True | Some b \<Rightarrow> bs_ready (asked a r b))"
proof (cases "findBackend pr r")
  case (Some b)
  define q where "q = (if bs_pid b = 0 then launchProtocolBackend (an_pid a) (an_valid a) (an_reached a) (r, b) else (r, b))"
  have b: "asked a r b = snd q" by (simp add: asked_def q_def)
  have "client_served (snd (hold_client a pr p1 p2 r)) \<longleftrightarrow> bs_ready (snd q)"
  proof (cases "bs_ready (snd q)")
    case True
    then show ?thesis by (simp add: hold_client_def Some Let_def split_beta q_def [symmetric] client_served_def)
  next
    case False
    have "\<not> client_served (if bs_pid b = 0 \<and> \<not> bs_ready b then [LaunchProto pr] else [])" by (simp add: client_served_def)
    with False show ?thesis
      using mixed_reply_not_served by (simp add: hold_client_def Some Let_def split_beta q_def [symmetric])
  qed
  with b Some show ?thesis by simp
qed (simp add: hold_client_def client_served_def)

text \<open>
  Which connections the mixed mode forgets: an accepted client is closed or handed to a tunnel in every case but one, the hold-port mode with
  a backend that is not ready; there the descriptor stays open.
\<close>
theorem mixed_client_leak:
  assumes "\<not> r_stop r" and "0 \<le> r_listenFd r" and "an_client a = Client p8 p1 p2"
  shows "\<not> client_served (snd (mixed_step ec a (LAccept, r))) \<longleftrightarrow>
    detectProtocol p8 \<noteq> ''unknown'' \<and> r_holdPort r \<and>
    (\<exists>b. findBackend (detectProtocol p8) r = Some b \<and> \<not> bs_ready (asked a r b))"
  using assms hold_served [of a "detectProtocol p8" p1 p2 r]
  by (auto simp: mixed_step_def mixed_accept_def Let_def split_beta split: option.splits)
    (auto simp: client_served_def)

section \<open>Witnesses\<close>

lemma reach_run_from:
  "loop_reach step s0 s tr \<Longrightarrow> loop_reach step s0 (fst (thread_run step as s)) (tr @ snd (thread_run step as s))"
proof (induction as arbitrary: s tr)
  case (Cons a as)
  have "loop_reach step s0 (fst (step a s)) (tr @ snd (step a s))"
    using reach_own [OF Cons.prems, of a] by simp
  from Cons.IH [OF this] show ?case by (simp add: split_beta Let_def)
qed simp

lemma reach_run: "loop_reach step s0 (fst (thread_run step as s0)) (snd (thread_run step as s0))"
  using reach_run_from [OF reach_start] by fastforce

definition sample_answers :: answers where
  "sample_answers = \<lparr>an_fd = 5, an_bound = False, an_pid = 42, an_now = 9, an_wait = WaitExited 0, an_client = Client [] [] [],
     an_mem = None, an_valid = True, an_reached = False\<rparr>"

definition sample_relay :: relay where
  "sample_relay = (new_relay default_port 0)\<lparr>r_launchOnStart := True\<rparr>"

lemma sample_relay_sel [simp]:
  "r_listenFd sample_relay = - 1" "\<not> r_autoRestart sample_relay" "\<not> r_stop sample_relay" "\<not> r_groupReleased sample_relay"
  "r_backendPid sample_relay = 0" "\<not> r_externalOccupied sample_relay" "r_launchOnStart sample_relay" "\<not> r_evicted sample_relay"
  by (simp_all add: sample_relay_def default_port_def)

lemma sample_thread:
  "thread_run (simple_step default_eviction) [sample_answers, sample_answers] (LTop, sample_relay) =
     ((LLaunch 42, sample_relay\<lparr>r_listenFd := - 1, r_retrySeconds := r_retrySecondsBase sample_relay, r_consecutiveBindFailures := 0,
        r_launchOnStart := False, r_backendPid := 42, r_lastActiveTime := 9\<rparr>), [Launch 42])"
  by (simp add: simple_step_def simple_top_def bind_attempt_def bind_ok_simple_def launch_begin_def sample_answers_def Let_def)


theorem socket_released_witness:
  "\<exists>r tr. loop_reach (simple_step default_eviction) (LTop, sample_relay) (LLaunch 42, r) tr \<and> r_listenFd r < 0"
proof -
  obtain r where r: "loop_reach (simple_step default_eviction) (LTop, sample_relay) (LLaunch 42, r) [Launch 42]"
    using reach_run [of "simple_step default_eviction" "(LTop, sample_relay)" "[sample_answers, sample_answers]"]
    unfolding sample_thread by auto
  then show ?thesis
    using socket_released [of "simple_step default_eviction" default_eviction, OF _ r] by (auto simp: relay_loops_def)
qed


definition tight_answers :: answers where
  "tight_answers = sample_answers\<lparr>an_client := Client ''GET / HT'' ''GET / HTTP/1.1'' [], an_mem := Some (zero_metrics\<lparr>mx_memPercent := 95\<rparr>)\<rparr>"


theorem port_comes_back_witness:
  "fst (fst (thread_run (simple_step default_eviction) [sample_answers, sample_answers, sample_answers]
     (LClose, sample_relay\<lparr>r_autoRestart := True, r_launchOnStart := False\<rparr>))) = LAccept"
proof -
  have b: "\<not> an_bound sample_answers" "0 \<le> an_fd sample_answers" by (simp_all add: sample_answers_def)
  show ?thesis by (subst port_comes_back) (simp_all add: b)
qed

theorem released_member_spins_witness:
  "thread_run (simple_step default_eviction) [sample_answers, tight_answers] (LAccept, sample_relay) = ((LAccept, sample_relay), [])"
  by (rule released_member_spins) simp_all

definition holding_relay :: relay where
  "holding_relay = sample_relay\<lparr>r_listenFd := 7, r_holdPort := True,
     r_backends := [\<lparr>bs_type = ''http'', bs_command = ''srv'', bs_proxyTo = ''127.0.0.1:8080'', bs_delayMs = 100, bs_pid = 0, bs_ready = False\<rparr>]\<rparr>"

theorem mixed_client_leak_witness: "\<not> client_served (snd (mixed_step default_eviction tight_answers (LAccept, holding_relay)))"
proof -
  have c: "an_client tight_answers = Client ''GET / HT'' ''GET / HTTP/1.1'' []" by (simp add: tight_answers_def)
  have p: "detectProtocol ''GET / HT'' = ''http''" by code_simp
  have "\<not> bs_ready (asked tight_answers holding_relay (hd (r_backends holding_relay)))"
    by (simp add: asked_def holding_relay_def launchProtocolBackend_def tight_answers_def sample_answers_def Let_def)
  then show ?thesis
    by (subst mixed_client_leak [OF _ _ c]) (simp_all add: p findBackend_def holding_relay_def)
qed

end
