(* ===== verification/GK_Group.thy ===== *)
theory GK_Group
  imports GK_RelayLoopProps
begin

text \<open>
  Port groups, \<open>port_group.h\<close> and \<open>port_group.cpp\<close>. A group keeps plain pointers to its relays: here the number of an object, and the relays that
  exist are a map from numbers to relays. An operation that follows a pointer to a relay that no longer exists has no defined result, \<open>None\<close>.
  The pids of the children an operation launches are arguments.
\<close>

type_synonym heap = "nat \<Rightarrow> relay option"

record port_group =
  pg_name :: string
  pg_relays :: "nat list"
  pg_launched :: bool
  pg_running :: bool
  pg_stop :: bool

definition new_group :: "string \<Rightarrow> port_group" where
  "new_group nm = \<lparr>pg_name = nm, pg_relays = [], pg_launched = False, pg_running = False, pg_stop = False\<rparr>"

section \<open>Operations\<close>

text \<open>A null pointer is ignored.\<close>

definition addRelay :: "nat option \<Rightarrow> port_group \<Rightarrow> port_group" where
  "addRelay p g = (case p of None \<Rightarrow> g | Some i \<Rightarrow> g\<lparr>pg_relays := pg_relays g @ [i]\<rparr>)"

text \<open>One round of the loop: launch if there is no backend, and close the socket in any case.\<close>

definition launch_member :: "int \<Rightarrow> int \<Rightarrow> relay \<Rightarrow> relay" where
  "launch_member pid now r =
     (let r1 = (if r_backendPid r = 0 \<and> 0 < pid then r\<lparr>r_backendPid := pid, r_lastActiveTime := now\<rparr> else r)
      in r1\<lparr>r_listenFd := - 1\<rparr>)"

fun launch_members :: "(nat \<Rightarrow> int) \<Rightarrow> int \<Rightarrow> nat list \<Rightarrow> heap \<Rightarrow> heap option" where
  "launch_members pids now [] h = Some h"
| "launch_members pids now (i # is) h =
     (case h i of None \<Rightarrow> None | Some r \<Rightarrow> launch_members pids now is (h(i \<mapsto> launch_member (pids i) now r)))"

definition onConnection :: "(nat \<Rightarrow> int) \<Rightarrow> int \<Rightarrow> port_group \<Rightarrow> heap \<Rightarrow> (port_group \<times> heap) option" where
  "onConnection pids now g h =
     (if pg_launched g then Some (g, h)
      else map_option (\<lambda>h1. (g\<lparr>pg_launched := True, pg_running := True\<rparr>, h1)) (launch_members pids now (pg_relays g) h))"

text \<open>Applying an operation of the relay to all members; the signals sent, in order.\<close>

fun each_member :: "(relay \<Rightarrow> relay \<times> signal_act list) \<Rightarrow> nat list \<Rightarrow> heap \<Rightarrow> (heap \<times> signal_act list) option" where
  "each_member f [] h = Some (h, [])"
| "each_member f (i # is) h =
     (case h i of
        None \<Rightarrow> None
      | Some r \<Rightarrow> map_option (\<lambda>(h1, acts). (h1, snd (f r) @ acts)) (each_member f is (h(i \<mapsto> fst (f r)))))"

definition group_stop :: "(int \<Rightarrow> bool) \<Rightarrow> port_group \<Rightarrow> heap \<Rightarrow> (port_group \<times> heap \<times> signal_act list) option" where
  "group_stop alive g h =
     (if pg_stop g then Some (g, h, [])
      else map_option (\<lambda>(h1, acts). (g\<lparr>pg_stop := True, pg_launched := False, pg_running := False\<rparr>, h1, acts))
             (each_member (relay_stop alive) (pg_relays g) h))"

definition group_signalStop :: "port_group \<Rightarrow> heap \<Rightarrow> (port_group \<times> heap) option" where
  "group_signalStop g h =
     (if pg_stop g then Some (g, h)
      else map_option (\<lambda>(h1, acts). (g\<lparr>pg_stop := True\<rparr>, h1)) (each_member (\<lambda>r. (signalStop r, [])) (pg_relays g) h))"

definition resetLaunch :: "port_group \<Rightarrow> port_group" where
  "resetLaunch g = g\<lparr>pg_launched := False, pg_running := False\<rparr>"

section \<open>Lemmas\<close>

lemma launch_members_other: "launch_members pids now is h = Some h' \<Longrightarrow> i \<notin> set is \<Longrightarrow> h' i = h i"
  by (induction "is" arbitrary: h) (auto split: option.splits)

lemma launch_members_defined:
  "(\<exists>h'. launch_members pids now is h = Some h') \<longleftrightarrow> (\<forall>i \<in> set is. \<exists>r. h i = Some r)"
proof (induction "is" arbitrary: h)
  case (Cons i "is")
  show ?case
  proof (cases "h i")
    case (Some r)
    have "(\<forall>j \<in> set is. \<exists>r'. (h(i \<mapsto> launch_member (pids i) now r)) j = Some r') \<longleftrightarrow> (\<forall>j \<in> set is. \<exists>r'. h j = Some r')"
      using Some by (metis fun_upd_apply)
    then show ?thesis using Cons.IH [of "h(i \<mapsto> launch_member (pids i) now r)"] Some
      by (simp only: launch_members.simps option.case list.set ball_simps) simp
  qed simp
qed simp

lemma launch_members_in:
  "launch_members pids now is h = Some h' \<Longrightarrow> distinct is \<Longrightarrow> i \<in> set is \<Longrightarrow> h' i = map_option (launch_member (pids i) now) (h i)"
proof (induction "is" arbitrary: h)
  case (Cons j "is")
  then obtain r where r: "h j = Some r" "launch_members pids now is (h(j \<mapsto> launch_member (pids j) now r)) = Some h'"
    by (auto split: option.splits)
  show ?case
  proof (cases "i = j")
    case True
    then show ?thesis using launch_members_other [OF r(2), of i] Cons.prems(2) r(1) by simp
  next
    case False
    then show ?thesis using Cons.IH [OF r(2)] Cons.prems by simp
  qed
qed simp

section \<open>Properties\<close>


lemma grouped_accept:
  "r_group r \<noteq> None \<Longrightarrow> fst (fst (simple_accept ec a r)) \<noteq> LStart \<and> r_group (snd (fst (simple_accept ec a r))) = r_group r \<and>
     r_launchOnStart (snd (fst (simple_accept ec a r))) = r_launchOnStart r"
  by (auto simp: simple_accept_def tryHandleRefreshRequest_def setRefreshSeconds_def Let_def split: accepted.splits option.splits if_splits)

lemma bind_attempt_group:
  "r_group (snd (bind_attempt bind_ok_simple a r)) = r_group r \<and>
   r_launchOnStart (snd (bind_attempt bind_ok_simple a r)) = r_launchOnStart r"
  by (simp add: bind_attempt_def field_defs split_beta Let_def)

lemma grouped_step:
  assumes "pc \<noteq> LStart" and "r_group r \<noteq> None" and "\<not> r_launchOnStart r"
  shows "fst (fst (simple_step ec a (pc, r))) \<noteq> LStart \<and> r_group (snd (fst (simple_step ec a (pc, r)))) \<noteq> None \<and>
    \<not> r_launchOnStart (snd (fst (simple_step ec a (pc, r))))"
  using assms grouped_accept [of r ec a] bind_attempt_group [of a r] bind_attempt_cases [of bind_ok_simple a r]
  by (cases pc) (auto simp: simple_step_def simple_top_def simple_close_def wake_defs launch_defs Let_def split_beta
      split: wait_result.splits if_splits)

text \<open>
  A launched group never launches again by itself: once the group is marked as launched, whatever has become of its relays, a connection changes
  nothing; and the listening thread of a member launches nothing of its own. So a group whose backend has ended answers
  every client with the start page until the idle check, which looks at running backends only, resets it.
\<close>
theorem group_backend_lost:
  assumes "pg_launched g" and "r_group r \<noteq> None" and "\<not> r_launchOnStart r" and "pc \<noteq> LStart"
  shows "onConnection pids now g h = Some (g, h) \<and> launches (snd (thread_run (simple_step ec) as (pc, r))) = 0"
proof -
  have "launches (snd (thread_run (simple_step ec) as (pc, r))) = 0"
    using assms(2-4)
  proof (induction as arbitrary: pc r)
    case (Cons a as)
    obtain pc1 r1 acts where s: "simple_step ec a (pc, r) = ((pc1, r1), acts)" by (metis prod.exhaust)
    have "launches acts = 0" using simple_loop.step_launches [of ec a "(pc, r)"] s Cons.prems(3) by simp
    moreover have "launches (snd (thread_run (simple_step ec) as (pc1, r1))) = 0"
      using Cons.IH [of r1 pc1] grouped_step [OF Cons.prems(3,1,2), of ec a] s by simp
    ultimately show ?case by (simp add: s split_beta Let_def)
  qed simp
  with assms(1) show ?thesis by (simp add: onConnection_def)
qed

lemma each_member_dangling: "i \<in> set is \<Longrightarrow> h i = None \<Longrightarrow> each_member f is h = None"
proof (induction "is" arbitrary: h)
  case (Cons j "is")
  then show ?case by (cases "i = j") (auto split: option.splits)
qed simp

lemma dangling_member:
  assumes "i \<in> set (pg_relays g)" and "h i = None"
  shows "\<not> pg_launched g \<Longrightarrow> onConnection pids now g h = None" and "\<not> pg_stop g \<Longrightarrow> group_stop alive g h = None"
proof -
  have "launch_members pids now (pg_relays g) h = None"
    using assms launch_members_defined [of pids now "pg_relays g" h] by (cases "launch_members pids now (pg_relays g) h") auto
  then show "\<not> pg_launched g \<Longrightarrow> onConnection pids now g h = None" by (simp add: onConnection_def)
  show "\<not> pg_stop g \<Longrightarrow> group_stop alive g h = None"
    using each_member_dangling [of i "pg_relays g" h "relay_stop alive"] assms by (simp add: group_stop_def)
qed

section \<open>Witnesses\<close>

definition sample_heap :: heap where
  "sample_heap = (\<lambda>_. None)(1 \<mapsto> sample_relay, 2 \<mapsto> sample_relay\<lparr>r_backendPid := 7\<rparr>)"

definition sample_group :: port_group where
  "sample_group = addRelay (Some 2) (addRelay (Some 1) (new_group ''g''))"


theorem group_backend_lost_witness:
  "onConnection (\<lambda>_. 43) 5 (sample_group\<lparr>pg_launched := True\<rparr>) sample_heap = Some (sample_group\<lparr>pg_launched := True\<rparr>, sample_heap) \<and>
   launches (snd (thread_run (simple_step default_eviction) [sample_answers, sample_answers] (LTop, sample_relay\<lparr>r_group := Some ''g'', r_launchOnStart := False\<rparr>))) = 0"
  by (rule group_backend_lost) simp_all

end
