(* ===== verification/GK_Main.thy ===== *)
theory GK_Main
  imports GK_Group GK_Control GK_TcpMonitor "HOL-Library.Signed_Division" "HOL-Library.List_Lexorder" "HOL-Library.Char_ord"
begin

text \<open>
  The program itself, \<open>main.cpp\<close>, and the list handling of \<open>SystemMonitor::maybeEvict\<close>: the relays that are served, those that are waiting for
  removal, the passes of the monitor thread over them, the reload of the configuration, the start and the end of the program. The
  lists own their relays: a relay is an object with a number, and one that is in neither list no longer exists.
  A pointer to a group is the group's name.
\<close>

type_synonym obj = "nat \<times> relay"

record gatekeeper =
  gk_relays :: "obj list"
  gk_pending :: "obj list"
  gk_groups :: "port_group list"
  gk_cfgs :: "port_config list"
  gk_configPath :: string
  gk_reloading :: bool
  gk_next :: nat

definition heap_of :: "gatekeeper \<Rightarrow> heap" where
  "heap_of st = map_of (gk_relays st @ gk_pending st)"

definition addrs :: "obj list \<Rightarrow> string list" where
  "addrs os = map (r_listenAddr \<circ> snd) os"

section \<open>The monitor thread\<close>

text \<open>Its tick is the greatest common divisor of the sampling intervals, \<open>0\<close> when there is none.\<close>

function gcd_loop :: "int \<Rightarrow> int \<Rightarrow> int" where
  "gcd_loop a b = (if b = 0 then a else gcd_loop b (a smod b))"
  by pat_completeness auto
termination
proof (relation "measure (\<lambda>(a, b). nat \<bar>b\<bar>)")
  fix a b :: int assume "b \<noteq> 0"
  then show "((b, a smod b), (a, b)) \<in> measure (\<lambda>(a, b). nat \<bar>b\<bar>)" using smod_int_range [of b a] by auto
qed simp

declare gcd_loop.simps [simp del]

fun tick_loop :: "int \<Rightarrow> relay list \<Rightarrow> int" where
  "tick_loop interval [] = interval"
| "tick_loop interval (r # rs) =
     tick_loop (if monitorEnabled r then (if interval = 0 then r_tcpMonitorInterval r else gcd_loop interval (r_tcpMonitorInterval r))
                else interval) rs"

definition tick_interval :: "gatekeeper \<Rightarrow> int" where
  "tick_interval st = tick_loop 0 (map snd (gk_relays st))"

text \<open>Whether a sample is printed, and the counter of the throttling mode.\<close>

definition dedup :: "string \<Rightarrow> bool \<Rightarrow> int \<Rightarrow> bool \<times> int" where
  "dedup mode same counter =
     (if mode = ''off'' then (True, counter)
      else if mode = ''throttle'' then
        (if same then (if counter + 1 < 5 then (False, counter + 1) else (True, 0)) else (True, 0))
      else (\<not> same, counter))"

definition TCP_LISTEN :: nat where "TCP_LISTEN = 10"

definition nonListen :: "conn_entry list \<Rightarrow> int" where
  "nonListen es = int (length (filter (\<lambda>e. ce_state e \<noteq> TCP_LISTEN) es))"

text \<open>One relay of the sampling pass: \<open>query\<close> is \<open>queryPortConnections\<close>.\<close>

definition sample_one :: "int \<Rightarrow> (int \<Rightarrow> bool \<Rightarrow> conn_entry list) \<Rightarrow> relay \<Rightarrow> relay \<times> bool" where
  "sample_one now query r =
     (if \<not> monitorEnabled r then (r, False)
      else if now - r_lastSampleTime r < r_tcpMonitorInterval r then (r, False)
      else let r1 = r\<lparr>r_lastSampleTime := now\<rparr>
           in if relay_port r1 \<le> 0 then (r1, False)
              else let n = nonListen (query (relay_port r1) (r_monitorIpv6 r1));
                       r2 = updateActivity now (n > 0) r1;
                       (shouldPrint, c) = dedup (r_logDedupMode r2) (n = r_lastNonListen r2) (r_logDedupCounter r2);
                       r3 = r2\<lparr>r_logDedupCounter := c\<rparr>
                   in if \<not> shouldPrint then (r3, False) else (r3\<lparr>r_lastNonListen := n\<rparr>, True))"

definition sample_pass :: "int \<Rightarrow> (int \<Rightarrow> bool \<Rightarrow> conn_entry list) \<Rightarrow> gatekeeper \<Rightarrow> gatekeeper" where
  "sample_pass now query st = st\<lparr>gk_relays := map (\<lambda>(i, r). (i, fst (sample_one now query r))) (gk_relays st)\<rparr>"

text \<open>The idle pass: the relays kept, those put on the pending list, and the groups.\<close>

definition idle_due :: "int \<Rightarrow> relay \<Rightarrow> bool" where
  "idle_due now r \<longleftrightarrow> monitorEnabled r \<and> isBackendRunning r \<and> \<not> hasRecentActivity now (r_idleMinutes r) r"

definition reset_group :: "relay \<Rightarrow> port_group list \<Rightarrow> port_group list" where
  "reset_group r gs = map (\<lambda>g. if r_group r = Some (pg_name g) then resetLaunch g else g) gs"

fun idle_loop :: "int \<Rightarrow> obj list \<Rightarrow> obj list \<Rightarrow> port_group list \<Rightarrow> obj list \<times> obj list \<times> port_group list" where
  "idle_loop now [] pend gs = ([], pend, gs)"
| "idle_loop now ((i, r) # rs) pend gs =
     (if \<not> idle_due now r then (let (kept, p, g) = idle_loop now rs pend gs in ((i, r) # kept, p, g))
      else idle_loop now rs (pend @ [(i, setPendingRemoval r)]) (reset_group r gs))"

definition idle_pass :: "int \<Rightarrow> gatekeeper \<Rightarrow> gatekeeper" where
  "idle_pass now st =
     (let (kept, pend, gs) = idle_loop now (gk_relays st) (gk_pending st) (gk_groups st)
      in st\<lparr>gk_relays := kept, gk_pending := pend, gk_groups := gs\<rparr>)"

text \<open>
  The pass over the pending relays: those that stay, those that are listened on again, and the signals sent. \<open>stop\<close> is \<open>gracefulStop\<close> with the
  answers of the system to it.
\<close>

fun pending_loop :: "int \<Rightarrow> (nat \<Rightarrow> relay \<Rightarrow> relay \<times> signal_act list) \<Rightarrow> obj list \<Rightarrow> obj list \<times> obj list \<times> signal_act list" where
  "pending_loop now stop [] = ([], [], [])"
| "pending_loop now stop ((i, r) # rs) =
     (let (stay, back, acts) = pending_loop now stop rs
      in if \<not> isBackendRunning r then
           (if r_autoRestart r then (stay, (i, resetForIdle r) # back, acts) else (stay, back, acts))
         else if monitorEnabled r then
           (if \<not> hasRecentActivity now (r_idleMinutes r) r then ((i, fst (stop i r)) # stay, back, snd (stop i r) @ acts)
            else ((i, r) # stay, back, acts))
         else ((i, r) # stay, back, acts))"

definition pending_pass :: "int \<Rightarrow> (nat \<Rightarrow> relay \<Rightarrow> relay \<times> signal_act list) \<Rightarrow> gatekeeper \<Rightarrow> gatekeeper \<times> signal_act list" where
  "pending_pass now stop st =
     (let (stay, back, acts) = pending_loop now stop (gk_pending st)
      in (st\<lparr>gk_relays := gk_relays st @ back, gk_pending := stay\<rparr>, acts))"

definition monitor_pass ::
    "int \<Rightarrow> (int \<Rightarrow> bool \<Rightarrow> conn_entry list) \<Rightarrow> (nat \<Rightarrow> relay \<Rightarrow> relay \<times> signal_act list) \<Rightarrow> gatekeeper \<Rightarrow> gatekeeper \<times> signal_act list" where
  "monitor_pass now query stop st = pending_pass now stop (idle_pass now (sample_pass now query st))"

section \<open>Evicting\<close>

text \<open>
  \<open>maybeEvict\<close> before and after the eviction itself, which runs without the lock: the victim is taken out of the list, and put at its end again
  unless a relay with its address has appeared meanwhile. \<open>rss\<close> is the resident size of a process.
\<close>

definition candidate_of :: "(int \<Rightarrow> int) \<Rightarrow> relay \<Rightarrow> candidate" where
  "candidate_of rss r = \<lparr>cd_running = isBackendRunning r, cd_lastActive = r_lastActiveTime r, cd_rss = rss (r_backendPid r)\<rparr>"

definition evict_take :: "int \<Rightarrow> (int \<Rightarrow> int) \<Rightarrow> gatekeeper \<Rightarrow> (obj \<times> gatekeeper) option" where
  "evict_take now rss st =
     (case choose_victim now (map (candidate_of rss \<circ> snd) (gk_relays st)) of
        None \<Rightarrow> None
      | Some k \<Rightarrow> Some (gk_relays st ! k, st\<lparr>gk_relays := take k (gk_relays st) @ drop (Suc k) (gk_relays st)\<rparr>))"

definition evict_put :: "(int \<Rightarrow> bool) \<Rightarrow> obj \<Rightarrow> gatekeeper \<Rightarrow> gatekeeper \<times> signal_act list" where
  "evict_put alive v st =
     (if r_listenAddr (snd v) \<in> set (addrs (gk_relays st)) then (st, snd (relay_stop alive (snd v)))
      else (st\<lparr>gk_relays := gk_relays st @ [v]\<rparr>, []))"

section \<open>Reload\<close>

definition configsEqual :: "port_config \<Rightarrow> port_config \<Rightarrow> bool" where
  "configsEqual a b \<longleftrightarrow> pc_listenAddr a = pc_listenAddr b \<and> pc_command a = pc_command b \<and> pc_mode a = pc_mode b
     \<and> pc_holdPort a = pc_holdPort b \<and> pc_delayMs a = pc_delayMs b \<and> pc_autoRestart a = pc_autoRestart b
     \<and> pc_enabled a = pc_enabled b \<and> pc_groupName a = pc_groupName b \<and> pc_stopCommand a = pc_stopCommand b
     \<and> pc_idleMinutes a = pc_idleMinutes b \<and> pc_refreshSeconds a = pc_refreshSeconds b
     \<and> pc_retrySeconds a = pc_retrySeconds b \<and> pc_maxRetrySeconds a = pc_maxRetrySeconds b
     \<and> pc_stackSize a = pc_stackSize b \<and> pc_httpTarget a = pc_httpTarget b
     \<and> mo_enabled (pc_monitor a) = mo_enabled (pc_monitor b) \<and> mo_intervalSec (pc_monitor a) = mo_intervalSec (pc_monitor b)
     \<and> mo_logDedup (pc_monitor a) = mo_logDedup (pc_monitor b) \<and> pc_launchOnStart a = pc_launchOnStart b"

text \<open>The \<open>std::map\<close>s over the addresses: the last entry of an address counts, and the keys come in order.\<close>

definition cfg_map :: "port_config list \<Rightarrow> string \<Rightarrow> port_config option" where
  "cfg_map cs = map_of (rev (map (\<lambda>c. (pc_listenAddr c, c)) cs))"

definition cfg_keys :: "port_config list \<Rightarrow> string list" where
  "cfg_keys cs = sort (remdups (map pc_listenAddr cs))"

definition to_add :: "port_config list \<Rightarrow> port_config list \<Rightarrow> port_config list" where
  "to_add old new = [the (cfg_map new a). a \<leftarrow> cfg_keys new, cfg_map old a = None]"

definition to_modify :: "port_config list \<Rightarrow> port_config list \<Rightarrow> port_config list" where
  "to_modify old new = [the (cfg_map new a). a \<leftarrow> cfg_keys new,
     (case cfg_map old a of None \<Rightarrow> False | Some o' \<Rightarrow> \<not> configsEqual (the (cfg_map new a)) o')]"

definition to_remove :: "port_config list \<Rightarrow> port_config list \<Rightarrow> string list" where
  "to_remove old new = [a. a \<leftarrow> cfg_keys old, cfg_map new a = None]"

definition summary_of :: "port_config list \<Rightarrow> port_config list \<Rightarrow> reload_summary" where
  "summary_of old new = \<lparr>rs_added = map pc_listenAddr (to_add old new), rs_removed = to_remove old new,
     rs_modified = map pc_listenAddr (to_modify old new), rs_success = True\<rparr>"

definition failed_summary :: reload_summary where
  "failed_summary = \<lparr>rs_added = [], rs_removed = [], rs_modified = [], rs_success = False\<rparr>"

text \<open>Moving the relays of some addresses to the pending list.\<close>

fun retire_loop :: "string list \<Rightarrow> obj list \<Rightarrow> obj list \<Rightarrow> obj list \<times> obj list" where
  "retire_loop as [] pend = ([], pend)"
| "retire_loop as ((i, r) # rs) pend =
     (if r_listenAddr r \<in> set as then retire_loop as rs (pend @ [(i, setPendingRemoval r)])
      else (let (kept, p) = retire_loop as rs pend in ((i, r) # kept, p)))"

definition retire :: "string list \<Rightarrow> gatekeeper \<Rightarrow> gatekeeper" where
  "retire as st = (let (kept, pend) = retire_loop as (gk_relays st) (gk_pending st) in st\<lparr>gk_relays := kept, gk_pending := pend\<rparr>)"

definition add_relay :: "int \<Rightarrow> gatekeeper \<Rightarrow> port_config \<Rightarrow> gatekeeper" where
  "add_relay now st c = st\<lparr>gk_relays := gk_relays st @ [(gk_next st, new_relay c now)], gk_next := Suc (gk_next st)\<rparr>"

definition reloadConfig :: "int \<Rightarrow> port_config list \<Rightarrow> gatekeeper \<Rightarrow> reload_summary \<times> gatekeeper" where
  "reloadConfig now new st =
     (if gk_reloading st then (failed_summary, st)
      else let old = gk_cfgs st;
               st1 = retire (to_remove old new) st;
               st2 = retire (map pc_listenAddr (to_modify old new)) st1;
               st3 = foldl (add_relay now) st2 (to_add old new @ to_modify old new)
           in (summary_of old new, st3\<lparr>gk_cfgs := new, gk_reloading := False\<rparr>))"

text \<open>\<open>None\<close> when the JSON reader does not come to an end. Reading the configuration also writes \<open>g_controlConfig\<close>.\<close>

definition reload_parsed :: "int \<Rightarrow> port_config list \<Rightarrow> gatekeeper \<Rightarrow> reload_summary \<times> gatekeeper" where
  "reload_parsed now new st = (if new = [] then (failed_summary, st) else reloadConfig now new st)"

definition reloadFromFile ::
    "int \<Rightarrow> (string \<Rightarrow> string option) \<Rightarrow> gatekeeper \<times> control_config \<Rightarrow> (reload_summary \<times> gatekeeper \<times> control_config) option" where
  "reloadFromFile now files s =
     (case s of (st, g) \<Rightarrow>
        map_option (\<lambda>(new, g'). let (sm, st') = reload_parsed now new st in (sm, st', g')) (loadConfig (files (gk_configPath st)) g))"

definition reloadFromJson ::
    "int \<Rightarrow> string \<Rightarrow> gatekeeper \<times> control_config \<Rightarrow> (reload_summary \<times> gatekeeper \<times> control_config) option" where
  "reloadFromJson now text s =
     (case s of (st, g) \<Rightarrow>
        map_option (\<lambda>(new, g'). let (sm, st') = reload_parsed now new st in (sm, st', g')) (parseConfig text g))"

section \<open>Persisting a refresh time\<close>

text \<open>\<open>write\<close> is the edit of the file.\<close>

definition set_refresh :: "string \<Rightarrow> int \<Rightarrow> port_config \<Rightarrow> port_config" where
  "set_refresh addr secs c = (if pc_listenAddr c = addr then c\<lparr>pc_refreshSeconds := secs\<rparr> else c)"

definition persistRefreshSeconds ::
    "(string \<Rightarrow> string \<Rightarrow> int \<Rightarrow> bool) \<Rightarrow> string \<Rightarrow> int \<Rightarrow> gatekeeper \<Rightarrow> bool \<times> gatekeeper" where
  "persistRefreshSeconds write addr secs st =
     (let st1 = st\<lparr>gk_cfgs := map (set_refresh addr secs) (gk_cfgs st)\<rparr>
      in if gk_configPath st = [] \<or> gk_configPath st = ''-'' then (False, st1)
         else (write (gk_configPath st) addr secs, st1))"

section \<open>Start and end\<close>

text \<open>The arguments after the program's name: the path of the configuration and the control address.\<close>

fun parse_args :: "string list \<Rightarrow> string \<times> string \<Rightarrow> string \<times> string" where
  "parse_args [] s = s"
| "parse_args (x # xs) (path, listen) =
     (if x = ''--control-port'' then
        (case xs of [] \<Rightarrow> (path, listen) | p # xs' \<Rightarrow> parse_args xs' (path, p))
      else parse_args xs (if x = [] \<or> hd x \<noteq> CHR ''-'' then x else path, listen))"

definition start_relay :: "int \<Rightarrow> port_config \<Rightarrow> relay" where
  "start_relay now c = (let r = new_relay c now in if pc_launchOnStart c then r\<lparr>r_launchOnStart := True\<rparr> else r)"

text \<open>The members of a group, by object and entry, and the check of their modes and commands.\<close>

datatype group_error = ModeMismatch | CommandMismatch | NotSimple

definition group_names :: "port_config list \<Rightarrow> string list" where
  "group_names cs = sort (remdups (filter (\<lambda>n. n \<noteq> []) (map pc_groupName cs)))"

definition group_infos :: "port_config list \<Rightarrow> string \<Rightarrow> (nat \<times> port_config) list" where
  "group_infos cs nm = filter (\<lambda>(i, c). pc_groupName c = nm) (zip [0..<length cs] cs)"

fun check_members :: "string \<Rightarrow> string \<Rightarrow> port_config list \<Rightarrow> group_error option" where
  "check_members mode command [] = None"
| "check_members mode command (c # cs) =
     (if pc_mode c \<noteq> mode then Some ModeMismatch
      else if pc_command c \<noteq> command then Some CommandMismatch
      else check_members mode command cs)"

definition check_group :: "port_config list \<Rightarrow> group_error option" where
  "check_group cs =
     (case cs of
        [] \<Rightarrow> None
      | c # _ \<Rightarrow>
          (case check_members (pc_mode c) (pc_command c) cs of
             Some e \<Rightarrow> Some e
           | None \<Rightarrow> if pc_mode c \<noteq> ''simple'' then Some NotSimple else None))"

definition build_group :: "port_config list \<Rightarrow> string \<Rightarrow> port_group" where
  "build_group cs nm = foldl (\<lambda>g (i, c). addRelay (Some i) g) (new_group nm) (group_infos cs nm)"

fun build_groups :: "port_config list \<Rightarrow> string list \<Rightarrow> port_group list option" where
  "build_groups cs [] = Some []"
| "build_groups cs (nm # nms) =
     (case check_group (map snd (group_infos cs nm)) of
        Some e \<Rightarrow> None
      | None \<Rightarrow> map_option ((#) (build_group cs nm)) (build_groups cs nms))"

definition start_objects :: "int \<Rightarrow> port_config list \<Rightarrow> obj list" where
  "start_objects now cs =
     map (\<lambda>(i, c). (i, (start_relay now c)\<lparr>r_group := (if pc_groupName c = [] then None else Some (pc_groupName c))\<rparr>)) (zip [0..<length cs] cs)"

text \<open>How a start comes out.\<close>

datatype started =
    Version
  | Help int
  | Fails
  | Endless
  | Runs gatekeeper control_config system_monitor_config string

definition read_input :: "string \<Rightarrow> (string \<Rightarrow> string option) \<Rightarrow> string \<Rightarrow> string" where
  "read_input path files stdin =
     (if path = ''-'' then stdin else (case files path of None \<Rightarrow> [] | Some t \<Rightarrow> t))"

definition auth_token :: "string \<Rightarrow> control_config \<Rightarrow> control_config option" where
  "auth_token token g =
     (if ca_type (ct_auth g) = ''token'' \<and> ca_token (ct_auth g) = [] then
        (if token = [] then None else Some (g\<lparr>ct_auth := (ct_auth g)\<lparr>ca_token := token\<rparr>\<rparr>))
      else Some g)"

text \<open>Whether the start warns that the control address \<open>addr\<close> is open to the network.\<close>

definition control_exposed :: "string \<Rightarrow> bool" where
  "control_exposed addr =
     (let hst = (case find_char (CHR '':'') addr of None \<Rightarrow> addr | Some i \<Rightarrow> take i addr) in hst = [] \<or> hst = ''0.0.0.0'')"

text \<open>\<open>token1\<close> and \<open>token2\<close> are what the two calls of \<open>generateAuthToken\<close> return.\<close>

definition main_start ::
    "string list \<Rightarrow> (string \<Rightarrow> string option) \<Rightarrow> string \<Rightarrow> int \<Rightarrow> string \<Rightarrow> string \<Rightarrow> started" where
  "main_start args files stdin now token1 token2 =
     (if args \<noteq> [] \<and> hd args = ''--version'' then Version
      else if args \<noteq> [] \<and> (hd args = ''--help'' \<or> hd args = ''-h'') then Help 0
      else let (path, listen) = parse_args args ([], ct_listen default_control)
           in if path = [] then Help 1
              else let raw = read_input path files stdin
                   in case parseConfig raw (default_control\<lparr>ct_listen := listen\<rparr>) of
                        None \<Rightarrow> Endless
                      | Some (cfgs, g) \<Rightarrow>
                          (case parseSystemMonitorConfig raw default_sysmon of
                             None \<Rightarrow> Endless
                           | Some sm \<Rightarrow>
                               if cfgs = [] then Fails
                               else (case build_groups cfgs (group_names cfgs) of
                                       None \<Rightarrow> Fails
                                     | Some gs \<Rightarrow>
                                         (case auth_token token2 g of
                                            None \<Rightarrow> Fails
                                          | Some g' \<Rightarrow>
                                              Runs \<lparr>gk_relays = start_objects now cfgs, gk_pending = [], gk_groups = gs,
                                                     gk_cfgs = (if path = ''-'' then [] else cfgs),
                                                     gk_configPath = (if path = ''-'' then [] else path),
                                                     gk_reloading = False, gk_next = length cfgs\<rparr>
                                                g' sm token1))))"

text \<open>
  The end: all groups are stopped, then all relays that are served. The signals sent, \<open>None\<close> when a group points to a relay that is gone.
  Which processes live is asked twice.
\<close>

fun stop_groups :: "(int \<Rightarrow> bool) \<Rightarrow> port_group list \<Rightarrow> heap \<Rightarrow> signal_act list option" where
  "stop_groups alive [] h = Some []"
| "stop_groups alive (g # gs) h =
     (case group_stop alive g h of
        None \<Rightarrow> None
      | Some (_, h1, acts) \<Rightarrow> map_option ((@) acts) (stop_groups alive gs h1))"

definition main_end :: "(int \<Rightarrow> bool) \<Rightarrow> (int \<Rightarrow> bool) \<Rightarrow> gatekeeper \<Rightarrow> signal_act list option" where
  "main_end alive1 alive2 st =
     map_option (\<lambda>acts. acts @ concat (map (\<lambda>(i, r). snd (relay_stop alive2 r)) (gk_relays st)))
       (stop_groups alive1 (gk_groups st) (heap_of st))"

end
