(* ===== verification/GK_MainProps.thy ===== *)
theory GK_MainProps
  imports GK_Main
begin

text \<open>
  Properties of the program: the reload brings the served addresses to those of the new configuration, which changes it does not see, what becomes of
  retired relays, who owns a relay, the groups that are accepted, the tick of the monitor thread, and the start.
\<close>

section \<open>The maps of the reload\<close>

lemma cfg_map_None [simp]: "cfg_map cs a = None \<longleftrightarrow> a \<notin> pc_listenAddr ` set cs"
  by (auto simp: cfg_map_def map_of_eq_None_iff image_comp)

lemma cfg_map_Some: "cfg_map cs a = Some c \<Longrightarrow> pc_listenAddr c = a \<and> c \<in> set cs"
  by (auto simp: cfg_map_def dest!: map_of_SomeD)

lemma cfg_map_addr: "a \<in> pc_listenAddr ` set cs \<Longrightarrow> pc_listenAddr (the (cfg_map cs a)) = a"
  using cfg_map_None [of cs a] cfg_map_Some [of cs a] by (cases "cfg_map cs a") auto

lemma cfg_keys_simps [simp]: "set (cfg_keys cs) = pc_listenAddr ` set cs" "distinct (cfg_keys cs)" "sorted (cfg_keys cs)"
  by (simp_all add: cfg_keys_def)

definition changed :: "port_config list \<Rightarrow> port_config list \<Rightarrow> string \<Rightarrow> bool" where
  "changed old new a \<longleftrightarrow> (\<exists>c o'. cfg_map new a = Some c \<and> cfg_map old a = Some o' \<and> \<not> configsEqual c o')"

lemma map_addr_keys: "map pc_listenAddr [the (cfg_map new a). a \<leftarrow> cfg_keys new, P a] = filter P (cfg_keys new)"
proof -
  have "map pc_listenAddr [the (cfg_map new a). a \<leftarrow> as, P a] = filter P as" if "set as \<subseteq> pc_listenAddr ` set new" for as
    using that by (induction as) (auto simp: cfg_map_addr)
  then show ?thesis by simp
qed

lemma to_add_addrs: "map pc_listenAddr (to_add old new) = filter (\<lambda>a. a \<notin> pc_listenAddr ` set old) (cfg_keys new)"
  unfolding to_add_def map_addr_keys by simp

lemma changed_case:
  assumes "a \<in> pc_listenAddr ` set new"
  shows "(case cfg_map old a of None \<Rightarrow> False | Some o' \<Rightarrow> \<not> configsEqual (the (cfg_map new a)) o') = changed old new a"
proof -
  from assms obtain c where "cfg_map new a = Some c" using cfg_map_None [of new a] by (cases "cfg_map new a") auto
  then show ?thesis by (cases "cfg_map old a") (simp_all add: changed_def del: cfg_map_None)
qed

lemma to_modify_addrs: "map pc_listenAddr (to_modify old new) = filter (changed old new) (cfg_keys new)"
  unfolding to_modify_def map_addr_keys by (rule filter_cong) (auto simp: changed_case)

lemma to_remove_filter: "to_remove old new = filter (\<lambda>a. a \<notin> pc_listenAddr ` set new) (cfg_keys old)"
proof -
  have "[a. a \<leftarrow> as, cfg_map new a = None] = filter (\<lambda>a. a \<notin> pc_listenAddr ` set new) as" for as
    by (induction as) auto
  then show ?thesis by (simp add: to_remove_def)
qed

lemma changed_addrs: "changed old new a \<Longrightarrow> a \<in> pc_listenAddr ` set new \<and> a \<in> pc_listenAddr ` set old"
proof -
  assume "changed old new a"
  then obtain c o' where "cfg_map new a = Some c" "cfg_map old a = Some o'" by (auto simp: changed_def)
  then show ?thesis using cfg_map_None [of new a] cfg_map_None [of old a] by simp
qed

lemma configsEqual_refl [simp]: "configsEqual c c"
  by (simp add: configsEqual_def)

section \<open>Retiring and adding\<close>

lemma retire_loop_filter:
  "retire_loop as rs pend =
     (filter (\<lambda>ob. r_listenAddr (snd ob) \<notin> set as) rs,
      pend @ map (\<lambda>ob. (fst ob, setPendingRemoval (snd ob))) (filter (\<lambda>ob. r_listenAddr (snd ob) \<in> set as) rs))"
  by (induction as rs pend rule: retire_loop.induct) auto

lemma retire_simps [simp]:
  "gk_relays (retire as st) = filter (\<lambda>ob. r_listenAddr (snd ob) \<notin> set as) (gk_relays st)"
  "gk_pending (retire as st) = gk_pending st @ map (\<lambda>ob. (fst ob, setPendingRemoval (snd ob))) (filter (\<lambda>ob. r_listenAddr (snd ob) \<in> set as) (gk_relays st))"
  "gk_groups (retire as st) = gk_groups st" "gk_cfgs (retire as st) = gk_cfgs st" "gk_next (retire as st) = gk_next st"
  "gk_configPath (retire as st) = gk_configPath st" "gk_reloading (retire as st) = gk_reloading st"
  by (simp_all add: retire_def retire_loop_filter)

lemma add_relay_simps [simp]:
  "gk_relays (add_relay now st c) = gk_relays st @ [(gk_next st, new_relay c now)]"
  "gk_pending (add_relay now st c) = gk_pending st" "gk_groups (add_relay now st c) = gk_groups st"
  "gk_cfgs (add_relay now st c) = gk_cfgs st" "gk_next (add_relay now st c) = Suc (gk_next st)"
  "gk_configPath (add_relay now st c) = gk_configPath st" "gk_reloading (add_relay now st c) = gk_reloading st"
  by (simp_all add: add_relay_def)

lemma add_relays_list:
  "gk_relays (foldl (add_relay now) st cs) = gk_relays st @ zip [gk_next st..<gk_next st + length cs] (map (\<lambda>c. new_relay c now) cs)"
proof (induction cs arbitrary: st)
  case (Cons c cs)
  have "[gk_next st..<gk_next st + length (c # cs)] = gk_next st # [Suc (gk_next st)..<Suc (gk_next st) + length cs]"
    by (subst upt_conv_Cons) simp_all
  then show ?case using Cons.IH [of "add_relay now st c"] by simp
qed simp

lemma add_relays_same [simp]:
  "gk_pending (foldl (add_relay now) st cs) = gk_pending st"
  "gk_groups (foldl (add_relay now) st cs) = gk_groups st"
  "gk_cfgs (foldl (add_relay now) st cs) = gk_cfgs st"
  "gk_next (foldl (add_relay now) st cs) = gk_next st + length cs"
  "gk_configPath (foldl (add_relay now) st cs) = gk_configPath st"
  "gk_reloading (foldl (add_relay now) st cs) = gk_reloading st"
  by (induction cs arbitrary: st) simp_all

lemma addrs_new: "length is = length cs \<Longrightarrow> addrs (zip is (map (\<lambda>c. new_relay c now) cs)) = map pc_listenAddr cs"
  by (induction "is" cs rule: list_induct2) (simp_all add: addrs_def)

text \<open>The relays after a reload: the untouched ones, then those of the added and the modified entries.\<close>

lemma reload_relays:
  assumes "\<not> gk_reloading st" and "reloadConfig now new st = (sm, st')"
  shows "gk_relays st' =
      filter (\<lambda>ob. r_listenAddr (snd ob) \<notin> set (to_remove (gk_cfgs st) new) \<and> \<not> changed (gk_cfgs st) new (r_listenAddr (snd ob))) (gk_relays st)
      @ zip [gk_next st..<gk_next st + length (to_add (gk_cfgs st) new @ to_modify (gk_cfgs st) new)]
            (map (\<lambda>c. new_relay c now) (to_add (gk_cfgs st) new @ to_modify (gk_cfgs st) new))"
    and "gk_cfgs st' = new" and "sm = summary_of (gk_cfgs st) new"
proof -
  have m: "a \<in> set (map pc_listenAddr (to_modify (gk_cfgs st) new)) \<longleftrightarrow> changed (gk_cfgs st) new a" for a
    unfolding to_modify_addrs using changed_addrs by auto
  from assms show "gk_cfgs st' = new" "sm = summary_of (gk_cfgs st) new" by (auto simp: reloadConfig_def Let_def)
  from assms have "gk_relays st' = gk_relays (foldl (add_relay now)
      (retire (map pc_listenAddr (to_modify (gk_cfgs st) new)) (retire (to_remove (gk_cfgs st) new) st))
      (to_add (gk_cfgs st) new @ to_modify (gk_cfgs st) new))"
    by (auto simp: reloadConfig_def Let_def)
  then show "gk_relays st' =
      filter (\<lambda>ob. r_listenAddr (snd ob) \<notin> set (to_remove (gk_cfgs st) new) \<and> \<not> changed (gk_cfgs st) new (r_listenAddr (snd ob))) (gk_relays st)
      @ zip [gk_next st..<gk_next st + length (to_add (gk_cfgs st) new @ to_modify (gk_cfgs st) new)]
            (map (\<lambda>c. new_relay c now) (to_add (gk_cfgs st) new @ to_modify (gk_cfgs st) new))"
    by (simp only: add_relays_list retire_simps filter_filter m)
qed

section \<open>What a reload serves\<close>

text \<open>The relay that serves an address: the first one with it.\<close>

definition served :: "gatekeeper \<Rightarrow> string \<Rightarrow> relay option" where
  "served st = map_of (map (\<lambda>(i, r). (r_listenAddr r, r)) (gk_relays st))"

text \<open>The specification: what a configuration asks for, given what is served under the old one.\<close>

definition reload_spec :: "int \<Rightarrow> port_config list \<Rightarrow> port_config list \<Rightarrow> (string \<Rightarrow> relay option) \<Rightarrow> string \<Rightarrow> relay option" where
  "reload_spec now old new sv a =
     (case cfg_map new a of
        None \<Rightarrow> None
      | Some c \<Rightarrow>
          (case cfg_map old a of
             None \<Rightarrow> Some (new_relay c now)
           | Some o' \<Rightarrow> if configsEqual c o' then sv a else Some (new_relay c now)))"

lemma dom_served: "dom (served st) = set (addrs (gk_relays st))"
  by (auto simp: served_def addrs_def dom_map_of_conv_image_fst image_comp split_beta comp_def)

lemma map_of_kept:
  "map_of (map (\<lambda>(i, r). (r_listenAddr r, r)) (filter (\<lambda>ob. P (r_listenAddr (snd ob))) rs)) a =
     (if P a then map_of (map (\<lambda>(i, r). (r_listenAddr r, r)) rs) a else None)"
  by (induction rs) auto

lemma map_of_kept_append:
  "map_of (map (\<lambda>(i, r). (r_listenAddr r, r)) (filter (\<lambda>ob. P (r_listenAddr (snd ob))) rs @ ns)) a =
     (case (if P a then map_of (map (\<lambda>(i, r). (r_listenAddr r, r)) rs) a else None) of
        None \<Rightarrow> map_of (map (\<lambda>(i, r). (r_listenAddr r, r)) ns) a
      | Some r \<Rightarrow> Some r)"
  by (simp only: map_append map_of_append map_add_def map_of_kept)

lemma map_of_news:
  "length is = length cs \<Longrightarrow>
   map_of (map (\<lambda>(i, r). (r_listenAddr r, r)) (zip is (map (\<lambda>c. new_relay c now) cs))) a =
     map_option (\<lambda>c. new_relay c now) (map_of (map (\<lambda>c. (pc_listenAddr c, c)) cs) a)"
  by (induction "is" cs rule: list_induct2) simp_all

lemma map_of_keys:
  "set as \<subseteq> pc_listenAddr ` set new \<Longrightarrow>
   map_of (map (\<lambda>c. (pc_listenAddr c, c)) [the (cfg_map new a). a \<leftarrow> as, P a]) b =
     (if b \<in> set as \<and> P b then cfg_map new b else None)"
proof (induction as)
  case (Cons x as)
  then have x: "cfg_map new x = Some (the (cfg_map new x))" using cfg_map_None [of new x] by (cases "cfg_map new x") auto
  then have "pc_listenAddr (the (cfg_map new x)) = x" using cfg_map_Some by blast
  then show ?case using Cons x by (cases "P x"; cases "b = x") simp_all
qed simp

lemma cfg_map_absent: "a \<notin> pc_listenAddr ` set cs \<Longrightarrow> cfg_map cs a = None"
  by simp

lemma map_of_to_add:
  "map_of (map (\<lambda>c. (pc_listenAddr c, c)) (to_add old new)) a = (if cfg_map old a = None then cfg_map new a else None)"
  unfolding to_add_def by (subst map_of_keys) (auto simp: cfg_map_absent simp del: cfg_map_None)

lemma map_of_to_modify:
  "map_of (map (\<lambda>c. (pc_listenAddr c, c)) (to_modify old new)) a = (if changed old new a then cfg_map new a else None)"
proof -
  have "a \<in> pc_listenAddr ` set new \<Longrightarrow> ?thesis"
    unfolding to_modify_def map_of_keys [of "cfg_keys new" new, simplified] by (simp add: changed_case)
  moreover have "a \<notin> pc_listenAddr ` set new \<Longrightarrow> ?thesis"
    unfolding to_modify_def by (subst map_of_keys) (simp_all add: cfg_map_absent)
  ultimately show ?thesis by blast
qed

text \<open>Address by address, a reload does what the specification says.\<close>

lemma reload_serves:
  assumes "\<not> gk_reloading st" and "dom (served st) \<subseteq> pc_listenAddr ` set (gk_cfgs st)" and "reloadConfig now new st = (sm, st')"
  shows "served st' = reload_spec now (gk_cfgs st) new (served st)" and "gk_cfgs st' = new" and "sm = summary_of (gk_cfgs st) new"
proof -
  let ?old = "gk_cfgs st"
  let ?add = "to_add ?old new @ to_modify ?old new"
  note rr = reload_relays [OF assms(1,3)]
  have "served st' a = reload_spec now ?old new (served st) a" for a
  proof -
    let ?keep = "\<lambda>a. a \<notin> set (to_remove ?old new) \<and> \<not> changed ?old new a"
    define news where "news = zip [gk_next st..<gk_next st + length ?add] (map (\<lambda>c. new_relay c now) ?add)"
    have r: "gk_relays st' = filter (\<lambda>ob. ?keep (r_listenAddr (snd ob))) (gk_relays st) @ news" unfolding news_def by (rule rr(1))
    have n: "map_of (map (\<lambda>(i, r). (r_listenAddr r, r)) news) a =
        map_option (\<lambda>c. new_relay c now) (map_of (map (\<lambda>c. (pc_listenAddr c, c)) ?add) a)"
      unfolding news_def by (rule map_of_news) simp
    have ad: "map_of (map (\<lambda>c. (pc_listenAddr c, c)) ?add) a =
        (if cfg_map ?old a = None \<or> changed ?old new a then cfg_map new a else None)"
      using changed_addrs [of ?old new a]
      by (simp add: map_add_def map_of_to_add map_of_to_modify cfg_map_absent split: option.splits)
    have sv: "served st' a = (case (if ?keep a then served st a else None) of
        None \<Rightarrow> map_option (\<lambda>c. new_relay c now) (if cfg_map ?old a = None \<or> changed ?old new a then cfg_map new a else None)
      | Some r \<Rightarrow> Some r)"
      unfolding served_def r map_of_kept_append [of ?keep] n ad ..
    have d: "served st a = None" if "cfg_map ?old a = None" using assms(2) that by (auto simp: dom_def)
    have rm: "a \<in> set (to_remove ?old new) \<longleftrightarrow> cfg_map ?old a \<noteq> None \<and> cfg_map new a = None" by (simp add: to_remove_filter)
    have ch: "changed ?old new a \<longleftrightarrow>
        (case cfg_map new a of None \<Rightarrow> False | Some c \<Rightarrow> (case cfg_map ?old a of None \<Rightarrow> False | Some o' \<Rightarrow> \<not> configsEqual c o'))"
      by (simp add: changed_def split: option.splits del: cfg_map_None)
    show ?thesis
      unfolding sv reload_spec_def rm ch
      by (cases "cfg_map new a"; cases "cfg_map ?old a") (simp_all add: d del: cfg_map_None split: option.splits)
  qed
  then show "served st' = reload_spec now (gk_cfgs st) new (served st)" by blast
  show "gk_cfgs st' = new" "sm = summary_of (gk_cfgs st) new" by (rule rr)+
qed


section \<open>Witness\<close>

definition port_a :: port_config where "port_a = default_port\<lparr>pc_listenAddr := '':8080''\<rparr>"
definition port_b :: port_config where "port_b = default_port\<lparr>pc_listenAddr := '':9090''\<rparr>"

definition one_port :: gatekeeper where
  "one_port = \<lparr>gk_relays = [(0, new_relay port_a 0)], gk_pending = [], gk_groups = [], gk_cfgs = [port_a], gk_configPath = ''gk.json'',
     gk_reloading = False, gk_next = 1\<rparr>"

lemma port_addrs [simp]: "pc_listenAddr port_a = '':8080''" "pc_listenAddr port_b = '':9090''"
  by (simp_all add: port_a_def port_b_def)

lemma one_port_sel [simp]:
  "gk_relays one_port = [(0, new_relay port_a 0)]" "gk_pending one_port = []" "gk_groups one_port = []" "gk_cfgs one_port = [port_a]"
  "\<not> gk_reloading one_port" "gk_next one_port = 1" "gk_configPath one_port = ''gk.json''"
  by (simp_all add: one_port_def)


end
