(* ===== verification/GK_Lifecycle.thy ===== *)
theory GK_Lifecycle
  imports GK_MainProps GK_SysMonProps "HOL-Library.Multiset"
begin

text \<open>
  The life of a relay object: the changes of the configuration that a reload does not see, what the monitor thread does with retired relays,
  who owns an object at any time, and what is left of a group whose members are retired.
\<close>

section \<open>Changes a reload does not see\<close>

lemma cfg_map_map:
  assumes "\<And>c. pc_listenAddr (f c) = pc_listenAddr c"
  shows "cfg_map (map f cs) a = map_option f (cfg_map cs a)"
proof -
  have "map_of (map (\<lambda>c. (pc_listenAddr c, c)) (map f xs)) a = map_option f (map_of (map (\<lambda>c. (pc_listenAddr c, c)) xs) a)" for xs
    by (induction xs) (simp_all add: assms)
  from this [of "rev cs"] show ?thesis by (simp add: cfg_map_def rev_map)
qed

lemma unseen_diff:
  assumes "\<And>c. configsEqual (f c) c"
  shows "to_add cs (map f cs) = []" and "to_modify cs (map f cs) = []" and "to_remove cs (map f cs) = []"
proof -
  have ad: "pc_listenAddr (f c) = pc_listenAddr c" for c using assms by (simp add: configsEqual_def)
  have k: "set (map (pc_listenAddr \<circ> f) cs) = pc_listenAddr ` set cs" by (simp add: ad)
  have "map pc_listenAddr (to_add cs (map f cs)) = []"
    unfolding to_add_addrs by (auto simp: filter_empty_conv ad)
  then show "to_add cs (map f cs) = []" by simp
  have "\<not> changed cs (map f cs) a" for a
    by (auto simp: changed_def cfg_map_map [OF ad] assms)
  then have "map pc_listenAddr (to_modify cs (map f cs)) = []"
    unfolding to_modify_addrs by simp
  then show "to_modify cs (map f cs) = []" by simp
  show "to_remove cs (map f cs) = []" unfolding to_remove_filter by (auto simp: filter_empty_conv ad image_image)
qed

lemma retire_none [simp]: "retire [] st = st"
  by (simp add: retire_def retire_loop_filter)

text \<open>
  A reload compares entries without their name, protocols, credentials and address family of the monitor: a new configuration that differs in those only, a
  change of the proxy's password among them, is reported as a success with no change and is remembered, but every relay goes on as it was. In particular a
  reload of the same configuration changes nothing.
\<close>
theorem auth_change_ignored:
  assumes "\<not> gk_reloading st"
  shows "reloadConfig now (map (\<lambda>c. c\<lparr>pc_name := nm c, pc_protocols := ps c, pc_auth := au c, pc_monitor := (pc_monitor c)\<lparr>mo_ipv6 := fam c\<rparr>\<rparr>) (gk_cfgs st)) st =
    (\<lparr>rs_added = [], rs_removed = [], rs_modified = [], rs_success = True\<rparr>,
     st\<lparr>gk_cfgs := map (\<lambda>c. c\<lparr>pc_name := nm c, pc_protocols := ps c, pc_auth := au c, pc_monitor := (pc_monitor c)\<lparr>mo_ipv6 := fam c\<rparr>\<rparr>) (gk_cfgs st)\<rparr>)"
proof -
  define f where "f = (\<lambda>c :: port_config. c\<lparr>pc_name := nm c, pc_protocols := ps c, pc_auth := au c, pc_monitor := (pc_monitor c)\<lparr>mo_ipv6 := fam c\<rparr>\<rparr>)"
  have "configsEqual (f c) c" for c by (simp add: f_def configsEqual_def)
  note d = unseen_diff [of f, OF this]
  have "reloadConfig now (map f (gk_cfgs st)) st =
    (\<lparr>rs_added = [], rs_removed = [], rs_modified = [], rs_success = True\<rparr>, st\<lparr>gk_cfgs := map f (gk_cfgs st)\<rparr>)"
    using assms by (simp add: reloadConfig_def Let_def d summary_of_def)
  then show ?thesis by (simp add: f_def)
qed

theorem auth_change_ignored_witness:
  "gk_relays (snd (reloadConfig 5 [port_a\<lparr>pc_auth := \<lparr>au_type = ''basic'', au_username = ''u'', au_password = ''p''\<rparr>\<rparr>] one_port)) = [(0, new_relay port_a 0)]"
  using auth_change_ignored [OF one_port_sel(5), where now = 5 and nm = pc_name and ps = pc_protocols
    and au = "\<lambda>_. \<lparr>au_type = ''basic'', au_username = ''u'', au_password = ''p''\<rparr>" and fam = "\<lambda>c. mo_ipv6 (pc_monitor c)"] by simp

section \<open>Retired relays\<close>

definition stop_due :: "int \<Rightarrow> relay \<Rightarrow> bool" where
  "stop_due now r \<longleftrightarrow> monitorEnabled r \<and> \<not> hasRecentActivity now (r_idleMinutes r) r"

definition after_stop :: "int \<Rightarrow> (nat \<Rightarrow> relay \<Rightarrow> relay \<times> signal_act list) \<Rightarrow> obj \<Rightarrow> obj" where
  "after_stop now stop ob = (if stop_due now (snd ob) then (fst ob, fst (stop (fst ob) (snd ob))) else ob)"

definition stop_signals :: "int \<Rightarrow> (nat \<Rightarrow> relay \<Rightarrow> relay \<times> signal_act list) \<Rightarrow> obj \<Rightarrow> signal_act list" where
  "stop_signals now stop ob = (if stop_due now (snd ob) then snd (stop (fst ob) (snd ob)) else [])"

lemma pending_loop_filter:
  "pending_loop now stop os =
     (map (after_stop now stop) (filter (isBackendRunning \<circ> snd) os),
      map (\<lambda>ob. (fst ob, resetForIdle (snd ob))) (filter (\<lambda>ob. \<not> isBackendRunning (snd ob) \<and> r_autoRestart (snd ob)) os),
      concat (map (stop_signals now stop) (filter (isBackendRunning \<circ> snd) os)))"
  by (induction now stop os rule: pending_loop.induct)
    (simp_all add: after_stop_def stop_signals_def stop_due_def split_beta)

text \<open>
  What becomes of the relays waiting for removal: one whose backend runs stays on the list, and is stopped when it is monitored and idle; one without a backend
  is listened on again if it restarts by itself, after those that are served, and is deleted otherwise. No relay with a running backend is
  ever deleted, and signals are sent to idle ones only.
\<close>
theorem pending_pass_spec:
  "pending_pass now stop st =
     (st\<lparr>gk_relays := gk_relays st @ map (\<lambda>ob. (fst ob, resetForIdle (snd ob))) (filter (\<lambda>ob. \<not> isBackendRunning (snd ob) \<and> r_autoRestart (snd ob)) (gk_pending st)),
         gk_pending := map (after_stop now stop) (filter (isBackendRunning \<circ> snd) (gk_pending st))\<rparr>,
      concat (map (stop_signals now stop) (filter (isBackendRunning \<circ> snd) (gk_pending st))))"
  by (simp add: pending_pass_def pending_loop_filter)

lemma retired_same [simp]:
  "isBackendRunning (setPendingRemoval r) = isBackendRunning r" "r_autoRestart (setPendingRemoval r) = r_autoRestart r"
  "r_listenAddr (setPendingRemoval r) = r_listenAddr r" "r_listenAddr (resetForIdle r) = r_listenAddr r"
  by (simp_all add: setPendingRemoval_def resetForIdle_def isBackendRunning_def signalStop_def)

text \<open>
  A port that a reload removes comes back: when its relay restarts by itself and has no backend at the moment, the next pass of the monitor thread listens
  for it again, although the configuration no longer has the port. When the reload changed the entry, its old relay, with the old command, comes back
  beside the new one, and two relays serve the same address.
\<close>
theorem retired_port_returns:
  assumes "\<not> gk_reloading st" and "reloadConfig now new st = (sm, st')"
    and "(i, r) \<in> set (gk_relays st)" and "r_autoRestart r" and "\<not> isBackendRunning r"
    and "r_listenAddr r \<in> set (rs_removed sm) \<union> set (rs_modified sm)"
  shows "(i, resetForIdle (setPendingRemoval r)) \<in> set (gk_relays (fst (pending_pass now2 stop st'))) \<and>
    (r_listenAddr r \<in> set (rs_modified sm) \<longrightarrow> \<not> distinct (addrs (gk_relays (fst (pending_pass now2 stop st')))))"
proof -
  let ?old = "gk_cfgs st"
  note rr = reload_relays [OF assms(1,2)]
  have md: "a \<in> set (rs_modified sm) \<longleftrightarrow> changed ?old new a" for a
    using changed_addrs by (auto simp: rr(3) summary_of_def to_modify_addrs)
  have pend: "gk_pending st' = gk_pending st
      @ map (\<lambda>ob. (fst ob, setPendingRemoval (snd ob))) (filter (\<lambda>ob. r_listenAddr (snd ob) \<in> set (to_remove ?old new)) (gk_relays st))
      @ map (\<lambda>ob. (fst ob, setPendingRemoval (snd ob))) (filter (\<lambda>ob. r_listenAddr (snd ob) \<in> set (rs_modified sm))
          (filter (\<lambda>ob. r_listenAddr (snd ob) \<notin> set (to_remove ?old new)) (gk_relays st)))"
    using assms(1,2) by (auto simp: reloadConfig_def Let_def summary_of_def)
  have rem: "set (rs_removed sm) = set (to_remove ?old new)" by (simp add: rr(3) summary_of_def)
  have p: "(i, setPendingRemoval r) \<in> set (gk_pending st')"
    using assms(3,6) unfolding pend rem by (cases "r_listenAddr r \<in> set (to_remove ?old new)") force+
  then have again: "(i, resetForIdle (setPendingRemoval r)) \<in>
      set (map (\<lambda>ob. (fst ob, resetForIdle (snd ob))) (filter (\<lambda>ob. \<not> isBackendRunning (snd ob) \<and> r_autoRestart (snd ob)) (gk_pending st')))"
    using assms(4,5) by force
  have "\<not> distinct (addrs (gk_relays (fst (pending_pass now2 stop st'))))" if c: "r_listenAddr r \<in> set (rs_modified sm)"
  proof -
    have "r_listenAddr r \<in> set (map pc_listenAddr (to_add ?old new @ to_modify ?old new))"
      using c by (simp add: rr(3) summary_of_def)
    then have "r_listenAddr r \<in> set (addrs (gk_relays st'))"
      unfolding rr(1) addrs_def map_append comp_def [symmetric] using addrs_new [of _ "to_add ?old new @ to_modify ?old new" now]
      by (simp add: addrs_def)
    moreover have "r_listenAddr r \<in> r_listenAddr ` snd `
        set (map (\<lambda>ob. (fst ob, resetForIdle (snd ob))) (filter (\<lambda>ob. \<not> isBackendRunning (snd ob) \<and> r_autoRestart (snd ob)) (gk_pending st')))"
      by (rule rev_image_eqI [OF imageI [OF again]]) simp
    ultimately show ?thesis unfolding pending_pass_def pending_loop_filter by (auto simp: addrs_def image_comp)
  qed
  with again show ?thesis unfolding pending_pass_def pending_loop_filter by auto
qed

section \<open>Who owns a relay\<close>

text \<open>
  What happens to the lists, one critical section at a time: the passes of the monitor thread, a reload, a refresh time, an eviction, which holds its victim
  between two sections, and whatever the thread of a relay does to its object.
\<close>

datatype gk_event =
    Sampling int "int \<Rightarrow> bool \<Rightarrow> conn_entry list"
  | Idling int
  | Pending int "nat \<Rightarrow> relay \<Rightarrow> relay \<times> signal_act list"
  | ReloadWith int "port_config list"
  | Persist "string \<Rightarrow> string \<Rightarrow> int \<Rightarrow> bool" string int
  | TakeVictim int "int \<Rightarrow> int"
  | PutVictim "int \<Rightarrow> bool" "relay \<Rightarrow> relay"
  | Thread nat "relay \<Rightarrow> relay"

definition touch :: "nat \<Rightarrow> (relay \<Rightarrow> relay) \<Rightarrow> obj list \<Rightarrow> obj list" where
  "touch i f = map (\<lambda>(j, r). (j, if i = j then f r else r))"

fun gk_step :: "gatekeeper \<times> obj option \<Rightarrow> gk_event \<Rightarrow> gatekeeper \<times> obj option" where
  "gk_step (st, v) (Sampling now query) = (sample_pass now query st, v)"
| "gk_step (st, v) (Idling now) = (idle_pass now st, v)"
| "gk_step (st, v) (Pending now stop) = (fst (pending_pass now stop st), v)"
| "gk_step (st, v) (ReloadWith now new) = (snd (reload_parsed now new st), v)"
| "gk_step (st, v) (Persist write addr secs) = (snd (persistRefreshSeconds write addr secs st), v)"
| "gk_step (st, None) (TakeVictim now rss) = (case evict_take now rss st of None \<Rightarrow> (st, None) | Some (v, st') \<Rightarrow> (st', Some v))"
| "gk_step (st, Some v) (TakeVictim now rss) = (st, Some v)"
| "gk_step (st, Some v) (PutVictim alive f) = (fst (evict_put alive (fst v, f (snd v)) st), None)"
| "gk_step (st, None) (PutVictim alive f) = (st, None)"
| "gk_step (st, v) (Thread i f) = (st\<lparr>gk_relays := touch i f (gk_relays st), gk_pending := touch i f (gk_pending st)\<rparr>, v)"

definition owned :: "gatekeeper \<times> obj option \<Rightarrow> nat list" where
  "owned s = map fst (gk_relays (fst s)) @ map fst (gk_pending (fst s)) @ (case snd s of None \<Rightarrow> [] | Some v \<Rightarrow> [fst v])"

definition own_inv :: "gatekeeper \<times> obj option \<Rightarrow> bool" where
  "own_inv s \<longleftrightarrow> distinct (owned s) \<and> (\<forall>i \<in> set (owned s). i < gk_next (fst s))"

lemma distinct_sub: "mset xs \<subseteq># mset ys \<Longrightarrow> distinct ys \<Longrightarrow> distinct xs"
proof -
  assume a: "mset xs \<subseteq># mset ys" "distinct ys"
  have "count (mset xs) a \<le> 1" for a
  proof -
    have "count (mset ys) a = (if a \<in> set ys then 1 else 0)" using a(2) distinct_count_atmost_1 by fast
    then have "count (mset ys) a \<le> 1" by simp
    then show ?thesis by (rule order_trans [OF mset_subset_eq_count [OF a(1)]])
  qed
  then show "distinct xs" by (metis One_nat_def count_greater_eq_one_iff count_inI distinct_count_atmost_1 le_antisym set_mset_mset)
qed

text \<open>A step that lets objects go, or makes new ones, keeps the invariant.\<close>

lemma own_inv_sub:
  assumes "own_inv s" and "mset (owned s') \<subseteq># mset (owned s)" and "gk_next (fst s) \<le> gk_next (fst s')"
  shows "own_inv s'"
proof -
  have "set (owned s') \<subseteq> set (owned s)" using set_mset_mono [OF assms(2)] by simp
  then show ?thesis using assms distinct_sub [OF assms(2)] by (fastforce simp: own_inv_def)
qed

lemma own_inv_same: "own_inv s \<Longrightarrow> owned s' = owned s \<Longrightarrow> gk_next (fst s') = gk_next (fst s) \<Longrightarrow> own_inv s'"
  by (simp add: own_inv_def)

lemma touch_fst [simp]: "map fst (touch i f os) = map fst os"
  by (auto simp: touch_def)

lemma sample_same [simp]:
  "map fst (gk_relays (sample_pass now query st)) = map fst (gk_relays st)"
  "gk_pending (sample_pass now query st) = gk_pending st" "gk_next (sample_pass now query st) = gk_next st"
  by (auto simp: sample_pass_def)

lemma idle_loop_fst:
  "idle_loop now rs pend gs = (kept, pend', gs') \<Longrightarrow> mset (map fst kept @ map fst pend') = mset (map fst rs @ map fst pend)"
  by (induction now rs pend gs arbitrary: kept pend' gs' rule: idle_loop.induct) (auto split: prod.splits if_splits simp: ac_simps)

lemma after_stop_fst [simp]: "fst (after_stop now stop ob) = fst ob"
  by (simp add: after_stop_def)

lemma mset_split: "mset (map f (filter P xs)) + mset (map f (filter (\<lambda>x. \<not> P x) xs)) = mset (map f xs)"
  by (induction xs) simp_all

lemma mset_filter_disjoint:
  "(\<And>x. P x \<Longrightarrow> \<not> Q x) \<Longrightarrow> mset (map f (filter P xs)) + mset (map f (filter Q xs)) \<subseteq># mset (map f xs)"
proof (induction xs)
  case (Cons x xs)
  then show ?case by (cases "P x"; cases "Q x") (auto intro: subset_mset.order_trans)
qed simp

lemma pending_pass_owned: "mset (owned (fst (pending_pass now stop st), v)) \<subseteq># mset (owned (st, v))"
proof -
  have m: "map fst (map (after_stop now stop) xs) = map fst xs" "map fst (map (\<lambda>ob. (fst ob, g (snd ob))) xs) = map fst xs"
    for g :: "relay \<Rightarrow> relay" and xs :: "obj list" by (simp_all add: comp_def)
  have "mset (map fst (filter (\<lambda>ob. \<not> isBackendRunning (snd ob) \<and> r_autoRestart (snd ob)) (gk_pending st)))
      + mset (map fst (filter (isBackendRunning \<circ> snd) (gk_pending st))) \<subseteq># mset (map fst (gk_pending st))"
    by (rule mset_filter_disjoint) simp
  then show ?thesis
    unfolding pending_pass_def pending_loop_filter
    by (simp add: owned_def m ac_simps del: map_map split: option.splits)
qed

lemma retire_owned: "mset (owned (retire as st, v)) = mset (owned (st, v))"
  using mset_split [of fst "\<lambda>ob. r_listenAddr (snd ob) \<in> set as" "gk_relays st"]
  by (simp add: owned_def comp_def ac_simps split: option.splits)

lemma retire_inv: "own_inv (st, v) \<Longrightarrow> own_inv (retire as st, v)"
  by (rule own_inv_sub [of "(st, v)"]) (simp_all add: retire_owned del: retire_simps(2))

lemma add_relay_inv: "own_inv (st, v) \<Longrightarrow> own_inv (add_relay now st c, v)"
  by (auto simp: own_inv_def owned_def less_Suc_eq dest: less_imp_le split: option.splits)

lemma add_relays_inv: "own_inv (st, v) \<Longrightarrow> own_inv (foldl (add_relay now) st cs, v)"
  by (induction cs arbitrary: st) (simp_all add: add_relay_inv)

lemma reload_inv:
  assumes "own_inv (st, v)"
  shows "own_inv (snd (reload_parsed now new st), v)"
proof -
  have cfgs: "own_inv (x\<lparr>gk_cfgs := cs, gk_reloading := False\<rparr>, v)" if "own_inv (x, v)" for x cs
    by (rule own_inv_same [OF that]) (simp_all add: owned_def)
  show ?thesis
    using assms by (auto simp: reload_parsed_def reloadConfig_def Let_def intro!: cfgs add_relays_inv retire_inv)
qed

lemma take_inv:
  assumes "own_inv (st, None)" and "evict_take now rss st = Some (v, st')"
  shows "own_inv (st', Some v)"
proof -
  from assms(2) obtain k where k: "choose_victim now (map (candidate_of rss \<circ> snd) (gk_relays st)) = Some k"
    "v = gk_relays st ! k" "st' = st\<lparr>gk_relays := take k (gk_relays st) @ drop (Suc k) (gk_relays st)\<rparr>"
    by (auto simp: evict_take_def split: option.splits)
  then have "k < length (gk_relays st)" using choose_victim_Some by (fastforce simp: best_among_def)
  then have "gk_relays st = take k (gk_relays st) @ v # drop (Suc k) (gk_relays st)" using k(2) by (simp add: id_take_nth_drop)
  then have "mset (map fst (gk_relays st)) = mset (map fst (take k (gk_relays st) @ v # drop (Suc k) (gk_relays st)))" by simp
  then show ?thesis by (intro own_inv_sub [OF assms(1)]) (simp_all add: owned_def k(3))
qed

interpretation owning: machine_inv gk_step own_inv
proof
  fix s e assume i: "own_inv s"
  obtain st v where s: "s = (st, v)" by (cases s)
  show "own_inv (gk_step s e)"
  proof (cases e)
    case (Sampling now query)
    then show ?thesis by (intro own_inv_same [OF i]) (simp_all add: s owned_def)
  next
    case (Idling now)
    obtain kept pend gs where l: "idle_loop now (gk_relays st) (gk_pending st) (gk_groups st) = (kept, pend, gs)" by (metis prod.exhaust)
    show ?thesis using idle_loop_fst [OF l] Idling s l
      by (intro own_inv_sub [OF i]) (simp_all add: owned_def idle_pass_def split: option.splits)
  next
    case (Pending now stop)
    then show ?thesis using pending_pass_owned [of now stop st v] s
      by (intro own_inv_sub [OF i]) (simp_all add: pending_pass_def split_beta)
  next
    case (ReloadWith now new)
    then show ?thesis using reload_inv i s by simp
  next
    case (Persist wr addr secs)
    then show ?thesis using s by (intro own_inv_same [OF i]) (simp_all add: owned_def persistRefreshSeconds_def Let_def)
  next
    case (TakeVictim now rss)
    then show ?thesis using take_inv i s by (cases v) (auto split: option.splits)
  next
    case (PutVictim alive f)
    then show ?thesis using s by (cases v) (auto intro!: own_inv_sub [OF i] simp: i owned_def evict_put_def)
  next
    case (Thread j f)
    then show ?thesis using s by (intro own_inv_same [OF i]) (simp_all add: owned_def)
  qed
qed

text \<open>
  C14: every relay has one owner: after any sequence of passes, reloads, refresh times, evictions and changes by the threads of the relays, each relay object is in
  exactly one place, among the served ones, among those waiting for removal, or in the hand of an eviction, and its number is one that
  has been given out. So no object is served by two entries, or deleted while another entry still has it.
\<close>
theorem one_owner:
  assumes "distinct (owned (st, None))" and "\<forall>i \<in> set (owned (st, None)). i < gk_next st"
  shows "distinct (owned (foldl gk_step (st, None) es)) \<and> (\<forall>i \<in> set (owned (foldl gk_step (st, None) es)). i < gk_next (fst (foldl gk_step (st, None) es)))"
  using owning.run_inv [of "(st, None)" es] assms by (simp add: own_inv_def)

section \<open>Groups of retired relays\<close>

lemma each_member_keeps_None: "each_member f is h = Some (h', acts) \<Longrightarrow> h i = None \<Longrightarrow> h' i = None"
proof (induction "is" arbitrary: h acts)
  case (Cons j "is")
  then show ?case by (cases "i = j") (auto split: option.splits)
qed simp

lemma stop_groups_dangling:
  "g \<in> set gs \<Longrightarrow> \<not> pg_stop g \<Longrightarrow> i \<in> set (pg_relays g) \<Longrightarrow> h i = None \<Longrightarrow> stop_groups alive gs h = None"
proof (induction gs arbitrary: h)
  case (Cons x gs)
  show ?case
  proof (cases "group_stop alive x h")
    case (Some res)
    obtain x1 h1 acts where res: "res = (x1, h1, acts)" by (cases res)
    have "g \<noteq> x" using Some Cons.prems dangling_member(2) [of i x h alive] by auto
    moreover have "h1 i = None"
      using Some res Cons.prems(4) each_member_keeps_None [of "relay_stop alive" "pg_relays x" h] by (auto simp: group_stop_def split: if_splits)
    ultimately show ?thesis using Cons.IH [of h1] Cons.prems Some res by simp
  qed simp
qed simp

lemma heap_of_None: "i \<notin> set (map fst (gk_relays st @ gk_pending st)) \<Longrightarrow> heap_of st i = None"
  by (auto simp: heap_of_def map_of_eq_None_iff)

lemma dropped_gone:
  assumes "distinct (map fst (gk_relays st @ gk_pending st))" and "(i, r) \<in> set (gk_pending st)"
    and "\<not> isBackendRunning r" and "\<not> r_autoRestart r"
  shows "heap_of (fst (pending_pass now stop st)) i = None"
proof (rule heap_of_None)
  have only: "ob = (i, r)" if "ob \<in> set (gk_pending st)" "fst ob = i" for ob
  proof -
    have "inj_on fst (set (gk_pending st))" using assms(1) by (simp add: distinct_map)
    from inj_onD [OF this, of ob "(i, r)"] show ?thesis using that assms(2) by simp
  qed
  have "i \<notin> fst ` set (gk_relays st)" using assms(1,2) by (force simp: distinct_append)
  moreover have "i \<notin> fst ` set (filter P (gk_pending st))" if "\<not> P (i, r)" for P using only that by auto
  ultimately show "i \<notin> set (map fst (gk_relays (fst (pending_pass now stop st)) @ gk_pending (fst (pending_pass now stop st))))"
    unfolding pending_pass_def pending_loop_filter using assms(3,4) by (auto simp: image_image comp_def dest: only)
qed

text \<open>
  A group outlives its members: when the monitor thread deletes a retired relay that is a member of a group, the group's pointer dangles: the next
  connection to the group, unless it is marked as launched, and the end of the program, unless the group has been stopped, follow a pointer
  to a deleted object. Neither a reload nor the monitor thread takes a relay out of its group.
\<close>
theorem dangling_group:
  assumes "distinct (map fst (gk_relays st @ gk_pending st))" and "(i, r) \<in> set (gk_pending st)"
    and "\<not> isBackendRunning r" and "\<not> r_autoRestart r" and "g \<in> set (gk_groups st)" and "i \<in> set (pg_relays g)"
  shows "(\<not> pg_launched g \<longrightarrow> onConnection pids t g (heap_of (fst (pending_pass now stop st))) = None) \<and>
    (\<not> pg_stop g \<longrightarrow> main_end alive1 alive2 (fst (pending_pass now stop st)) = None)"
proof -
  note n = dropped_gone [OF assms(1-4), of now stop]
  have "gk_groups (fst (pending_pass now stop st)) = gk_groups st" by (simp add: pending_pass_def split_beta)
  then show ?thesis
    using dangling_member(1) [where h = "heap_of (fst (pending_pass now stop st))", OF assms(6) n] stop_groups_dangling [where h = "heap_of (fst (pending_pass now stop st))", OF assms(5) _ assms(6) n] by (simp add: main_end_def)
qed

section \<open>Witnesses\<close>

definition auto_port :: port_config where "auto_port = port_a\<lparr>pc_autoRestart := True\<rparr>"

definition auto_state :: gatekeeper where
  "auto_state = one_port\<lparr>gk_relays := [(0, new_relay auto_port 0)], gk_cfgs := [auto_port]\<rparr>"

lemma auto_state_sel [simp]:
  "gk_relays auto_state = [(0, new_relay auto_port 0)]" "gk_cfgs auto_state = [auto_port]" "\<not> gk_reloading auto_state"
  "pc_listenAddr auto_port = '':8080''"
  by (simp_all add: auto_state_def auto_port_def)

lemma auto_relay [simp]: "pc_autoRestart auto_port" "\<not> isBackendRunning (new_relay auto_port 0)"
  by (simp_all add: new_relay_def auto_port_def isBackendRunning_def)

theorem retired_port_returns_witness:
  "(0, resetForIdle (setPendingRemoval (new_relay auto_port 0)))
     \<in> set (gk_relays (fst (pending_pass 9 (\<lambda>_ r. (r, [])) (snd (reloadConfig 5 [port_b] auto_state)))))"
proof -
  obtain sm st' where r: "reloadConfig 5 [port_b] auto_state = (sm, st')" by (metis prod.exhaust)
  then have "set (rs_removed sm) = {'':8080''}"
    using reload_relays(3) [OF _ r] by (simp add: summary_of_def to_remove_filter)
  then show ?thesis
    using retired_port_returns [OF _ r, of 0 "new_relay auto_port 0" 9 "\<lambda>_ r. (r, [])"] by (simp add: r)
qed

theorem one_owner_witness:
  "distinct (owned (foldl gk_step (one_port, None) [ReloadWith 5 [port_b], Pending 6 (\<lambda>_ r. (r, [])), TakeVictim 7 (\<lambda>_. 0)]))"
  using one_owner [of one_port "[ReloadWith 5 [port_b], Pending 6 (\<lambda>_ r. (r, [])), TakeVictim 7 (\<lambda>_. 0)]"] by (simp add: owned_def)

definition grouped_state :: gatekeeper where
  "grouped_state = one_port\<lparr>gk_relays := [], gk_pending := [(0, new_relay port_a 0)], gk_groups := [addRelay (Some 0) (new_group ''g'')]\<rparr>"

theorem dangling_group_witness:
  "main_end (\<lambda>_. True) (\<lambda>_. True) (fst (pending_pass 9 (\<lambda>_ r. (r, [])) grouped_state)) = None"
proof -
  have "\<not> isBackendRunning (new_relay port_a 0)" "\<not> r_autoRestart (new_relay port_a 0)"
    by (simp_all add: new_relay_def port_a_def isBackendRunning_def default_port_def)
  then show ?thesis
    using dangling_group [of grouped_state 0 "new_relay port_a 0" "addRelay (Some 0) (new_group ''g'')" "\<lambda>_. 1" 0 9 "\<lambda>_ r. (r, [])" "\<lambda>_. True" "\<lambda>_. True"]
    by (simp add: grouped_state_def addRelay_def new_group_def)
qed

end
