(* ===== verification/GK_Start.thy ===== *)
theory GK_Start
  imports GK_Lifecycle
begin

text \<open>
  Properties of the start: the tick of the monitor thread, the arguments, the groups that are accepted, and the state the program starts to
  run with, which has what the properties of the reload and of the relays' owners ask for.
\<close>

section \<open>The tick of the monitor thread\<close>

lemma gcd_loop_gcd: "0 \<le> a \<Longrightarrow> 0 \<le> b \<Longrightarrow> gcd_loop a b = gcd a b"
proof (induction a b rule: gcd_loop.induct)
  case (1 a b)
  show ?case
  proof (cases "b = 0")
    case True
    then show ?thesis using 1(2) by (simp add: gcd_loop.simps [of a 0])
  next
    case False
    then have "a smod b = a mod b" "0 \<le> a mod b" using 1(2,3) by (simp_all add: smod_mod_positive)
    then show ?thesis using False 1 by (simp add: gcd_loop.simps [of a b] gcd_red_int [symmetric])
  qed
qed

lemma tick_loop_gcd:
  "0 \<le> t \<Longrightarrow> tick_loop t rs = gcd t (Gcd (r_tcpMonitorInterval ` {r \<in> set rs. monitorEnabled r}))"
proof (induction t rs rule: tick_loop.induct)
  case (2 t r rs)
  have s: "{x \<in> set (r # rs). monitorEnabled x} =
      (if monitorEnabled r then insert r {x \<in> set rs. monitorEnabled x} else {x \<in> set rs. monitorEnabled x})" by auto
  show ?case
  proof (cases "monitorEnabled r")
    case True
    then have p: "0 < r_tcpMonitorInterval r" by (simp add: monitorEnabled_def)
    then have "tick_loop t (r # rs) = tick_loop (gcd t (r_tcpMonitorInterval r)) rs"
      using True 2(2) by (simp add: gcd_loop_gcd)
    moreover have "(if t = 0 then r_tcpMonitorInterval r else gcd_loop t (r_tcpMonitorInterval r)) = gcd t (r_tcpMonitorInterval r)"
      using p 2(2) by (simp add: gcd_loop_gcd)
    ultimately show ?thesis using 2 True by (simp only: if_True simp_thms s image_insert Gcd_insert gcd.assoc gcd_ge_0_int)
  next
    case False
    then show ?thesis using 2 by (simp only: s tick_loop.simps if_False)
  qed
qed simp

text \<open>
  The monitor thread wakes up at the greatest common divisor of the sampling intervals of the monitored relays, so every interval is a whole
  number of ticks; without a monitored relay the tick is \<open>0\<close>, and the thread does not sleep at all.
\<close>
theorem tick_is_gcd:
  "tick_interval st = Gcd (r_tcpMonitorInterval ` {r \<in> snd ` set (gk_relays st). monitorEnabled r})"
  using tick_loop_gcd [of 0 "map snd (gk_relays st)"] by (simp add: tick_interval_def)

section \<open>The arguments\<close>

lemma parse_args_path: "fst (parse_args args (path, listen)) = path \<or> fst (parse_args args (path, listen)) = [] \<or> hd (fst (parse_args args (path, listen))) \<noteq> CHR ''-''"
  by (induction args "(path, listen)" arbitrary: path listen rule: parse_args.induct) (fastforce split: list.splits if_splits)+

text \<open>
  The standard input is never read: no argument makes the path \<open>-\<close>, as every argument that begins with a dash is skipped, so what is on the standard input
  makes no difference, and \<open>gatekeeper -\<close> prints the help and fails.
\<close>
theorem stdin_never_read:
  "main_start args files stdin now token1 token2 = main_start args files stdin' now token1 token2 \<and>
   main_start [''-''] files stdin now token1 token2 = Help 1"
proof -
  have "fst (parse_args args ([], ct_listen default_control)) \<noteq> ''-''"
    using parse_args_path [of args "[]" "ct_listen default_control"] by auto
  then have "main_start args files stdin now token1 token2 = main_start args files stdin' now token1 token2"
    by (simp add: main_start_def read_input_def split_beta Let_def)
  then show ?thesis by (simp add: main_start_def)
qed

text \<open>The last argument that is no option is the path of the configuration, whatever comes before it.\<close>
theorem last_path_wins:
  assumes "p \<noteq> []" and "hd p \<noteq> CHR ''-''" and "args = [] \<or> last args \<noteq> ''--control-port''"
  shows "fst (parse_args (args @ [p]) s) = p"
  using assms(3)
proof (induction args s rule: parse_args.induct)
  case (2 x xs path listen)
  then show ?case using assms(1,2) by (cases xs) (auto split: list.splits if_splits)
qed (use assms(1,2) in auto)

section \<open>The groups\<close>

lemma check_members_None:
  "check_members m cmd cs = None \<longleftrightarrow> (\<forall>c \<in> set cs. pc_mode c = m \<and> pc_command c = cmd)"
  by (induction cs) auto

lemma check_group_None:
  "check_group cs = None \<longleftrightarrow> (\<forall>c \<in> set cs. pc_mode c = ''simple'') \<and> (\<forall>c \<in> set cs. \<forall>c' \<in> set cs. pc_command c = pc_command c')"
proof (cases cs)
  case (Cons c cs')
  then have "check_group cs = None \<longleftrightarrow> check_members (pc_mode c) (pc_command c) cs = None \<and> pc_mode c = ''simple''"
    by (simp add: check_group_def del: check_members.simps split: option.splits)
  moreover have "c \<in> set cs" using Cons by simp
  ultimately show ?thesis unfolding check_members_None by metis
qed (simp add: check_group_def)

lemma group_infos_cfgs: "snd ` set (group_infos cs nm) = {c \<in> set cs. pc_groupName c = nm}"
proof -
  have "snd ` {x \<in> X. pc_groupName (snd x) = nm} = {c \<in> snd ` X. pc_groupName c = nm}" for X :: "(nat \<times> port_config) set"
    by auto
  moreover have "snd ` set (zip [0..<length cs] cs) = set cs"
    unfolding set_map [symmetric] by (simp add: map_snd_zip)
  ultimately show ?thesis by (simp add: group_infos_def case_prod_beta)
qed

lemma build_groups_None: "build_groups cs nms = None \<longleftrightarrow> (\<exists>nm \<in> set nms. check_group (map snd (group_infos cs nm)) \<noteq> None)"
  by (induction nms) (auto split: option.splits)

lemma set_group_names [simp]: "nm \<in> set (group_names cs) \<longleftrightarrow> nm \<noteq> [] \<and> (\<exists>c \<in> set cs. pc_groupName c = nm)"
  by (auto simp: group_names_def)


section \<open>The state the program starts with\<close>

lemma foldl_addRelay:
  "pg_relays (foldl (\<lambda>g (i, c). addRelay (Some i) g) g ics) = pg_relays g @ map fst ics \<and>
   pg_name (foldl (\<lambda>g (i, c). addRelay (Some i) g) g ics) = pg_name g"
  by (induction ics arbitrary: g) (auto simp: addRelay_def)

lemma build_group_sel: "pg_relays (build_group cs nm) = map fst (group_infos cs nm)" "pg_name (build_group cs nm) = nm"
  by (simp_all add: build_group_def foldl_addRelay new_group_def)

lemma build_groups_Some: "build_groups cs nms = Some gs \<Longrightarrow> gs = map (build_group cs) nms"
  by (induction nms arbitrary: gs) (auto split: option.splits)

lemma start_relay_sel [simp]: "r_listenAddr (start_relay now c) = pc_listenAddr c"
  by (simp add: start_relay_def Let_def)

lemma start_objects_fst: "map fst (start_objects now cs) = [0..<length cs]"
  by (simp add: start_objects_def comp_def case_prod_beta)

lemma start_objects_addrs: "addrs (start_objects now cs) = map pc_listenAddr cs"
proof -
  have "addrs (start_objects now cs) = map pc_listenAddr (map snd (zip [0..<length cs] cs))"
    by (simp add: start_objects_def addrs_def comp_def case_prod_beta del: map_snd_zip map_snd_zip_take)
  then show ?thesis by (simp add: map_snd_zip)
qed

lemma start_objects_in:
  "(i, r) \<in> set (start_objects now cs) \<longleftrightarrow>
     (\<exists>c. (i, c) \<in> set (zip [0..<length cs] cs) \<and>
          r = (start_relay now c)\<lparr>r_group := (if pc_groupName c = [] then None else Some (pc_groupName c))\<rparr>)"
proof -
  have "(i, r) \<in> (\<lambda>(i, c). (i, f c)) ` X \<longleftrightarrow> (\<exists>c. (i, c) \<in> X \<and> r = f c)" for f :: "port_config \<Rightarrow> relay" and X by auto
  then show ?thesis unfolding start_objects_def set_map .
qed

lemma group_infos_in: "(i, c) \<in> set (group_infos cs nm) \<longleftrightarrow> (i, c) \<in> set (zip [0..<length cs] cs) \<and> pc_groupName c = nm"
  by (simp add: group_infos_def)

lemma auth_token_nonempty: "auth_token t g = Some g' \<Longrightarrow> ca_type (ct_auth g') = ''token'' \<Longrightarrow> ca_token (ct_auth g') \<noteq> []"
  by (auto simp: auth_token_def split: if_splits)

lemma main_start_Runs:
  assumes "main_start args files stdin now token1 token2 = Runs st g sm tok"
  obtains cfgs g0 where "cfgs \<noteq> []" "build_groups cfgs (group_names cfgs) = Some (gk_groups st)" "auth_token token2 g0 = Some g"
    "gk_relays st = start_objects now cfgs" "gk_pending st = []" "gk_cfgs st = cfgs" "\<not> gk_reloading st" "gk_next st = length cfgs"
proof -
  have p: "fst (parse_args args ([], ct_listen default_control)) \<noteq> ''-''"
    using parse_args_path [of args "[]" "ct_listen default_control"] by auto
  obtain cfgs g0 gs path where "cfgs \<noteq> []" "build_groups cfgs (group_names cfgs) = Some gs" "auth_token token2 g0 = Some g"
    "st = \<lparr>gk_relays = start_objects now cfgs, gk_pending = [], gk_groups = gs, gk_cfgs = cfgs, gk_configPath = path,
       gk_reloading = False, gk_next = length cfgs\<rparr>"
    using assms p by (auto simp: main_start_def Let_def split: if_splits prod.splits option.splits)
  then show ?thesis using that [of cfgs g0] by simp
qed

text \<open>
  C15: a program that starts has what its other parts count on: every relay object has one owner, exactly the addresses of the configuration are served, every
  group points to relays that exist and point back to it, every relay of a group is in it, and a control port that asks for a
  token has one.
\<close>
theorem start_state:
  assumes "main_start args files stdin now token1 token2 = Runs st g sm tok"
  shows "own_inv (st, None) \<and> dom (served st) = pc_listenAddr ` set (gk_cfgs st) \<and> \<not> gk_reloading st \<and>
    (\<forall>gr \<in> set (gk_groups st). \<forall>i \<in> set (pg_relays gr). \<exists>r. heap_of st i = Some r \<and> r_group r = Some (pg_name gr)) \<and>
    (\<forall>i r nm. (i, r) \<in> set (gk_relays st) \<and> r_group r = Some nm \<longrightarrow> (\<exists>gr \<in> set (gk_groups st). pg_name gr = nm \<and> i \<in> set (pg_relays gr))) \<and>
    (ca_type (ct_auth g) = ''token'' \<longrightarrow> ca_token (ct_auth g) \<noteq> [])"
proof -
  obtain cfgs g0 where m: "cfgs \<noteq> []" "build_groups cfgs (group_names cfgs) = Some (gk_groups st)" "auth_token token2 g0 = Some g"
    "gk_relays st = start_objects now cfgs" "gk_pending st = []" "gk_cfgs st = cfgs" "\<not> gk_reloading st" "gk_next st = length cfgs"
    using main_start_Runs [OF assms] by blast
  note gs = build_groups_Some [OF m(2)]
  have own: "own_inv (st, None)" by (simp add: own_inv_def owned_def m start_objects_fst)
  have sv: "dom (served st) = pc_listenAddr ` set (gk_cfgs st)" by (simp add: dom_served m start_objects_addrs)
  have members: "\<exists>r. heap_of st i = Some r \<and> r_group r = Some (pg_name gr)" if gr: "gr \<in> set (gk_groups st)" and i: "i \<in> set (pg_relays gr)" for gr i
  proof -
    from gr obtain nm where nm: "nm \<noteq> []" "gr = build_group cfgs nm" by (auto simp: gs)
    with i obtain c where c: "(i, c) \<in> set (zip [0..<length cfgs] cfgs)" "pc_groupName c = nm" by (auto simp: build_group_sel group_infos_in)
    define r where "r = (start_relay now c)\<lparr>r_group := Some nm\<rparr>"
    have "(i, r) \<in> set (gk_relays st)" unfolding m(4) start_objects_in using c nm(1) by (auto simp: r_def)
    then have "heap_of st i = Some r" using start_objects_fst [of now cfgs] by (simp add: heap_of_def m(4,5))
    then show ?thesis by (simp add: r_def nm(2) build_group_sel)
  qed
  have grouped: "\<exists>gr \<in> set (gk_groups st). pg_name gr = nm \<and> i \<in> set (pg_relays gr)"
    if o': "(i, r) \<in> set (gk_relays st)" and g': "r_group r = Some nm" for i r nm
  proof -
    from o' [unfolded m(4) start_objects_in] obtain c where c: "(i, c) \<in> set (zip [0..<length cfgs] cfgs)"
      "r = (start_relay now c)\<lparr>r_group := (if pc_groupName c = [] then None else Some (pc_groupName c))\<rparr>" by blast
    then have nm: "nm \<noteq> []" "pc_groupName c = nm" using g' by (auto split: if_splits)
    moreover have "c \<in> set cfgs" using c(1) by (auto dest: set_zip_rightD)
    ultimately have "build_group cfgs nm \<in> set (gk_groups st)" by (auto simp: gs intro!: imageI)
    moreover have "i \<in> set (pg_relays (build_group cfgs nm))" unfolding build_group_sel set_map by (rule image_eqI [of _ _ "(i, c)"]) (simp_all add: group_infos_in c(1) nm(2))
    ultimately show ?thesis using build_group_sel(2) by blast
  qed
  from own sv m(7) members grouped auth_token_nonempty [OF m(3)] show ?thesis by blast
qed

section \<open>The warning about an open control address\<close>

text \<open>
  A control address whose host is not a numeric IPv4 address makes the control server listen on every interface, and the start does not warn that it is open.
\<close>
theorem open_control_not_flagged:
  assumes "CHR '':'' \<notin> set h" and "pton4 h = None" and "1 \<le> p" and "p \<le> 65535" and "h \<notin> {[], ''0.0.0.0'', ''localhost'', ''127.0.0.1''}"
  shows "control_parseSockaddr pton4 (h @ CHR '':'' # to_string p) = Some (Inet Any p) \<and> \<not> control_exposed (h @ CHR '':'' # to_string p)"
  using assms find_char_first [OF assms(1), of "to_string p"] parse_port_text_plain [OF assms(3,4)]
  by (simp add: control_parseSockaddr_def control_exposed_def)

section \<open>Witnesses\<close>

theorem open_control_not_flagged_witness: "\<not> control_exposed (''gatehost'' @ CHR '':'' # to_string 19999)"
  by (rule conjunct2 [OF open_control_not_flagged [of _ "\<lambda>_. None :: nat option"]]) simp_all

theorem last_path_wins_witness: "fst (parse_args ([''a.json'', ''--verbose''] @ [''b.json'']) ([], ''127.0.0.1:9'')) = ''b.json''"
  by (rule last_path_wins) simp_all


definition start_text :: string where
  "start_text = ''{\"ports\":[{\"listen\":\":1\",\"command\":\"c\",\"group\":\"w\"}]}''"

definition start_files :: "string \<Rightarrow> string option" where
  "start_files = (\<lambda>p. if p = ''g.json'' then Some start_text else None)"

definition start_port :: port_config where
  "start_port = default_port\<lparr>pc_listenAddr := '':1'', pc_command := ''c'', pc_groupName := ''w''\<rparr>"

lemma start_text_json:
  "parse_json start_text = Some (JObj [(''ports'', JArr [JObj [(''listen'', JStr '':1''), (''command'', JStr ''c''), (''group'', JStr ''w'')]])])"
  by code_simp

lemma start_text_config: "parseConfig start_text g = Some ([start_port], g)" "parseSystemMonitorConfig start_text default_sysmon = Some default_sysmon"
  unfolding parseConfig_def parseSystemMonitorConfig_def start_text_json
  by (simp_all add: parse_root_def List.map_filter_simps parse_port_def entry_complete_def start_port_def default_port_def default_monitor_def)

lemma start_port_group: "group_names [start_port] = [''w'']" "build_groups [start_port] [''w''] = Some [build_group [start_port] ''w'']"
    "pg_relays (build_group [start_port] ''w'') = [0]"
  by (simp_all add: group_names_def start_port_def group_infos_def check_group_def default_port_def build_group_sel)

lemma start_token:
  "auth_token ''token'' (default_control\<lparr>ct_listen := l\<rparr>) =
     Some (default_control\<lparr>ct_listen := l, ct_auth := \<lparr>ca_type = ''token'', ca_token = ''token''\<rparr>\<rparr>)"
  by (simp add: auth_token_def default_control_def)

lemma start_runs:
  obtains st g sm where "main_start [''g.json''] start_files [] 0 ''refresh'' ''token'' = Runs st g sm ''refresh''"
    and "gk_groups st = [build_group [start_port] ''w'']" and "gk_cfgs st = [start_port]" and "gk_next st = 1" and "ca_type (ct_auth g) = ''token''"
  by (simp add: main_start_def read_input_def start_files_def start_text_config start_port_group start_token
      del: build_groups.simps control_config.update_convs)

theorem start_state_witness:
  "\<exists>st g sm. main_start [''g.json''] start_files [] 0 ''refresh'' ''token'' = Runs st g sm ''refresh'' \<and> own_inv (st, None) \<and>
     dom (served st) = {'':1''} \<and> ca_token (ct_auth g) \<noteq> [] \<and> (\<exists>r. heap_of st 0 = Some r \<and> r_group r = Some ''w'')"
proof -
  obtain st g sm where r: "main_start [''g.json''] start_files [] 0 ''refresh'' ''token'' = Runs st g sm ''refresh''"
    and st: "gk_groups st = [build_group [start_port] ''w'']" "gk_cfgs st = [start_port]" and g: "ca_type (ct_auth g) = ''token''"
    by (rule start_runs)
  from start_state [OF r] show ?thesis
    using r st g start_port_group(3) build_group_sel(2) [of "[start_port]" "''w''"] by (auto simp: start_port_def)
qed

end
