(* ===== verification/GK_Serve.thy ===== *)
theory GK_Serve
  imports GK_Start GK_ConfigProps GK_ControlProps
begin

text \<open>
  The control server on the running program: a request with what it does to the relays and the configuration, and properties
  from the bytes of a request to the ports that are served.
\<close>

section \<open>The effect of a request\<close>

definition view_of :: "obj \<Rightarrow> relay_view" where
  "view_of ob = \<lparr>rv_id = fst ob, rv_name = r_name (snd ob), rv_listen = r_listenAddr (snd ob), rv_running = isBackendRunning (snd ob)\<rparr>"

text \<open>
  \<open>PortRelay::setRefreshSeconds\<close> on one of the served relays: its own value, the remembered configuration, the file.
\<close>

definition change_refresh ::
    "(string \<Rightarrow> string \<Rightarrow> int \<Rightarrow> bool) \<Rightarrow> nat \<Rightarrow> int \<Rightarrow> gatekeeper \<Rightarrow> bool \<times> gatekeeper" where
  "change_refresh write i secs st =
     (case map_of (gk_relays st) i of
        None \<Rightarrow> (False, st)
      | Some r \<Rightarrow>
          let (r1, s) = setRefreshSeconds secs r
          in persistRefreshSeconds write (r_listenAddr r) s (st\<lparr>gk_relays := touch i (\<lambda>_. r1) (gk_relays st)\<rparr>))"

text \<open>
  The outcome of a request, carried out: the bytes of the answer and the state; \<open>run\<close> and \<open>stream\<close> are the answers of the two ways to run a
  command. \<open>None\<close> when the JSON reader does not come to an end.
\<close>

fun carry_out ::
    "int \<Rightarrow> (string \<Rightarrow> string option) \<Rightarrow> (string \<Rightarrow> string \<Rightarrow> int \<Rightarrow> bool) \<Rightarrow> (string \<Rightarrow> string) \<Rightarrow> (string \<Rightarrow> string) \<Rightarrow>
     outcome \<Rightarrow> gatekeeper \<times> control_config \<Rightarrow> (string \<times> gatekeeper \<times> control_config) option" where
  "carry_out now files write run stream (Reply t) s = Some (t, s)"
| "carry_out now files write run stream Reload s =
     map_option (\<lambda>(sm, s'). (reload_reply sm, s')) (reloadFromFile now files s)"
| "carry_out now files write run stream (SetRefresh i secs) (st, g) =
     (let (ok, st') = change_refresh write i secs st in Some (refresh_reply ok secs, st', g))"
| "carry_out now files write run stream (RunSync cmd) s = Some (run cmd, s)"
| "carry_out now files write run stream (RunStream cmd) s = Some (stream cmd, s)"
| "carry_out now files write run stream Diverges s = None"

text \<open>A request on the running program: the server sees the served relays, and its own copy of the control section.\<close>

definition request_step ::
    "(rat \<Rightarrow> string) \<Rightarrow> server_env \<Rightarrow> int \<Rightarrow> (string \<Rightarrow> string option) \<Rightarrow> (string \<Rightarrow> string \<Rightarrow> int \<Rightarrow> bool) \<Rightarrow>
     (string \<Rightarrow> string) \<Rightarrow> (string \<Rightarrow> string) \<Rightarrow> http_request \<Rightarrow> gatekeeper \<times> control_config \<Rightarrow>
     (string \<times> gatekeeper \<times> control_config) option" where
  "request_step fmt env now files write run stream req s =
     carry_out now files write run stream (handle_parsed fmt (env\<lparr>en_relays := map view_of (gk_relays (fst s))\<rparr>) req) s"

section \<open>Lemmas\<close>

text \<open>Two states that differ at most in refresh times.\<close>

definition same_but_refresh :: "gatekeeper \<Rightarrow> gatekeeper \<Rightarrow> bool" where
  "same_but_refresh st st' \<longleftrightarrow>
     map (\<lambda>(i, r). (i, r\<lparr>r_refreshSeconds := 0\<rparr>)) (gk_relays st') = map (\<lambda>(i, r). (i, r\<lparr>r_refreshSeconds := 0\<rparr>)) (gk_relays st) \<and>
     map (pc_refreshSeconds_update (\<lambda>_. 0)) (gk_cfgs st') = map (pc_refreshSeconds_update (\<lambda>_. 0)) (gk_cfgs st) \<and>
     st' = st\<lparr>gk_relays := gk_relays st', gk_cfgs := gk_cfgs st'\<rparr>"

lemma same_but_refresh_refl [simp]: "same_but_refresh st st"
  by (simp add: same_but_refresh_def)

lemma touch_refresh:
  assumes "distinct (map fst os)" and "map_of os i = Some r"
  shows "map (\<lambda>(i, r). (i, r\<lparr>r_refreshSeconds := 0\<rparr>)) (touch i (\<lambda>_. r\<lparr>r_refreshSeconds := s\<rparr>) os) = map (\<lambda>(i, r). (i, r\<lparr>r_refreshSeconds := 0\<rparr>)) os"
proof -
  have eq: "i = j \<Longrightarrow> q = r" if "(j, q) \<in> set os" for j q
    using map_of_is_SomeI [OF assms(1) that] assms(2) by simp
  have "(case (j, if i = j then r\<lparr>r_refreshSeconds := s\<rparr> else q) of (i, r) \<Rightarrow> (i, r\<lparr>r_refreshSeconds := 0\<rparr>)) = (j, q\<lparr>r_refreshSeconds := 0\<rparr>)"
    if "(j, q) \<in> set os" for j q
    using eq [OF that] by simp
  then show ?thesis by (auto simp: touch_def)
qed

lemma change_refresh_same:
  assumes "distinct (map fst (gk_relays st))"
  shows "same_but_refresh st (snd (change_refresh write i secs st))"
proof (cases "map_of (gk_relays st) i")
  case (Some r)
  have c: "map (pc_refreshSeconds_update (\<lambda>_. 0)) (map (set_refresh a s) cs) = map (pc_refreshSeconds_update (\<lambda>_. 0)) cs" for a s cs
    by (simp add: set_refresh_def)
  show ?thesis
    using touch_refresh [OF assms Some] c
    by (simp add: change_refresh_def Some setRefreshSeconds_def persistRefreshSeconds_def same_but_refresh_def Let_def)
qed (simp add: change_refresh_def)

lemma handle_Reload:
  "handle_parsed fmt env req = Reload \<longleftrightarrow> checkAuth (en_config env) req \<and> rq_method req = ''POST'' \<and> rq_path req = ''/reload''"
proof -
  have "handleRun env req \<noteq> Reload" by (auto simp: handleRun_def split: option.splits run_resolution.splits)
  moreover have "handleRefresh env req \<noteq> Reload" by (auto simp: handleRefresh_def Let_def split: option.splits)
  ultimately show ?thesis by (auto simp: handle_parsed_def)
qed

lemma handle_SetRefresh:
  "handle_parsed fmt env req = SetRefresh i secs \<Longrightarrow> en_refreshToken env \<noteq> [] \<and> queryValue (rq_path req) ''token'' = en_refreshToken env"
  by (auto simp: handle_parsed_def handleRun_def handleRefresh_def Let_def
      split: if_splits option.splits run_resolution.splits)

section \<open>Properties\<close>

text \<open>
  C13: only an authenticated reload changes what is served: any other request, authenticated or not, leaves the relays, the groups, the list of relays waiting
  for removal, the control section and the configuration as they are, except for refresh times, and those change only
  for a request with the refresh token.
\<close>
theorem only_reload_changes:
  assumes "request_step fmt env now files write run stream req (st, g) = Some (t, st', g')" and "distinct (map fst (gk_relays st))"
    and "\<not> (checkAuth (en_config env) req \<and> rq_method req = ''POST'' \<and> rq_path req = ''/reload'')"
  shows "g' = g \<and> same_but_refresh st st' \<and>
    (en_refreshToken env = [] \<or> queryValue (rq_path req) ''token'' \<noteq> en_refreshToken env \<longrightarrow> st' = st)"
proof -
  let ?env = "env\<lparr>en_relays := map view_of (gk_relays st)\<rparr>"
  have s: "carry_out now files write run stream (handle_parsed fmt ?env req) (st, g) = Some (t, st', g')"
    using assms(1) by (simp add: request_step_def)
  have nr: "handle_parsed fmt ?env req \<noteq> Reload" using assms(3) by (simp add: handle_Reload)
  show ?thesis
  proof (cases "handle_parsed fmt ?env req")
    case (SetRefresh i secs)
    then have "g' = g" "st' = snd (change_refresh write i secs st)" using s by (auto simp: split_beta Let_def)
    then show ?thesis using change_refresh_same [OF assms(2)] handle_SetRefresh [OF SetRefresh] by simp
  qed (use s nr in auto)
qed


section \<open>Witnesses\<close>

theorem only_reload_changes_witness:
  "\<exists>t st' g'. request_step (\<lambda>_. []) sample_env 0 (\<lambda>_. Some start_text) (\<lambda>_ _ _. True) (\<lambda>c. c) (\<lambda>c. c)
     (sample_req ''POST'' ''/reload'' (Some ''guess'') []) (one_port, default_control) = Some (t, st', g') \<and> st' = one_port"
proof -
  let ?req = "sample_req ''POST'' ''/reload'' (Some ''guess'') []"
  have c: "\<not> checkAuth (en_config sample_env) ?req" by (simp add: checkAuth_def sample_env_def sample_req_def)
  have q: "queryValue (rq_path ?req) ''token'' \<noteq> en_refreshToken sample_env"
    by (simp add: sample_req_def sample_env_def) code_simp
  have "request_step (\<lambda>_. []) sample_env 0 (\<lambda>_. Some start_text) (\<lambda>_ _ _. True) (\<lambda>c. c) (\<lambda>c. c) ?req (one_port, default_control)
      = Some (error_response 401 ''Unauthorized'', one_port, default_control)"
    using c by (simp add: request_step_def handle_parsed_def sample_req_def)
  from this only_reload_changes [OF this] c q show ?thesis by simp
qed


end
