(* ===== verification/GK_Words.thy ===== *)
theory GK_Words
  imports GK_Prelude "HOL-Library.Word"
begin

text \<open>
  Readings of machine words that the Windows and macOS parts share: a signed reading that is not negative is the unsigned one,
  and a number that fits is read back.
\<close>

lemma uint_of_nonneg: "0 \<le> sint w \<Longrightarrow> uint w = sint (w :: 'a::len word)"
proof -
  obtain n where n: "LENGTH('a) = Suc n" by (cases "LENGTH('a)") auto
  assume "0 \<le> sint w"
  then have nb: "\<not> bit (uint w) n" by (simp add: sint_uint n)
  have "uint w = take_bit (Suc n) (uint w)" unfolding n [symmetric]
    by (rule take_bit_int_eq_self [symmetric]) (use uint_lt2p [of w] in simp_all)
  also have "\<dots> = take_bit n (uint w)" using nb by (simp add: take_bit_Suc_from_most)
  also have "\<dots> = sint w" using nb by (simp add: sint_uint n signed_take_bit_eq_if_positive)
  finally show ?thesis .
qed

lemma sint_small: "- (2 ^ 31) \<le> k \<Longrightarrow> k < 2 ^ 31 \<Longrightarrow> sint (word_of_int k :: 32 word) = k"
  by (subst sint_sbintrunc') (rule signed_take_bit_int_eq_self; simp)

lemma unat_small: "n < 2 ^ 64 \<Longrightarrow> unat (word_of_nat n :: 64 word) = n"
  by (simp add: unat_of_nat)

lemma sint_le: "a \<le> b \<Longrightarrow> 0 \<le> sint b \<Longrightarrow> 0 \<le> sint a \<and> sint a \<le> sint (b :: 'a::len word)"
proof -
  assume ab: "a \<le> b" and b: "0 \<le> sint b"
  obtain n where n: "LENGTH('a) = Suc n" by (cases "LENGTH('a)") auto
  have u: "uint a \<le> uint b" "0 \<le> uint a" using ab by (simp_all add: word_le_def)
  have "sint b < 2 ^ n" using sint_lt [of b] by (simp add: n)
  then have "uint a < 2 ^ n" using u uint_of_nonneg [OF b] by simp
  then have "signed_take_bit n (uint a) = uint a" using u(2)
    by (intro signed_take_bit_int_eq_self) (simp_all add: order_trans [OF _ u(2)])
  then have "sint a = uint a" by (simp add: sint_uint n)
  then show ?thesis using u uint_of_nonneg [OF b] by simp
qed

end
