(* ===== verification/GK_Windows.thy ===== *)
theory GK_Windows
  imports GK_PlatformProps GK_Relay GK_Words
begin

text \<open>
  The Windows side of the platform layer, \<open>relay_win.cpp\<close>: processes, shell commands with captured and with streamed
  output, the token, error texts. What a call of the Windows API answers is an argument; \<open>DWORD\<close> values are 32-bit
  words, so that the arithmetic on the tick counter wraps as in the get_code. The reader of the chunked stream and the encoding of
  the token are those of the POSIX side.
\<close>

type_synonym dword = "32 word"

section \<open>Sockets and error texts\<close>

text \<open>\<open>recv\<close> and \<open>send\<close> give a count or a negative value; the length is cut to an \<open>int\<close>.\<close>

definition win_read_fd :: "(int \<Rightarrow> int) \<Rightarrow> nat \<Rightarrow> int" where
  "win_read_fd recv n = (let r = recv (sint (word_of_nat n :: dword)) in if r < 0 then - 1 else r)"

definition win_write_fd :: "(int \<Rightarrow> int) \<Rightarrow> nat \<Rightarrow> int" where
  "win_write_fd send n = (let r = send (sint (word_of_nat n :: dword)) in if r < 0 then - 1 else r)"

text \<open>The value handed to \<open>SO_RCVTIMEO\<close>, in milliseconds.\<close>

definition win_recv_timeout :: "int \<Rightarrow> dword" where
  "win_recv_timeout seconds = word_of_int (seconds * 1000)"

text \<open>\<open>msg\<close> is what \<open>FormatMessage\<close> gives, without the line end it appends.\<close>

definition win_last_error_str :: "string option \<Rightarrow> string" where
  "win_last_error_str msg =
     (case msg of None \<Rightarrow> ''unknown error'' | Some s \<Rightarrow> rev (dropWhile (\<lambda>c. c = NL \<or> c = CR) (rev s)))"

section \<open>Processes\<close>

text \<open>The rights a handle is opened with, and the waits on it.\<close>

datatype win_access = Terminate | Synchronize | QueryInformation

datatype win_wait = Signalled | TimedOut

definition STILL_ACTIVE :: dword where "STILL_ACTIVE = 259"

text \<open>\<open>create\<close> is \<open>CreateProcess\<close> on a command line: the new process, or a failure. No shell, and no environment assignments.\<close>

definition win_launchProcess :: "(string \<Rightarrow> int option) \<Rightarrow> string \<Rightarrow> int" where
  "win_launchProcess create command = (case create command of None \<Rightarrow> - 1 | Some pid \<Rightarrow> pid)"

text \<open>\<open>get_code\<close> is what \<open>GetExitCodeProcess\<close> stores after the wait, \<open>None\<close> when it fails; then the variable keeps its zero.\<close>

definition win_runCommand :: "(string \<Rightarrow> int option) \<Rightarrow> (int \<Rightarrow> dword option) \<Rightarrow> string \<Rightarrow> int" where
  "win_runCommand create get_code command =
     (case create command of None \<Rightarrow> - 1 | Some pid \<Rightarrow> sint (case get_code pid of None \<Rightarrow> 0 | Some ec \<Rightarrow> ec))"

text \<open>\<open>open_proc\<close> says whether \<open>OpenProcess\<close> grants a right.\<close>

definition win_killProcess :: "(win_access \<Rightarrow> int \<Rightarrow> bool) \<Rightarrow> int \<Rightarrow> signal_act list" where
  "win_killProcess open_proc pid = (if open_proc Terminate pid then [Kill pid] else [])"

definition win_termProcess :: "(win_access \<Rightarrow> int \<Rightarrow> bool) \<Rightarrow> int \<Rightarrow> signal_act list" where
  "win_termProcess open_proc pid = win_killProcess open_proc pid"

definition win_isChildAlive :: "(win_access \<Rightarrow> int \<Rightarrow> bool) \<Rightarrow> (int \<Rightarrow> win_wait) \<Rightarrow> int \<Rightarrow> bool" where
  "win_isChildAlive open_proc wait pid = (if \<not> open_proc Synchronize pid then False else wait pid = TimedOut)"

text \<open>\<open>get_code\<close> is \<open>GetExitCodeProcess\<close> on a handle opened with a right.\<close>

definition win_waitChild :: "(win_access \<Rightarrow> int \<Rightarrow> bool) \<Rightarrow> (win_access \<Rightarrow> int \<Rightarrow> dword option) \<Rightarrow> int \<Rightarrow> (int \<times> int) option" where
  "win_waitChild open_proc get_code pid =
     (if \<not> open_proc Synchronize pid then None
      else Some (pid, sint (case get_code Synchronize pid of None \<Rightarrow> 0 | Some ec \<Rightarrow> ec)))"

definition win_isProcessRunning :: "(win_access \<Rightarrow> int \<Rightarrow> bool) \<Rightarrow> (win_access \<Rightarrow> int \<Rightarrow> dword option) \<Rightarrow> int \<Rightarrow> bool" where
  "win_isProcessRunning open_proc get_code pid =
     (if \<not> open_proc QueryInformation pid then False
      else (case get_code QueryInformation pid of None \<Rightarrow> False | Some ec \<Rightarrow> ec = STILL_ACTIVE))"

text \<open>The test of \<open>launchAndRelease\<close> and the text of an exit status, in the Windows branches of \<open>relay.cpp\<close>.\<close>

definition win_exec_failed :: "int \<Rightarrow> bool" where
  "win_exec_failed st \<longleftrightarrow> st = 127 \<or> st = 126"

section \<open>Shell commands\<close>

text \<open>
  One round of the loops: \<open>WinIdle\<close> when nothing waits in the pipe (or the peek fails), with whether the process ends within the next 50
  milliseconds; \<open>WinData\<close> when bytes are available, with what \<open>ReadFile\<close> can deliver, \<open>None\<close> when it fails.
\<close>

datatype win_peek = WinIdle bool | WinData dword "string option"

definition BUF_SIZE :: dword where "BUF_SIZE = 4096"

definition capture_room :: "int \<Rightarrow> dword \<Rightarrow> dword" where
  "capture_room room avail = (let n = (if sint avail > room then word_of_int room else avail) in if n > BUF_SIZE then BUF_SIZE else n)"

text \<open>\<open>(int)(now - deadline) >= 0\<close>\<close>

definition expired :: "dword \<Rightarrow> dword \<Rightarrow> bool" where
  "expired now deadline \<longleftrightarrow> 0 \<le> sint (now - deadline)"

definition win_deadline :: "dword \<Rightarrow> int \<Rightarrow> dword" where
  "win_deadline start timeoutMs = start + word_of_int timeoutMs"

text \<open>The capture, over the rounds with their ticks; \<open>None\<close> when the loop is still running after them.\<close>

fun win_capture :: "dword \<Rightarrow> int \<Rightarrow> (dword \<times> win_peek) list \<Rightarrow> string \<Rightarrow> string option" where
  "win_capture deadline mx [] out = (if mx \<le> int (length out) then Some out else None)"
| "win_capture deadline mx ((now, p) # rs) out =
     (if mx \<le> int (length out) then Some out
      else if expired now deadline then Some out
      else (case p of
              WinIdle exited \<Rightarrow> if exited then Some out else win_capture deadline mx rs out
            | WinData avail got \<Rightarrow>
                (case got of
                   None \<Rightarrow> Some out
                 | Some d \<Rightarrow>
                     (let g = take (unat (capture_room (mx - int (length out)) avail)) d
                      in if g = [] then Some out else win_capture deadline mx rs (out @ g)))))"

text \<open>After the loops: the process has ended, with the answer of \<open>GetExitCodeProcess\<close>, or is terminated.\<close>

datatype win_end = WinEnded "dword option" | WinRuns

definition win_exit :: "int \<Rightarrow> win_end \<Rightarrow> int \<times> bool" where
  "win_exit dflt e = (case e of WinEnded ec \<Rightarrow> (case ec of None \<Rightarrow> dflt | Some c \<Rightarrow> sint c, False) | WinRuns \<Rightarrow> (dflt, True))"

definition win_shell_line :: "string \<Rightarrow> string" where
  "win_shell_line command = ''cmd.exe /c '' @ command"

text \<open>\<open>started\<close> is that the pipe and the process are created. The exit get_code, the output, whether the process is terminated.\<close>

definition win_runShellCommand ::
    "bool \<Rightarrow> int \<Rightarrow> int \<Rightarrow> dword \<Rightarrow> (dword \<times> win_peek) list \<Rightarrow> win_end \<Rightarrow> (int \<times> string \<times> bool) option" where
  "win_runShellCommand started timeoutMs mx start rounds e =
     (if \<not> started then Some (- 1, [], False)
      else map_option (\<lambda>out. let (ec, killed) = win_exit (- 1) e in (ec, out, killed))
             (win_capture (win_deadline start timeoutMs) mx rounds []))"

text \<open>The digits of a \<open>size_t\<close>, the lowest first, and reversed.\<close>

function win_hex_loop :: "64 word \<Rightarrow> string" where
  "win_hex_loop i = (''0123456789abcdef'' ! unat (and i 15)) # (if drop_bit 4 i = 0 then [] else win_hex_loop (drop_bit 4 i))"
  by pat_completeness auto
termination
proof (relation "measure unat")
  fix i :: "64 word" assume nz: "drop_bit 4 i \<noteq> 0"
  have u: "unat (drop_bit 4 i) = unat i div 16" by (simp add: drop_bit_eq_div unat_div)
  have "i \<noteq> 0" using nz by (metis drop_bit_of_0)
  then have "unat i \<noteq> 0" by (metis unsigned_eq_0_iff)
  then show "(drop_bit 4 i, i) \<in> measure unat" using u by simp
qed simp

declare win_hex_loop.simps [simp del]

definition win_hexLen :: "nat \<Rightarrow> string" where
  "win_hexLen n = rev (win_hex_loop (word_of_nat n))"

text \<open>The streaming loop; a round has the stop flag, the tick, the peek and whether the frame is written.\<close>

fun streamCopyThread :: "dword \<Rightarrow> (bool \<times> dword \<times> win_peek \<times> bool) list \<Rightarrow> string list option" where
  "streamCopyThread deadline [] = None"
| "streamCopyThread deadline ((stop, now, p, written) # rs) =
     (if stop then Some []
      else if expired now deadline then Some []
      else (case p of
              WinIdle exited \<Rightarrow> if exited then Some [] else streamCopyThread deadline rs
            | WinData avail got \<Rightarrow>
                (case got of
                   None \<Rightarrow> Some []
                 | Some d \<Rightarrow>
                     (let g = take (unat (if avail > BUF_SIZE then BUF_SIZE else avail)) d
                      in if g = [] then Some []
                         else if \<not> written then Some []
                         else map_option ((#) (win_hexLen (length g) @ [CR, NL] @ g @ [CR, NL])) (streamCopyThread deadline rs)))))"

definition win_runShellStream ::
    "bool \<Rightarrow> int \<Rightarrow> dword \<Rightarrow> (bool \<times> dword \<times> win_peek \<times> bool) list \<Rightarrow> win_end \<Rightarrow> (string list \<times> int \<times> bool) option" where
  "win_runShellStream started timeoutMs start rounds e =
     (if \<not> started then Some ([], - 1, False)
      else map_option (\<lambda>fs. (fs, win_exit (- 2) e)) (streamCopyThread (win_deadline start timeoutMs) rounds))"

section \<open>The token\<close>

definition win_hexd :: "8 word \<Rightarrow> char" where
  "win_hexd i = ''0123456789abcdef'' ! unat i"

text \<open>\<open>rng\<close> is what \<open>BCryptGenRandom\<close> fills in, \<open>None\<close> when it fails.\<close>

definition win_generateAuthToken :: "8 word list option \<Rightarrow> string" where
  "win_generateAuthToken rng =
     (case rng of None \<Rightarrow> [] | Some bs \<Rightarrow> concat (map (\<lambda>b. [win_hexd (drop_bit 4 b), win_hexd (and b 15)]) bs))"

text \<open>The stubs of the functions that need a procfs.\<close>

definition win_findPidUsingPort :: "nat \<Rightarrow> int" where
  "win_findPidUsingPort port = 0"

definition win_findProcessUsingPort :: "nat \<Rightarrow> string" where
  "win_findProcessUsingPort port = []"

section \<open>The deadline\<close>

lemma win_deadline_expired:
  assumes "0 \<le> limit" and "limit < 2 ^ 31" and "0 \<le> elapsed" and "elapsed < 2 ^ 31"
  shows "expired (start + word_of_int elapsed) (win_deadline start limit) \<longleftrightarrow> limit \<le> elapsed"
proof -
  have "(start + word_of_int elapsed) - win_deadline start limit = (word_of_int (elapsed - limit) :: dword)"
    by (simp add: win_deadline_def)
  moreover have "sint (word_of_int (elapsed - limit) :: dword) = elapsed - limit"
    using assms by (intro sint_small) simp_all
  ultimately show ?thesis unfolding expired_def by presburger
qed

text \<open>
  The deadline is right across the wrap of the tick counter: for a time limit and an elapsed time below \<open>2 ^ 31\<close>
  milliseconds, the test is true from the limit on, wherever the counter started.
\<close>
theorem win_deadline_wraps:
  assumes "0 \<le> limit" and "limit < 2 ^ 31" and "0 \<le> elapsed" and "elapsed < 2 ^ 31"
  shows "expired (start + word_of_int elapsed) (win_deadline start limit) \<longleftrightarrow> limit \<le> elapsed"
  by (rule win_deadline_expired [OF assms])

theorem win_deadline_wraps_witness: "expired 5 (win_deadline 0xFFFFFFF0 20) \<longleftrightarrow> True"
proof -
  have five: "0xFFFFFFF0 + word_of_int 21 = (5 :: dword)" by simp
  show ?thesis using win_deadline_wraps [of 20 21 "0xFFFFFFF0"] unfolding five by simp
qed

section \<open>Captured output\<close>

lemma capture_room_le:
  assumes "0 \<le> sint avail" and "0 \<le> room"
  shows "int (unat (capture_room room avail)) \<le> room"
proof -
  define n where "n = (if sint avail > room then word_of_int room else avail)"
  have lt: "sint avail < 2 ^ 31" using sint_lt [of avail] by simp
  have "uint n \<le> room"
  proof (cases "sint avail > room")
    case True
    then have "sint (word_of_int room :: dword) = room" using assms lt by (intro sint_small) simp_all
    then show ?thesis using True assms uint_of_nonneg [of "word_of_int room :: dword"] by (simp add: n_def)
  next
    case False
    then show ?thesis using assms uint_of_nonneg [of avail] by (simp add: n_def)
  qed
  moreover have "capture_room room avail \<le> n" unfolding capture_room_def n_def [symmetric] Let_def
    by (metis linorder_not_less order_less_imp_le order_refl)
  ultimately show ?thesis by (simp add: word_le_def)
qed

text \<open>No pipe holds \<open>2 ^ 31\<close> bytes.\<close>

definition small_peek :: "win_peek \<Rightarrow> bool" where
  "small_peek p = (case p of WinIdle _ \<Rightarrow> True | WinData avail _ \<Rightarrow> 0 \<le> sint avail)"

lemma win_capture_bound:
  "list_all (small_peek \<circ> snd) rs \<Longrightarrow> int (length out) \<le> mx \<Longrightarrow> win_capture dl mx rs out = Some out' \<Longrightarrow> int (length out') \<le> mx"
proof (induction dl mx rs out rule: win_capture.induct)
  case (2 deadline mx now p rs out)
  show ?case
  proof (cases p)
    case (WinIdle exited)
    then show ?thesis using 2 by (auto split: if_splits)
  next
    case (WinData avail got)
    define n where "n = unat (capture_room (mx - int (length out)) avail)"
    have "int n \<le> mx - int (length out)"
      unfolding n_def using 2(3,4) WinData by (intro capture_room_le) (simp_all add: small_peek_def)
    then have "int (length (out @ take n d)) \<le> mx" for d by simp
    then show ?thesis using 2 WinData unfolding n_def by (auto simp: Let_def split: if_splits option.splits)
  qed
qed (auto split: if_splits)

lemma win_capture_ends: "(now, p) \<in> set rs \<Longrightarrow> expired now dl \<Longrightarrow> win_capture dl mx rs out \<noteq> None"
  by (induction dl mx rs out rule: win_capture.induct) (auto simp: Let_def split: win_peek.splits option.splits)

text \<open>
  C30: a command always comes back, with at most \<open>mx\<close> bytes of output: once the clock has passed the time limit the capture has
  ended, whether or not the process ends by itself, and the process is terminated then. (The POSIX side waits without a limit once the
  output has ended.)
\<close>
theorem win_command_returns:
  assumes "0 \<le> limit" and "limit \<le> elapsed" and "elapsed < 2 ^ 31" and "0 \<le> mx"
    and "(start + word_of_int elapsed, p) \<in> set rounds" and "list_all (small_peek \<circ> snd) rounds"
  shows "\<exists>ec out killed. win_runShellCommand started limit mx start rounds e = Some (ec, out, killed) \<and> int (length out) \<le> mx \<and> (killed \<longrightarrow> e = WinRuns)"
proof (cases started)
  case True
  have "expired (start + word_of_int elapsed) (win_deadline start limit)"
    using assms by (subst win_deadline_expired) simp_all
  then obtain out where out: "win_capture (win_deadline start limit) mx rounds [] = Some out"
    using win_capture_ends [OF assms(5)] by fast
  then have "int (length out) \<le> mx" using win_capture_bound [OF assms(6) _ out] assms(4) by simp
  moreover have "\<exists>ec killed. win_exit (- 1) e = (ec, killed) \<and> (killed \<longrightarrow> e = WinRuns)" by (cases e) (auto simp: win_exit_def)
  ultimately show ?thesis using True out by (auto simp: win_runShellCommand_def)
qed (use assms(4) in \<open>auto simp: win_runShellCommand_def\<close>)

theorem win_command_returns_witness:
  "\<exists>ec out killed. win_runShellCommand True 10 3 0xFFFFFFFE [(0, WinData 5 (Some ''abcde'')), (0xFFFFFFFE + word_of_int 10, WinIdle False)] WinRuns
     = Some (ec, out, killed) \<and> int (length out) \<le> 3 \<and> (killed \<longrightarrow> WinRuns = WinRuns)"
proof (rule win_command_returns)
  show "(0xFFFFFFFE + word_of_int 10, WinIdle False) \<in> set [(0, WinData 5 (Some ''abcde'')), (0xFFFFFFFE + word_of_int 10, WinIdle False)]"
    by simp
qed (simp_all add: small_peek_def)

text \<open>What a process writes between an empty peek and its end is lost: the loop does not look at the pipe again.\<close>

lemma win_output_lost:
  "\<not> mx \<le> int (length out) \<Longrightarrow> \<not> expired now dl \<Longrightarrow> win_capture dl mx ((now, WinIdle True) # rs) out = Some out"
  by simp

section \<open>Streamed output\<close>

lemma hex_digits: "n < 16 \<Longrightarrow> ''0123456789abcdef'' ! n = hexc n"
proof -
  have "''0123456789abcdef'' = map hexc [0..<16]" by code_simp
  then show "n < 16 \<Longrightarrow> ''0123456789abcdef'' ! n = hexc n" by simp
qed

lemma win_hex_loop_rev: "win_hex_loop i = hex_rev (unat i)"
proof (induction i rule: win_hex_loop.induct)
  case (1 i)
  have m: "unat (and i 15) = unat i mod 16"
  proof -
    have "mask 4 = (15 :: 64 word)" by (simp add: mask_eq_exp_minus_1)
    then have "and i 15 = take_bit 4 i" by (simp only: take_bit_eq_mask)
    then have "unat (and i 15) = take_bit 4 (unat i)" by (simp only: unsigned_take_bit_eq)
    then show ?thesis by (simp add: take_bit_eq_mod)
  qed
  have d: "unat (drop_bit 4 i) = unat i div 16" by (simp add: drop_bit_eq_div unat_div)
  have z: "drop_bit 4 i = 0 \<longleftrightarrow> unat i div 16 = 0" using d by (metis unsigned_0 unsigned_eq_0_iff)
  have h: "''0123456789abcdef'' ! unat (and i 15) = hexc (unat i mod 16)" unfolding m by (rule hex_digits) simp
  show ?case
  proof (cases "drop_bit 4 i = 0")
    case True
    then have "unat i div 16 = 0" by (simp only: z)
    then show ?thesis unfolding win_hex_loop.simps [of i] hex_rev.simps [of "unat i"] h by (simp only: True simp_thms if_True)
  next
    case False
    then have "unat i div 16 \<noteq> 0" by (simp only: z not_False_eq_True)
    then show ?thesis unfolding win_hex_loop.simps [of i] hex_rev.simps [of "unat i"] h 1 [OF False] d by (simp only: False if_False)
  qed
qed

lemma win_hexLen_eq: "n < 2 ^ 64 \<Longrightarrow> win_hexLen n = hex_len n"
proof -
  assume "n < 2 ^ 64"
  then have "unat (word_of_nat n :: 64 word) = n" by (rule unat_small)
  then show "win_hexLen n = hex_len n" by (simp only: win_hexLen_def hex_len_def win_hex_loop_rev)
qed

lemma stream_frames:
  "streamCopyThread dl rs = Some fs \<Longrightarrow> \<exists>ds. fs = map chunk_frame ds \<and> list_all (\<lambda>d. d \<noteq> []) ds"
proof (induction dl rs arbitrary: fs rule: streamCopyThread.induct)
  case (2 deadline stop now p written rs)
  show ?case
  proof (cases "\<exists>a d. p = WinData a (Some d) \<and> take (unat (if a > BUF_SIZE then BUF_SIZE else a)) d \<noteq> [] \<and> written \<and> \<not> stop \<and> \<not> expired now deadline")
    case True
    then obtain a d where p: "p = WinData a (Some d)" and rest: "written" "\<not> stop" "\<not> expired now deadline" by blast
    define n where "n = unat (if a > BUF_SIZE then BUF_SIZE else a)"
    have ne: "take n d \<noteq> []" using True p by (auto simp: n_def)
    obtain fs' where fs': "streamCopyThread deadline rs = Some fs'"
      and fs: "fs = (win_hexLen (length (take n d)) @ [CR, NL] @ take n d @ [CR, NL]) # fs'"
      using 2(3) p rest ne unfolding n_def [symmetric] by (auto simp: Let_def n_def [symmetric])
    have "length (take n d) \<le> n" by simp
    also have "n < 2 ^ 32" using unsigned_less [of "if a > BUF_SIZE then BUF_SIZE else a"] by (simp add: n_def)
    finally have "length (take n d) < 2 ^ 64" by simp
    then have fr: "fs = chunk_frame (take n d) # fs'" by (simp only: fs win_hexLen_eq chunk_frame_def)
    obtain ds where ds: "fs' = map chunk_frame ds" "list_all (\<lambda>d. d \<noteq> []) ds"
      using 2(2) [OF rest(2,3) p refl refl _ _ fs'] ne rest unfolding n_def by blast
    show ?thesis using ds ne fr by (intro exI [of _ "take n d # ds"]) simp
  next
    case False
    show ?thesis
    proof (cases "fs = []")
      case True
      then show ?thesis by (intro exI [of _ "[]"]) simp
    next
      case fs: False
      have "p = WinIdle False \<and> streamCopyThread deadline rs = Some fs \<and> \<not> stop \<and> \<not> expired now deadline"
        using 2(3) False fs by (auto simp: Let_def split: if_splits win_peek.splits option.splits)
      then show ?thesis using 2(1) by fastforce
    qed
  qed
qed simp

text \<open>
  A stream is readable: whatever the rounds, what the Windows loop writes are frames of pieces of the output that a reader of the
  chunked encoding joins again, up to the closing frame, exactly as on the POSIX side.
\<close>
theorem win_stream_decodes:
  assumes "win_runShellStream started limit start rounds e = Some (fs, ec, killed)" and "dechunk n r = Some t"
  shows "\<exists>ds. fs = map chunk_frame ds \<and> dechunk (length ds + n) (concat fs @ r) = Some (concat ds @ t) \<and> (killed \<longrightarrow> ec = - 2)"
proof (cases started)
  case True
  then obtain ks where k: "streamCopyThread (win_deadline start limit) rounds = Some fs" "win_exit (- 2) e = ks" "ks = (ec, killed)"
    using assms(1) by (auto simp: win_runShellStream_def)
  obtain ds where ds: "fs = map chunk_frame ds" "list_all (\<lambda>d. d \<noteq> []) ds" using stream_frames [OF k(1)] by blast
  then show ?thesis using dechunk_frames [OF ds(2), of n r] assms(2) k(2,3)
    by (intro exI [of _ ds]) (auto simp: win_exit_def split: win_end.splits option.splits)
next
  case False
  then show ?thesis using assms by (auto simp: win_runShellStream_def)
qed

theorem win_stream_decodes_witness:
  "\<exists>ds. [chunk_frame ''ab''] = map chunk_frame ds \<and> dechunk (length ds + 1) (concat [chunk_frame ''ab''] @ ''0'' @ [CR, NL, CR, NL]) = Some (concat ds @ [])
     \<and> (False \<longrightarrow> (7::int) = - 2)"
proof (rule win_stream_decodes)
  have h: "win_hexLen 2 = hex_len 2" by (rule win_hexLen_eq) simp
  show "win_runShellStream True 1000 0 [(False, 1, WinData 2 (Some ''ab''), True), (False, 2, WinIdle True, True)] (WinEnded (Some 7)) = Some ([chunk_frame ''ab''], 7, False)"
    by (simp add: win_runShellStream_def win_deadline_def expired_def BUF_SIZE_def win_exit_def chunk_frame_def h numeral_2_eq_2 [symmetric])
  show "dechunk 1 (''0'' @ [CR, NL, CR, NL]) = Some []" by code_simp
qed

section \<open>The token, the exit status\<close>

text \<open>C33: with the random bytes there, the token is the one the POSIX side computes from them.\<close>

theorem win_token_same: "length bs = 16 \<Longrightarrow> win_generateAuthToken (Some bs) = generateAuthToken True [bs]"
proof -
  assume l: "length bs = 16"
  have n: "b < 16 \<Longrightarrow> win_hexd b = hexNibble b" for b
  proof -
    assume b: "b < 16"
    then have u: "unat b < 16" by (simp add: word_less_nat_alt)
    have "b < 10 \<longleftrightarrow> unat b < 10" by (simp add: word_less_nat_alt)
    then show "win_hexd b = hexNibble b" using hex_digits [OF u] by (simp add: win_hexd_def hexNibble_def hexc_def)
  qed
  have "(\<lambda>b. [win_hexd (drop_bit 4 b), win_hexd (and b 15)]) = token_byte"
    by (rule ext) (simp only: token_byte_def n [OF token_byte_nibbles(1)] n [OF token_byte_nibbles(2)])
  moreover have "read_token 16 [bs] = Some bs" using l by auto
  ultimately show ?thesis by (simp add: win_generateAuthToken_def generateAuthToken_def)
qed

theorem win_token_same_witness: "win_generateAuthToken (Some (replicate 16 171)) = generateAuthToken True [replicate 16 171]"
  by (rule win_token_same) simp

text \<open>
  \<open>waitChild\<close> opens the process for synchronisation only, and the API denies the exit code to such a handle: every child is reported to have ended with 0, so
  that a failed start is never seen.
\<close>
lemma win_wait_status:
  assumes "\<And>p. get_code Synchronize p = None" and "win_waitChild open_proc get_code pid = Some (p, st)"
  shows "p = pid \<and> st = 0 \<and> \<not> win_exec_failed st"
  using assms by (auto simp: win_waitChild_def win_exec_failed_def split: if_splits)

text \<open>A process that ended with the code 259 counts as running.\<close>

lemma win_259_running:
  "open_proc QueryInformation pid \<Longrightarrow> get_code QueryInformation pid = Some 259 \<Longrightarrow> win_isProcessRunning open_proc get_code pid"
  by (simp add: win_isProcessRunning_def STILL_ACTIVE_def)

end
