(* ===== verification/GK_Metrics.thy ===== *)
theory GK_Metrics
  imports GK_SysMon GK_Words
begin

text \<open>
  The metrics of the system monitor on Windows and macOS, \<open>system_monitor.cpp\<close>, and its two formatting helpers. The counters
  of the systems are words of the width their interfaces give, and the differences wrap as in the code. What a system call
  answers is an argument, \<open>None\<close> when it fails; the quotients are exact.
\<close>

section \<open>Formatting\<close>

text \<open>\<open>printf("%.kf")\<close>: the exact value rounded to \<open>k\<close> digits, ties to even.\<close>

definition round_even :: "rat \<Rightarrow> nat" where
  "round_even r = (let n = nat \<lfloor>r\<rfloor>; d = r - of_nat n in if d < 1 / 2 then n else if d > 1 / 2 then Suc n else if even n then n else Suc n)"

fun frac_digits :: "nat \<Rightarrow> nat \<Rightarrow> string" where
  "frac_digits 0 n = []"
| "frac_digits (Suc k) n = frac_digits k (n div 10) @ [digit_char (n mod 10)]"

definition fixed_point :: "nat \<Rightarrow> rat \<Rightarrow> string" where
  "fixed_point k r =
     (let n = round_even (\<bar>r\<bar> * 10 ^ k)
      in (if r < 0 then ''-'' else []) @ nat_digits (n div 10 ^ k) @ (if k = 0 then [] else CHR ''.'' # frac_digits k (n mod 10 ^ k)))"

text \<open>The buffers hold 15 and 31 characters.\<close>

definition pct :: "rat \<Rightarrow> bool \<Rightarrow> string" where
  "pct v valid = (if \<not> valid then ''n/a'' else take 15 (fixed_point 1 v))"

definition fmt_bytes :: "int \<Rightarrow> string" where
  "fmt_bytes b =
     take 31 (if b \<ge> 1073741824 then fixed_point 1 (of_int b / 1073741824) @ ''G''
              else if b \<ge> 1048576 then fixed_point 1 (of_int b / 1048576) @ ''M''
              else fixed_point 0 (of_int b / 1024) @ ''K'')"

section \<open>Windows\<close>

type_synonym qword = "64 word"

text \<open>A \<open>FILETIME\<close> is its high and its low half.\<close>

type_synonym filetime = "32 word \<times> 32 word"

definition to_u64 :: "filetime \<Rightarrow> qword" where
  "to_u64 ft = or (push_bit 32 (ucast (fst ft))) (ucast (snd ft))"

text \<open>The static variables \<open>prevK\<close>, \<open>prevU\<close> and \<open>prevI\<close>.\<close>

type_synonym win_prev = "qword \<times> qword \<times> qword"

definition word_percent :: "qword \<Rightarrow> qword \<Rightarrow> rat" where
  "word_percent busy tot = of_nat (unat busy) / of_nat (unat tot) * 100"

definition win_delta :: "win_prev \<Rightarrow> qword \<Rightarrow> qword \<Rightarrow> qword \<Rightarrow> sys_metrics \<Rightarrow> sys_metrics" where
  "win_delta prev k u i m =
     (case prev of (pk, pu, p_i) \<Rightarrow>
        if pk = 0 \<and> pu = 0 \<and> p_i = 0 then m\<lparr>mx_cpuValid := False, mx_cpuPercent := 0\<rparr>
        else let dBusy = (k + u - i) - (pk + pu - p_i); dTotal = (k + u) - (pk + pu)
             in if dTotal = 0 then m\<lparr>mx_cpuValid := False, mx_cpuPercent := 0\<rparr>
                else m\<lparr>mx_cpuValid := True, mx_cpuPercent := word_percent dBusy dTotal\<rparr>)"

text \<open>\<open>clocks\<close>: idle, kernel and user time.\<close>

definition winCpu :: "(filetime \<times> filetime \<times> filetime) option \<Rightarrow> win_prev \<Rightarrow> sys_metrics \<Rightarrow> bool \<times> win_prev \<times> sys_metrics" where
  "winCpu clocks prev m =
     (case clocks of
        None \<Rightarrow> (False, prev, m)
      | Some (idle, krn, user) \<Rightarrow>
          (let k = to_u64 krn; u = to_u64 user; i = to_u64 idle in (True, (k, u, i), win_delta prev k u i m)))"

text \<open>The fields of \<open>MEMORYSTATUSEX\<close> that are read.\<close>

record mem_status =
  ms_totalPhys :: qword
  ms_availPhys :: qword
  ms_totalPageFile :: qword
  ms_availPageFile :: qword

definition winMem :: "mem_status option \<Rightarrow> sys_metrics \<Rightarrow> sys_metrics" where
  "winMem status m =
     (case status of
        None \<Rightarrow> m
      | Some ms \<Rightarrow>
          (let tot = sint (ms_totalPhys ms); avail = sint (ms_availPhys ms);
               m1 = m\<lparr>mx_memTotal := tot, mx_memAvailable := avail, mx_memUsed := tot - avail\<rparr>;
               m2 = (if 0 < tot then m1\<lparr>mx_memPercent := of_int (tot - avail) / of_int tot * 100\<rparr> else m1);
               st = ms_totalPageFile ms; sa = ms_availPageFile ms
           in if 0 < st then
                m2\<lparr>mx_swapTotal := sint st, mx_swapUsed := sint (st - sa), mx_swapPercent := word_percent (st - sa) st, mx_swapValid := True\<rparr>
              else m2))"

definition win_readSystemMetrics ::
    "(filetime \<times> filetime \<times> filetime) option \<Rightarrow> mem_status option \<Rightarrow> win_prev \<Rightarrow> sys_metrics option \<times> win_prev" where
  "win_readSystemMetrics clocks status prev =
     (let (_, prev', m1) = winCpu clocks prev zero_metrics; m2 = winMem status m1
      in (if mx_memTotal m2 \<le> 0 then None else Some m2, prev'))"

text \<open>A wide name is cut to the low byte of each unit; it is empty when the process or the name cannot be read.\<close>

definition procName :: "16 word list option \<Rightarrow> 16 word list" where
  "procName base = (case base of None \<Rightarrow> [] | Some w \<Rightarrow> w)"

definition narrow :: "16 word list \<Rightarrow> string" where
  "narrow w = map (\<lambda>c. char_of (unat c)) w"

text \<open>A process: its id, the two sizes when they can be read, and its name.\<close>

definition win_proc_of :: "32 word \<Rightarrow> 32 word \<times> (qword \<times> qword) option \<times> 16 word list option \<Rightarrow> proc_mem option" where
  "win_proc_of self e =
     (case e of (pid, sizes, base) \<Rightarrow>
        if pid = self \<or> pid = 0 then None
        else (case sizes of
                None \<Rightarrow> None
              | Some (ws, pf) \<Rightarrow> Some \<lparr>pm_pid = uint pid, pm_name = narrow (procName base), pm_rss = sint ws, pm_vms = sint pf\<rparr>))"

definition win_readProcessList :: "32 word \<Rightarrow> (32 word \<times> (qword \<times> qword) option \<times> 16 word list option) list option \<Rightarrow> proc_mem list" where
  "win_readProcessList self procs =
     (case procs of None \<Rightarrow> [] | Some es \<Rightarrow> List.map_filter (win_proc_of self) es)"

definition win_processRssBytes :: "qword option \<Rightarrow> int" where
  "win_processRssBytes ws = (case ws of None \<Rightarrow> - 1 | Some w \<Rightarrow> sint w)"

section \<open>macOS\<close>

text \<open>The ticks of the host, 32 bits wide: user, system, idle, nice.\<close>

type_synonym host_ticks = "32 word \<times> 32 word \<times> 32 word \<times> 32 word"

type_synonym mac_prev = "qword \<times> qword \<times> qword \<times> qword"

definition mac_delta :: "mac_prev \<Rightarrow> mac_prev \<Rightarrow> sys_metrics \<Rightarrow> sys_metrics" where
  "mac_delta prev cur m =
     (case prev of (pu, ps, p_i, pn) \<Rightarrow> case cur of (user, sys, idle, nice) \<Rightarrow>
        if pu = 0 \<and> ps = 0 \<and> p_i = 0 \<and> pn = 0 then m\<lparr>mx_cpuValid := False, mx_cpuPercent := 0\<rparr>
        else let dBusy = (user + sys + nice) - (pu + ps + pn); dTotal = (user + sys + nice + idle) - (pu + ps + pn + p_i)
             in if dTotal = 0 then m\<lparr>mx_cpuValid := False, mx_cpuPercent := 0\<rparr>
                else m\<lparr>mx_cpuValid := True, mx_cpuPercent := word_percent dBusy dTotal\<rparr>)"

definition darwinCpu :: "host_ticks option \<Rightarrow> mac_prev \<Rightarrow> sys_metrics \<Rightarrow> bool \<times> mac_prev \<times> sys_metrics" where
  "darwinCpu ticks prev m =
     (case ticks of
        None \<Rightarrow> (False, prev, m)
      | Some (user, sys, idle, nice) \<Rightarrow>
          (let cur = (ucast user, ucast sys, ucast idle, ucast nice) in (True, cur, mac_delta prev cur m)))"

text \<open>The memory from the page counts: \<open>vm\<close> is the free and the inactive count.\<close>

definition darwin_pages :: "int \<Rightarrow> int \<Rightarrow> (32 word \<times> 32 word) option \<Rightarrow> sys_metrics \<Rightarrow> sys_metrics" where
  "darwin_pages tot page vm m =
     (case vm of
        None \<Rightarrow> m
      | Some (free, inactive) \<Rightarrow>
          (let freeMem = uint free * page; a = uint (free + inactive) * page;
               avail = (if a < 0 \<or> a > tot then freeMem else a)
           in m\<lparr>mx_memAvailable := avail, mx_memUsed := tot - avail,
                mx_memPercent := (if 0 < tot then of_int (tot - avail) / of_int tot * 100 else 0)\<rparr>))"

text \<open>\<open>xsw\<close> is what \<open>vm.swapusage\<close> writes, as the words of the local structure: \<open>xsu_total\<close> is the first and \<open>xsu_used\<close> the second.\<close>

definition darwin_swap :: "qword list option \<Rightarrow> sys_metrics \<Rightarrow> sys_metrics" where
  "darwin_swap xsw m =
     (case xsw of
        Some (xsu_total # xsu_used # _) \<Rightarrow>
          if 0 < xsu_total then
            m\<lparr>mx_swapTotal := sint xsu_total, mx_swapUsed := sint xsu_used, mx_swapPercent := word_percent xsu_used xsu_total, mx_swapValid := True\<rparr>
          else m
      | _ \<Rightarrow> m)"

definition darwinMem :: "int option \<Rightarrow> int \<Rightarrow> (32 word \<times> 32 word) option \<Rightarrow> qword list option \<Rightarrow> sys_metrics \<Rightarrow> sys_metrics" where
  "darwinMem memsize page vm xsw m =
     (case memsize of None \<Rightarrow> m | Some tot \<Rightarrow> darwin_swap xsw (darwin_pages tot page vm (m\<lparr>mx_memTotal := tot\<rparr>)))"

definition mac_readSystemMetrics ::
    "host_ticks option \<Rightarrow> int option \<Rightarrow> int \<Rightarrow> (32 word \<times> 32 word) option \<Rightarrow> qword list option \<Rightarrow> mac_prev \<Rightarrow> sys_metrics option \<times> mac_prev" where
  "mac_readSystemMetrics ticks memsize page vm xsw prev =
     (let (_, prev', m1) = darwinCpu ticks prev zero_metrics; m2 = darwinMem memsize page vm xsw m1
      in (if mx_memTotal m2 \<le> 0 then None else Some m2, prev'))"

definition mac_proc_of :: "int \<Rightarrow> int \<times> (qword \<times> qword) option \<times> string option \<Rightarrow> proc_mem option" where
  "mac_proc_of self e =
     (case e of (pid, sizes, nm) \<Rightarrow>
        if pid \<le> 0 \<or> pid = self then None
        else (case sizes of
                None \<Rightarrow> None
              | Some (rs, vs) \<Rightarrow> Some \<lparr>pm_pid = pid, pm_name = (case nm of None \<Rightarrow> [] | Some n \<Rightarrow> n), pm_rss = sint rs, pm_vms = sint vs\<rparr>))"

definition mac_readProcessList :: "int \<Rightarrow> (int \<times> (qword \<times> qword) option \<times> string option) list option \<Rightarrow> proc_mem list" where
  "mac_readProcessList self procs =
     (case procs of None \<Rightarrow> [] | Some es \<Rightarrow> List.map_filter (mac_proc_of self) es)"

definition mac_processRssBytes :: "qword option \<Rightarrow> int" where
  "mac_processRssBytes rs = (case rs of None \<Rightarrow> - 1 | Some w \<Rightarrow> sint w)"

section \<open>Percentages\<close>

lemma nat_percent: "x \<le> y \<Longrightarrow> 0 \<le> (of_nat x / of_nat y * 100 :: rat) \<and> of_nat x / of_nat y * 100 \<le> (100 :: rat)"
  by (cases "y = 0") (simp_all add: divide_le_eq)

lemma word_percent_bounds: "b \<le> t \<Longrightarrow> 0 \<le> word_percent b t \<and> word_percent b t \<le> 100"
  unfolding word_percent_def word_le_nat_alt by (rule nat_percent)

text \<open>
  C31: the load on Windows is right across the wrap of the counters: when kernel, user and idle time advance by \<open>dk\<close>, \<open>du\<close> and \<open>di\<close>
  (the kernel time includes the idle time), the percentage is that of the time not idle, between 0 and 100, whatever the counters were.
\<close>
theorem win_load:
  assumes "\<not> (pk = 0 \<and> pu = 0 \<and> p_i = 0)" and "di \<le> dk" and "0 < dk + du" and "dk + du < 2 ^ 64"
  shows "mx_cpuValid (win_delta (pk, pu, p_i) (pk + word_of_nat dk) (pu + word_of_nat du) (p_i + word_of_nat di) m) \<and>
    mx_cpuPercent (win_delta (pk, pu, p_i) (pk + word_of_nat dk) (pu + word_of_nat du) (p_i + word_of_nat di) m)
      = of_nat (dk + du - di) / of_nat (dk + du) * 100 \<and>
    0 \<le> mx_cpuPercent (win_delta (pk, pu, p_i) (pk + word_of_nat dk) (pu + word_of_nat du) (p_i + word_of_nat di) m) \<and>
    mx_cpuPercent (win_delta (pk, pu, p_i) (pk + word_of_nat dk) (pu + word_of_nat du) (p_i + word_of_nat di) m) \<le> 100"
proof -
  define b where "b = dk + du - di"
  have b: "word_of_nat dk + word_of_nat du - word_of_nat di = (word_of_nat b :: qword)"
    using assms(2) by (simp add: b_def of_nat_diff)
  have busy: "(pk + word_of_nat dk) + (pu + word_of_nat du) - (p_i + word_of_nat di) - (pk + pu - p_i) = (word_of_nat b :: qword)"
    unfolding b [symmetric] by simp
  have tot: "(pk + word_of_nat dk) + (pu + word_of_nat du) - (pk + pu) = (word_of_nat (dk + du) :: qword)" by simp
  have lt: "b \<le> dk + du" "b < 2 ^ 64" using assms(4) by (simp_all add: b_def)
  have un: "unat (word_of_nat b :: qword) = b" "unat (word_of_nat (dk + du) :: qword) = dk + du"
    using lt assms(4) by (simp_all only: unat_small)
  have nz: "(word_of_nat (dk + du) :: qword) \<noteq> 0" using un(2) assms(3) by (metis less_irrefl unsigned_0)
  have le: "(word_of_nat b :: qword) \<le> word_of_nat (dk + du)" using lt by (simp only: word_le_nat_alt un)
  have p: "win_delta (pk, pu, p_i) (pk + word_of_nat dk) (pu + word_of_nat du) (p_i + word_of_nat di) m
      = m\<lparr>mx_cpuValid := True, mx_cpuPercent := word_percent (word_of_nat b) (word_of_nat (dk + du))\<rparr>"
    unfolding win_delta_def prod.case Let_def busy tot using assms(1) nz by (simp only: if_False)
  have wp: "word_percent (word_of_nat b) (word_of_nat (dk + du)) = of_nat b / of_nat (dk + du) * 100"
    by (simp only: word_percent_def un)
  show ?thesis unfolding p wp using nat_percent [OF lt(1)] by (simp add: b_def)
qed

theorem win_load_witness:
  "mx_cpuPercent (win_delta (0xFFFFFFFFFFFFFFFF, 7, 5) (0xFFFFFFFFFFFFFFFF + word_of_nat 30) (7 + word_of_nat 10) (5 + word_of_nat 20) zero_metrics) = 50"
  using win_load [of "0xFFFFFFFFFFFFFFFF" 7 5 20 30 10 zero_metrics] by simp

lemma winCpu_keeps:
  "mx_swapPercent (snd (snd (winCpu c p m))) = mx_swapPercent m" "mx_swapValid (snd (snd (winCpu c p m))) = mx_swapValid m"
  by (simp_all add: winCpu_def win_delta_def Let_def split: option.split prod.split)

lemma int_percent: "0 \<le> a \<Longrightarrow> a \<le> t \<Longrightarrow> 0 \<le> (of_int (t - a) / of_int t * 100 :: rat) \<and> of_int (t - a) / of_int t * 100 \<le> (100 :: rat)"
  using nat_percent [of "nat (t - a)" "nat t"] by simp

lemma winMem_coherent:
  assumes "ms_availPhys ms \<le> ms_totalPhys ms" and "0 < sint (ms_totalPhys ms)" and "ms_availPageFile ms \<le> ms_totalPageFile ms"
    and "mx_swapPercent m0 = 0" and "\<not> mx_swapValid m0" and m: "m = winMem (Some ms) m0"
  shows "mx_memUsed m + mx_memAvailable m = mx_memTotal m \<and> 0 \<le> mx_memPercent m \<and> mx_memPercent m \<le> 100 \<and>
    0 \<le> mx_swapPercent m \<and> mx_swapPercent m \<le> 100 \<and> (mx_swapValid m \<longleftrightarrow> 0 < ms_totalPageFile ms)"
proof -
  define t a where "t = sint (ms_totalPhys ms)" and "a = sint (ms_availPhys ms)"
  have a: "0 \<le> a" "a \<le> t" "0 < t" using sint_le [OF assms(1)] assms(2) by (simp_all add: t_def a_def)
  note p = int_percent [OF a(1,2)] word_percent_bounds [OF word_sub_le [OF assms(3)]]
  show ?thesis
  proof (cases "0 < ms_totalPageFile ms")
    case True
    then show ?thesis unfolding m winMem_def option.case Let_def t_def [symmetric] a_def [symmetric] using a(3) p by simp
  next
    case False
    then show ?thesis unfolding m winMem_def option.case Let_def t_def [symmetric] a_def [symmetric] using a(3) p assms(4,5) by simp
  qed
qed

text \<open>
  What is read on Windows is coherent: when no available amount exceeds its total and the totals fit a signed value, used and available
  memory add up to the total, and both percentages lie between 0 and 100.
\<close>
theorem win_memory_coherent:
  assumes "win_readSystemMetrics clocks (Some ms) prev = (Some m, prev')"
    and "ms_availPhys ms \<le> ms_totalPhys ms" and "0 \<le> sint (ms_totalPhys ms)"
    and "ms_availPageFile ms \<le> ms_totalPageFile ms"
  shows "0 < mx_memTotal m \<and> mx_memUsed m + mx_memAvailable m = mx_memTotal m \<and> 0 \<le> mx_memPercent m \<and> mx_memPercent m \<le> 100 \<and>
    0 \<le> mx_swapPercent m \<and> mx_swapPercent m \<le> 100 \<and> (mx_swapValid m \<longleftrightarrow> 0 < ms_totalPageFile ms)"
proof -
  define m0 where "m0 = snd (snd (winCpu clocks prev zero_metrics))"
  have m: "m = winMem (Some ms) m0" and pos: "0 < mx_memTotal m"
    using assms(1) by (auto simp: win_readSystemMetrics_def Let_def m0_def split: prod.splits if_splits)
  have "mx_memTotal m = sint (ms_totalPhys ms)" unfolding m by (simp add: winMem_def Let_def)
  then show ?thesis
    using pos assms(2,4) winMem_coherent [OF assms(2) _ assms(4) _ _ m] by (simp add: m0_def winCpu_keeps zero_metrics_def)
qed

theorem win_memory_coherent_witness:
  "mx_memUsed (winMem (Some \<lparr>ms_totalPhys = 1000, ms_availPhys = 400, ms_totalPageFile = 0, ms_availPageFile = 0\<rparr>) zero_metrics) = 600"
proof -
  let ?ms = "\<lparr>ms_totalPhys = 1000, ms_availPhys = 400, ms_totalPageFile = 0, ms_availPageFile = 0\<rparr>"
  have "win_readSystemMetrics None (Some ?ms) (0, 0, 0) = (Some (winMem (Some ?ms) zero_metrics), (0, 0, 0))"
    by (simp add: win_readSystemMetrics_def winCpu_def winMem_def)
  from win_memory_coherent [OF this] show ?thesis by (simp add: winMem_def)
qed

section \<open>macOS\<close>

text \<open>The load on macOS is between 0 and 100 as long as no tick counter goes back.\<close>

definition no_wrap :: "host_ticks \<Rightarrow> host_ticks \<Rightarrow> bool" where
  "no_wrap a b = (case a of (u, s, i, n) \<Rightarrow> case b of (u', s', i', n') \<Rightarrow> u \<le> u' \<and> s \<le> s' \<and> i \<le> i' \<and> n \<le> n')"

definition wide :: "host_ticks \<Rightarrow> mac_prev" where
  "wide t = (case t of (u, s, i, n) \<Rightarrow> (ucast u, ucast s, ucast i, ucast n))"

lemma mac_load: "no_wrap a b \<Longrightarrow> 0 \<le> mx_cpuPercent (mac_delta (wide a) (wide b) m) \<and> mx_cpuPercent (mac_delta (wide a) (wide b) m) \<le> 100"
proof -
  obtain u v i n where a: "a = (u, v, i, n)" by (cases a) auto
  obtain u' v' i' n' where b: "b = (u', v', i', n')" by (cases b) auto
  assume "no_wrap a b"
  then have le: "unat u \<le> unat u'" "unat v \<le> unat v'" "unat i \<le> unat i'" "unat n \<le> unat n'"
    by (simp_all add: no_wrap_def a b word_le_nat_alt)
  define x where "x = (unat u' - unat u) + (unat v' - unat v) + (unat n' - unat n)"
  define y where "y = x + (unat i' - unat i)"
  have up: "ucast w' = ucast w + (word_of_nat (unat w' - unat w) :: qword)" if "unat w \<le> unat w'" for w w' :: "32 word"
    using that by (simp add: of_nat_diff)
  have busy: "(ucast u' + ucast v' + ucast n') - (ucast u + ucast v + ucast n) = (word_of_nat x :: qword)"
    unfolding up [OF le(1)] up [OF le(2)] up [OF le(4)] x_def by (simp only: of_nat_add) (simp add: algebra_simps)
  have tot: "(ucast u' + ucast v' + ucast n' + ucast i') - (ucast u + ucast v + ucast n + ucast i) = (word_of_nat y :: qword)"
    unfolding up [OF le(1)] up [OF le(2)] up [OF le(3)] up [OF le(4)] x_def y_def by (simp only: of_nat_add) (simp add: algebra_simps)
  have "unat w < 2 ^ 32" for w :: "32 word" using unsigned_less [of w] by simp
  note this [of u'] this [of v'] this [of i'] this [of n']
  then have lt: "x < 2 ^ 64" "y < 2 ^ 64" "x \<le> y" by (simp_all add: x_def y_def)
  then have "(word_of_nat x :: qword) \<le> word_of_nat y" by (simp only: word_le_nat_alt unat_small)
  then show ?thesis
    using word_percent_bounds unfolding a b wide_def prod.case mac_delta_def Let_def busy tot by simp
qed

text \<open>
  The ticks are 32 bits wide and the differences are not: when the counter of the user time wraps, after 26 ticks of 126, the load
  reads as more than 99 percent.
\<close>

lemma mac_load_wraps:
  "mx_cpuPercent (snd (snd (darwinCpu (Some (10, 0, 100, 0)) (wide (0xFFFFFFF0, 0, 0, 0)) zero_metrics))) > 99"
  by (simp add: darwinCpu_def wide_def mac_delta_def word_percent_def)

text \<open>
  The system writes total, available, used; the local structure has the last two the other way round, so that the free swap space is
  reported as the used one.
\<close>
lemma mac_swap_reversed:
  "0 < tot \<Longrightarrow> mx_swapUsed (darwin_swap (Some (tot # avail # used # rest)) m) = sint avail"
  by (simp add: darwin_swap_def)

end
