(* ===== verification/GK_Http.thy ===== *)
theory GK_Http
  imports GK_ControlProps
begin

text \<open>
  HTTP framing: what a client prints is what \<open>parseHttpRequest\<close> reads, however the socket cuts
  it into reads; and every reply of the server is framed so that a client which follows its
  \<open>Content-Length\<close> gets back the status and the body. The printed request and \<open>read_response\<close>
  are specifications; both sides share the lemmas on a block of header lines.
\<close>

section \<open>Searching\<close>

lemma find_sub_Some:
  "pat \<noteq> [] \<Longrightarrow> find_sub pat s = Some k \<Longrightarrow> k + length pat \<le> length s \<and> take (length pat) (drop k s) = pat"
proof (induction s arbitrary: k)
  case (Cons c s)
  show ?case
  proof (cases "starts_with pat (c # s)")
    case True
    then obtain t where t: "c # s = pat @ t" by (auto simp: starts_with_iff)
    have "k = 0" using Cons.prems True by simp
    then show ?thesis unfolding t by simp
  next
    case False
    then show ?thesis using Cons by auto
  qed
qed simp

lemma find_sub_le: "pat \<noteq> [] \<Longrightarrow> \<exists>k. find_sub pat (u @ pat @ v) = Some k \<and> k \<le> length u"
proof (induction u)
  case Nil
  then show ?case by (cases pat) auto
qed auto

lemma find_sub_skip: "c \<noteq> p \<Longrightarrow> find_sub (p # ps) (c # s) = map_option Suc (find_sub (p # ps) s)"
  by simp

section \<open>A block of header lines\<close>

text \<open>Lines joined by \<open>\r\n\<close>, the last one without it.\<close>

fun crlf_lines :: "string list \<Rightarrow> string" where
  "crlf_lines [] = []"
| "crlf_lines [l] = l"
| "crlf_lines (l # l' # ls) = l @ CRLF @ crlf_lines (l' # ls)"

text \<open>A line of the block: not empty, and without the two characters that end lines.\<close>

definition plain_text :: "string \<Rightarrow> bool" where
  "plain_text l \<longleftrightarrow> CR \<notin> set l \<and> NL \<notin> set l"

lemma find_sub_no_CR: "CR \<notin> set l \<Longrightarrow> find_sub CRLF2 (l @ s) = map_option ((+) (length l)) (find_sub CRLF2 s)"
proof (induction l)
  case Nil
  show ?case by (cases "find_sub CRLF2 s") simp_all
next
  case (Cons c l)
  then show ?case by (cases "find_sub CRLF2 s") (simp_all add: CRLF2_def)
qed

lemma find_sub_CRLF_line: "c \<noteq> CR \<Longrightarrow> find_sub CRLF2 (CR # NL # c # s) = map_option (\<lambda>k. Suc (Suc k)) (find_sub CRLF2 (c # s))"
  by (simp add: CRLF2_def option.map_comp comp_def)

lemma find_block_end:
  "ls \<noteq> [] \<Longrightarrow> list_all (\<lambda>l. l \<noteq> [] \<and> plain_text l) ls \<Longrightarrow> find_sub CRLF2 (crlf_lines ls @ CRLF2 @ b) = Some (length (crlf_lines ls))"
proof (induction ls rule: crlf_lines.induct)
  case (2 l)
  then show ?case by (simp add: find_sub_no_CR plain_text_def) (simp add: CRLF2_def)
next
  case (3 l l' ls)
  obtain c t where ct: "crlf_lines (l' # ls) @ CRLF2 @ b = c # t" and c: "c \<noteq> CR"
    using 3 by (cases l'; cases ls) (auto simp: plain_text_def)
  have "find_sub CRLF2 (c # t) = Some (length (crlf_lines (l' # ls)))" using 3 unfolding ct [symmetric] by simp
  then have "find_sub CRLF2 (CR # NL # c # t) = Some (length (crlf_lines (l' # ls)) + 2)" using c find_sub_CRLF_line [OF c, of t] by (simp only: option.map) simp
  then show ?case using 3(3) by (simp add: find_sub_no_CR plain_text_def CRLF_def ct)
qed simp

lemma getlines_one: "l \<noteq> [] \<Longrightarrow> NL \<notin> set l \<Longrightarrow> getlines l = [l]"
proof -
  assume a: "l \<noteq> []" "NL \<notin> set l"
  then have l: "takeWhile (\<lambda>c. c \<noteq> NL) l = l" "dropWhile (\<lambda>c. c \<noteq> NL) l = []"
    unfolding takeWhile_eq_all_conv dropWhile_eq_Nil_conv by blast+
  have "getlines l = takeWhile (\<lambda>c. c \<noteq> NL) l # getlines (drop 1 (dropWhile (\<lambda>c. c \<noteq> NL) l))"
    using a by (subst getlines.simps) simp
  then show ?thesis unfolding l by (simp add: getlines.simps [of "[]"])
qed

lemma getlines_more: "NL \<notin> set l \<Longrightarrow> getlines (l @ NL # s) = l # getlines s"
proof -
  assume a: "NL \<notin> set l"
  then have "takeWhile (\<lambda>c. c \<noteq> NL) (l @ NL # s) = l" "dropWhile (\<lambda>c. c \<noteq> NL) (l @ NL # s) = NL # s"
    by (induction l) auto
  then show ?thesis by (subst getlines.simps) simp
qed

text \<open>What \<open>std::getline\<close> makes of the block: every line but the last keeps its carriage return.\<close>

fun got_lines :: "string list \<Rightarrow> string list" where
  "got_lines [] = []"
| "got_lines [l] = [l]"
| "got_lines (l # l' # ls) = (l @ [CR]) # got_lines (l' # ls)"

lemma getlines_block: "list_all (\<lambda>l. l \<noteq> [] \<and> plain_text l) ls \<Longrightarrow> getlines (crlf_lines ls) = got_lines ls"
proof (induction ls rule: crlf_lines.induct)
  case (3 l l' ls)
  have "getlines (crlf_lines (l # l' # ls)) = getlines ((l @ [CR]) @ NL # crlf_lines (l' # ls))" by (simp add: CRLF_def)
  also have "\<dots> = (l @ [CR]) # getlines (crlf_lines (l' # ls))" using 3 by (intro getlines_more) (auto simp: plain_text_def)
  finally show ?case using 3 by simp
qed (simp_all add: getlines.simps [of "[]"] getlines_one plain_text_def)

text \<open>A header field: the name holds no colon, and neither name nor value has a blank at an end.\<close>

definition header_text :: "string \<times> string \<Rightarrow> string" where
  "header_text h = fst h @ '': '' @ snd h"

definition good_header :: "string \<times> string \<Rightarrow> bool" where
  "good_header h \<longleftrightarrow> plain_text (fst h) \<and> plain_text (snd h) \<and> CHR '':'' \<notin> set (fst h) \<and> trim (fst h) = fst h \<and> trim (snd h) = snd h"

definition header_map :: "(string \<times> string) list \<Rightarrow> (string \<Rightarrow> string option) \<Rightarrow> (string \<Rightarrow> string option)" where
  "header_map hs m = foldl (\<lambda>m h. m(map to_lower (fst h) \<mapsto> snd h)) m hs"

lemma trim_SP: "trim (SP # v) = trim v"
  by (simp add: trim_def is_space_def)

lemma trim_CR: "trim (v @ [CR]) = trim v"
proof -
  have s: "is_space CR" by (simp add: is_space_def)
  show ?thesis
  proof (cases "\<forall>c \<in> set v. is_space c")
    case True
    then have "dropWhile is_space (v @ [CR]) = []" "dropWhile is_space v = []" using s by auto
    then show ?thesis unfolding trim_def by presburger
  next
    case False
    then have "dropWhile is_space (v @ [CR]) = dropWhile is_space v @ [CR]" by (auto simp: dropWhile_append1)
    then show ?thesis using s by (simp add: trim_def)
  qed
qed

lemma header_line:
  assumes "good_header h"
  shows "header_lines (header_text h # ls) m = header_lines ls (m(map to_lower (fst h) \<mapsto> snd h))"
    and "header_lines ((header_text h @ [CR]) # ls) m = header_lines ls (m(map to_lower (fst h) \<mapsto> snd h))"
proof -
  have n: "CHR '':'' \<notin> set (fst h)" and t: "trim (fst h) = fst h" "trim (snd h) = snd h"
    and p: "plain_text (fst h)" using assms by (auto simp: good_header_def)
  have ne: "header_text h @ x \<noteq> []" "header_text h @ x \<noteq> [CR]" for x
    using p by (cases "fst h"; auto simp: header_text_def plain_text_def)+
  have f: "find_char (CHR '':'') (header_text h @ x) = Some (length (fst h))" for x
    using find_char_first [OF n, of "SP # snd h @ x"] by (simp add: header_text_def)
  have k: "take (length (fst h)) (header_text h @ x) = fst h" "drop (length (fst h) + 1) (header_text h @ x) = SP # snd h @ x" for x
    by (simp_all add: header_text_def)
  have v: "trim (SP # snd h @ [CR]) = snd h" using t by (simp only: trim_SP trim_CR)
  show "header_lines (header_text h # ls) m = header_lines ls (m(map to_lower (fst h) \<mapsto> snd h))"
    using ne [of "[]"] f [of "[]"] k [of "[]"] t by (simp add: trim_SP)
  show "header_lines ((header_text h @ [CR]) # ls) m = header_lines ls (m(map to_lower (fst h) \<mapsto> snd h))"
    using ne [of "[CR]"] f [of "[CR]"] k [of "[CR]"] t v by simp
qed

lemma header_block: "list_all good_header hs \<Longrightarrow> header_lines (got_lines (map header_text hs)) m = header_map hs m"
  by (induction hs arbitrary: m rule: induct_list012) (simp_all add: header_map_def header_line del: header_lines.simps(2))

section \<open>Requests\<close>

text \<open>A printed request: request line, header fields, empty line, body.\<close>

definition request_line :: "string \<Rightarrow> string \<Rightarrow> string" where
  "request_line m p = m @ [SP] @ p @ '' HTTP/1.1''"

definition request_head :: "string \<Rightarrow> string \<Rightarrow> (string \<times> string) list \<Rightarrow> string" where
  "request_head m p hs = crlf_lines (request_line m p # map header_text hs)"

definition request_text :: "string \<Rightarrow> string \<Rightarrow> (string \<times> string) list \<Rightarrow> string \<Rightarrow> string" where
  "request_text m p hs body = request_head m p hs @ CRLF2 @ body"

definition word_text :: "string \<Rightarrow> bool" where
  "word_text w \<longleftrightarrow> w \<noteq> [] \<and> list_all (\<lambda>c. \<not> is_space c) w"

lemma word_text_plain: "word_text w \<Longrightarrow> plain_text w"
  by (auto simp: word_text_def plain_text_def list_all_iff is_space_def)

lemma words_of_word: "word_text w \<Longrightarrow> is_space c \<Longrightarrow> words_of (w @ c # s) = w # words_of (c # s)"
proof -
  assume w: "word_text w" and c: "is_space c"
  obtain a as where wa: "w = a # as" "\<not> is_space a" using w by (cases w) (auto simp: word_text_def)
  have "takeWhile (\<lambda>x. \<not> is_space x) (w @ c # s) = w" "dropWhile (\<lambda>x. \<not> is_space x) (w @ c # s) = c # s"
    using w c by (auto simp: word_text_def list_all_iff takeWhile_append2 dropWhile_append2)
  moreover have "dropWhile is_space (w @ c # s) = w @ c # s" using wa by simp
  ultimately show ?thesis by (subst words_of.simps) (simp add: wa)
qed

lemma words_of_space: "is_space c \<Longrightarrow> words_of (c # s) = words_of s"
  by (subst (1 2) words_of.simps) simp

lemma request_words:
  assumes "word_text m" "word_text p"
  shows "\<exists>ws. words_of (request_line m p @ x) = m # p # ws"
  using assms by (auto simp: request_line_def words_of_word words_of_space is_space_def)

lemma request_line_plain: "word_text m \<Longrightarrow> word_text p \<Longrightarrow> plain_text (request_line m p) \<and> request_line m p \<noteq> []"
  using word_text_plain [of m] word_text_plain [of p] by (auto simp: request_line_def plain_text_def word_text_def)

lemma header_plain: "good_header h \<Longrightarrow> header_text h \<noteq> [] \<and> plain_text (header_text h)"
  by (auto simp: good_header_def header_text_def plain_text_def)

lemma header_lines_plain: "list_all good_header hs \<Longrightarrow> list_all (\<lambda>l. l \<noteq> [] \<and> plain_text l) (map header_text hs)"
  using header_plain by (auto simp: list_all_iff)

text \<open>Any cut of a text that contains the empty line once: the header loop stops inside the body.\<close>

lemma CRLF2_length: "CRLF2 \<noteq> []" "length CRLF2 = 4"
  by (simp_all add: CRLF2_def)

lemma read_header_cut:
  assumes full: "find_sub CRLF2 (d @ concat rs) = Some n" and none: "find_sub CRLF2 d = None"
    and ne: "list_all (\<lambda>r. r \<noteq> []) rs" and short: "n + 4 \<le> 8192"
  shows "\<exists>d' rs'. read_header rs d = (d', rs') \<and> n + 4 \<le> length d' \<and> d' @ concat rs' = d @ concat rs \<and> list_all (\<lambda>r. r \<noteq> []) rs'"
  using full none ne
proof (induction rs arbitrary: d)
  case (Cons r rs)
  define s where "s = (d @ r) @ concat rs"
  have s: "find_sub CRLF2 s = Some n" using Cons.prems(1) by (simp add: s_def)
  have at: "take 4 (drop n s) = CRLF2" "n + 4 \<le> length s"
    using find_sub_Some [OF CRLF2_length(1) s] by (simp_all only: CRLF2_length)
  show ?case
  proof (cases "find_sub CRLF2 (d @ r)")
    case None
    have "length (d @ r) < n + 4"
    proof (rule ccontr)
      assume "\<not> length (d @ r) < n + 4"
      then have l: "n + 4 \<le> length (d @ r)" by simp
      then have "take 4 (drop n (d @ r)) = CRLF2" using at by (simp add: s_def)
      then have "d @ r = take n (d @ r) @ CRLF2 @ drop 4 (drop n (d @ r))" by (metis append_take_drop_id)
      then have "find_sub CRLF2 (d @ r) \<noteq> None" using find_sub_le [of CRLF2] by (metis CRLF2_def list.distinct(1) option.distinct(1))
      then show False using None by simp
    qed
    then have "\<not> 8192 < length (d @ r)" using short by simp
    moreover have "\<exists>d' rs'. read_header rs (d @ r) = (d', rs') \<and> n + 4 \<le> length d' \<and> d' @ concat rs' = (d @ r) @ concat rs
        \<and> list_all (\<lambda>r. r \<noteq> []) rs'"
      using Cons.prems None by (intro Cons.IH) simp_all
    ultimately show ?thesis using Cons.prems None by (simp add: Let_def)
  next
    case (Some k)
    obtain u v where uv: "d @ r = u @ CRLF2 @ v" "length u = k"
      using find_sub_Some [OF _ Some] by (metis CRLF2_def append_take_drop_id length_take add_leE list.distinct(1) min.absorb2)
    have "n \<le> k" using find_sub_le [of CRLF2 u "v @ concat rs"] s uv by (auto simp: s_def CRLF2_def)
    then have "n + 4 \<le> length (d @ r)" using uv by (simp add: CRLF2_def)
    then show ?thesis using Cons.prems Some by (auto simp: Let_def)
  qed
qed simp

lemma read_body_all:
  assumes "list_all (\<lambda>r. r \<noteq> []) rs"
  shows "read_body (int (length (b @ concat rs))) rs b = b @ concat rs"
  using assms
proof (induction rs arbitrary: b)
  case (Cons r rs)
  have r: "r \<noteq> []" "list_all (\<lambda>r. r \<noteq> []) rs" using Cons.prems by simp_all
  have "read_body (int (length (b @ concat (r # rs)))) (r # rs) b = read_body (int (length ((b @ r) @ concat rs))) rs (b @ r)"
  proof -
    have "length b < length (b @ concat (r # rs))" using r(1) by (cases r) simp_all
    then have "\<not> int (length (b @ concat (r # rs))) \<le> int (length b)" by (simp only: of_nat_le_iff not_le)
    then show ?thesis using r(1) by simp
  qed
  also have "\<dots> = (b @ r) @ concat rs" by (rule Cons.IH [OF r(2)])
  finally show ?case by simp
qed simp

text \<open>
  C5: a request arrives however the socket cuts it: for any division of its text into non-empty reads, with a header part
  of at most 8192 bytes, \<open>parseHttpRequest\<close> returns its method, its path, its fields (names in lower case, the last
  of equal names) and its body, which a \<open>Content-Length\<close> announces or which is empty.
\<close>
theorem request_any_chunking:
  assumes m: "word_text m" and p: "word_text p" and hs: "list_all good_header hs"
    and cl: "header_map hs (\<lambda>_. None) ''content-length'' = Some (to_string (int (length body)))
             \<or> header_map hs (\<lambda>_. None) ''content-length'' = None \<and> body = []"
    and big: "int (length body) \<le> INT_MAX" and short: "length (request_head m p hs) + 4 \<le> 8192"
    and reads: "concat reads = request_text m p hs body" "list_all (\<lambda>r. r \<noteq> []) reads"
  shows "parseHttpRequest reads = Parsed \<lparr>rq_method = m, rq_path = p, rq_headers = header_map hs (\<lambda>_. None), rq_body = body\<rparr>"
proof -
  let ?h = "request_head m p hs"
  have lines: "list_all (\<lambda>l. l \<noteq> [] \<and> plain_text l) (request_line m p # map header_text hs)"
    using request_line_plain [OF m p] header_lines_plain [OF hs] by simp
  have f: "find_sub CRLF2 (?h @ CRLF2 @ b) = Some (length ?h)" for b
    unfolding request_head_def by (rule find_block_end) (use lines in simp_all)
  have g: "find_sub CRLF2 [] = None" by (simp add: CRLF2_def)
  obtain d rs where d: "read_header reads [] = (d, rs)" "length ?h + 4 \<le> length d" "d @ concat rs = ?h @ CRLF2 @ body"
    "list_all (\<lambda>r. r \<noteq> []) rs"
    using read_header_cut [of "[]" reads "length ?h"] f [of body] g short reads by (auto simp: request_text_def)
  obtain b where b: "d = ?h @ CRLF2 @ b" "b @ concat rs = body"
  proof -
    have "take (length ?h + 4) d = ?h @ CRLF2" using arg_cong [OF d(3), of "take (length ?h + 4)"] d(2) by (simp add: CRLF2_def)
    then have "d = ?h @ CRLF2 @ drop (length ?h + 4) d" by (metis append_assoc append_take_drop_id)
    then show thesis using that d(3) by (metis append_assoc same_append_eq)
  qed
  have fd: "find_sub CRLF2 d = Some (length ?h)" unfolding b(1) by (rule f)
  have dr: "take (length ?h) d = ?h" "drop (length ?h + 4) d = b" unfolding b(1) by (simp_all add: CRLF2_def)
  obtain x ls where gl: "getlines ?h = (request_line m p @ x) # ls" and hl: "header_lines ls (\<lambda>_. None) = header_map hs (\<lambda>_. None)"
  proof (cases hs)
    case Nil
    then show thesis using that [of "[]" "[]"] getlines_block [OF lines] by (simp add: request_head_def header_map_def)
  next
    case (Cons h hs')
    have "getlines ?h = (request_line m p @ [CR]) # got_lines (map header_text hs)"
      using getlines_block [OF lines] by (simp add: request_head_def Cons)
    then show thesis using that header_block [OF hs] by blast
  qed
  obtain ws where ws: "words_of (request_line m p @ x) = m # p # ws" using request_words [OF m p] by blast
  have st: "stoi (to_string (int (length body))) = Some (int (length body))"
    using stoi_to_string [of "[]" "int (length body)"] big by (simp add: INT_MIN_def)
  have rb: "read_body (int (length body)) rs b = body" using read_body_all [OF d(4), of b] unfolding b(2) .
  have none: "b = body" if "body = []" using b(2) that by simp
  show ?thesis unfolding parseHttpRequest_def d(1) prod.case fd option.case dr gl list.case ws Let_def hl
    using cl st rb none by (auto simp: hl)
qed

text \<open>The request \<open>POST /run\<close> with a field and a body, cut in the middle of the empty line.\<close>

theorem request_any_chunking_witness:
  "parseHttpRequest [''POST /run HTTP/1.1'' @ CRLF @ ''X-Auth-Token: t'' @ CRLF @ ''Content-Length: 2'' @ [CR, NL, CR], NL # ''{'', ''}'']
   = Parsed \<lparr>rq_method = ''POST'', rq_path = ''/run'',
       rq_headers = header_map [(''X-Auth-Token'', ''t''), (''Content-Length'', ''2'')] (\<lambda>_. None), rq_body = ''{}''\<rparr>"
proof (rule request_any_chunking)
  have two: "to_string (int (length ''{}'')) = ''2''" by code_simp
  have m: "header_map [(''X-Auth-Token'', ''t''), (''Content-Length'', ''2'')] (\<lambda>_. None) ''content-length'' = Some ''2''" by code_simp
  show "header_map [(''X-Auth-Token'', ''t''), (''Content-Length'', ''2'')] (\<lambda>_. None) ''content-length'' = Some (to_string (int (length ''{}'')))
      \<or> header_map [(''X-Auth-Token'', ''t''), (''Content-Length'', ''2'')] (\<lambda>_. None) ''content-length'' = None \<and> ''{}'' = []"
    unfolding two m by simp
qed (simp_all add: word_text_def is_space_def good_header_def plain_text_def trim_def INT_MAX_def request_head_def request_text_def
      request_line_def header_text_def CRLF_def CRLF2_def)

section \<open>Replies\<close>

text \<open>A client: status from the first line, body as long as the \<open>Content-Length\<close> says. What follows is left.\<close>

definition read_number :: "string \<Rightarrow> nat option" where
  "read_number s = (if s \<noteq> [] \<and> list_all is_digit s then Some (digits_val s) else None)"

definition read_response :: "string \<Rightarrow> (nat \<times> string \<times> string) option" where
  "read_response t =
     (case find_sub CRLF2 t of
        None \<Rightarrow> None
      | Some k \<Rightarrow>
          (case getlines (take k t) of
             [] \<Rightarrow> None
           | l # ls \<Rightarrow>
               (case (words_of l, Option.bind (header_lines ls (\<lambda>_. None) ''content-length'') read_number) of
                  (_ # s # _, Some n) \<Rightarrow>
                    (case read_number s of
                       None \<Rightarrow> None
                     | Some st \<Rightarrow> Some (st, take n (drop (k + 4) t), drop n (drop (k + 4) t)))
                | _ \<Rightarrow> None)))"

definition status_line :: "int \<Rightarrow> string \<Rightarrow> string" where
  "status_line st reason = ''HTTP/1.1 '' @ to_string st @ [SP] @ reason"

lemma to_string_word: "word_text (to_string i)"
  using set_to_string [of _ i] by (fastforce simp: word_text_def list_all_iff is_digit_def is_space_def)

lemma status_words: "\<exists>ws. words_of (status_line st reason @ x) = ''HTTP/1.1'' # to_string st # ws"
proof -
  have sp: "is_space SP" by (simp add: is_space_def)
  have "word_text ''HTTP/1.1''" by (simp add: word_text_def is_space_def)
  then have "words_of (''HTTP/1.1'' @ SP # to_string st @ SP # reason @ x) = ''HTTP/1.1'' # to_string st # words_of (reason @ x)"
    by (simp only: words_of_word [OF _ sp] words_of_space [OF sp] to_string_word)
  then show ?thesis by (simp add: status_line_def)
qed

lemma read_number_to_string: "read_number (to_string (int n)) = Some n"
  by (simp add: read_number_def to_string_def list_all_iff)

lemma read_framed:
  assumes hs: "list_all good_header hs" and ne: "hs \<noteq> []"
    and cl: "header_map hs (\<lambda>_. None) ''content-length'' = Some (to_string (int (length body)))"
    and reason: "plain_text reason"
  shows "read_response (crlf_lines (status_line (int st) reason # map header_text hs) @ CRLF2 @ body @ next_text) = Some (st, body, next_text)"
proof -
  let ?h = "crlf_lines (status_line (int st) reason # map header_text hs)"
  have sl: "plain_text (status_line (int st) reason) \<and> status_line (int st) reason \<noteq> []"
    using reason word_text_plain [OF to_string_word [of "int st"]] by (simp add: status_line_def plain_text_def)
  then have lines: "list_all (\<lambda>l. l \<noteq> [] \<and> plain_text l) (status_line (int st) reason # map header_text hs)"
    using header_lines_plain [OF hs] by simp
  have f: "find_sub CRLF2 (?h @ CRLF2 @ body @ next_text) = Some (length ?h)"
    by (rule find_block_end) (use lines in simp_all)
  have dr: "take (length ?h) (?h @ CRLF2 @ body @ next_text) = ?h" "drop (length ?h + 4) (?h @ CRLF2 @ body @ next_text) = body @ next_text"
    by (simp_all add: CRLF2_def)
  have gl: "getlines ?h = (status_line (int st) reason @ [CR]) # got_lines (map header_text hs)"
    using getlines_block [OF lines] ne by (cases hs) simp_all
  obtain ws where ws: "words_of (status_line (int st) reason @ [CR]) = ''HTTP/1.1'' # to_string (int st) # ws" using status_words by blast
  show ?thesis
    unfolding read_response_def f option.case dr gl list.case ws header_block [OF hs] cl by (simp add: read_number_to_string)
qed

text \<open>The two forms of a reply.\<close>

definition plain_fields :: "string \<Rightarrow> (string \<times> string) list" where
  "plain_fields body = [(''Content-Type'', ''application/json''), (''Content-Length'', to_string (int (length body))), (''Connection'', ''close'')]"

definition cors_fields :: "string \<Rightarrow> (string \<times> string) list" where
  "cors_fields body = [(''Content-Type'', ''application/json; charset=utf-8''), (''Access-Control-Allow-Origin'', ''*''),
     (''Cache-Control'', ''no-store''), (''Content-Length'', to_string (int (length body))), (''Connection'', ''close'')]"

lemma http_response_framed:
  "http_response st ''application/json'' body = crlf_lines (status_line st ''OK'' # map header_text (plain_fields body)) @ CRLF2 @ body"
  by (simp add: http_response_def plain_fields_def status_line_def header_text_def CRLF_def CRLF2_def)

lemma cors_response_framed:
  "cors_response st body = crlf_lines (status_line st ''OK'' # map header_text (cors_fields body)) @ CRLF2 @ body"
  by (simp add: cors_response_def cors_fields_def status_line_def header_text_def CRLF_def CRLF2_def)

lemma trim_word: "word_text w \<Longrightarrow> trim w = w"
proof -
  have dw: "dropWhile is_space xs = xs" if "list_all (\<lambda>c. \<not> is_space c) xs" for xs using that by (cases xs) auto
  assume "word_text w"
  then have "list_all (\<lambda>c. \<not> is_space c) w" "list_all (\<lambda>c. \<not> is_space c) (rev w)" by (auto simp: word_text_def)
  then show "trim w = w" by (simp add: trim_def dw)
qed

lemma number_header: "good_header (''Content-Length'', to_string i)"
  using to_string_word [of i] by (simp add: good_header_def word_text_plain trim_word) (simp add: plain_text_def trim_def is_space_def)

lemma reply_fields: "list_all good_header (plain_fields b)" "list_all good_header (cors_fields b)"
  by (simp_all add: plain_fields_def cors_fields_def number_header) (simp_all add: good_header_def plain_text_def trim_def is_space_def)

lemma reply_length:
  "header_map (plain_fields b) (\<lambda>_. None) ''content-length'' = Some (to_string (int (length b)))"
  "header_map (cors_fields b) (\<lambda>_. None) ''content-length'' = Some (to_string (int (length b)))"
proof -
  have lower: "map to_lower ''Content-Length'' = ''content-length''" "map to_lower ''Connection'' = ''connection''" by code_simp+
  show "header_map (plain_fields b) (\<lambda>_. None) ''content-length'' = Some (to_string (int (length b)))"
    "header_map (cors_fields b) (\<lambda>_. None) ''content-length'' = Some (to_string (int (length b)))"
    by (simp_all only: plain_fields_def cors_fields_def header_map_def foldl.simps fst_conv snd_conv lower fun_upd_apply) simp_all
qed

text \<open>A reply with one of the server's statuses.\<close>

definition server_reply :: "string \<Rightarrow> bool" where
  "server_reply t \<longleftrightarrow> (\<exists>st \<in> {200, 400, 401, 404, 429}. \<exists>b. t = http_response st ''application/json'' b \<or> t = cors_response st b)"

lemma server_reply_simps [simp]:
  "server_reply (json_response b)" "server_reply (cors_response 200 b)" "server_reply (cors_response 400 b)"
  "server_reply (cors_response 401 b)" "server_reply (cors_response 404 b)" "server_reply (error_response 400 b)"
  "server_reply (error_response 401 b)" "server_reply (error_response 404 b)" "server_reply (error_response 429 b)"
  unfolding server_reply_def json_response_def error_response_def by blast+

lemma handler_replies: "server_reply (handleStatus env)" "server_reply (handleSysInfo fmt env)" "server_reply (handleProcs env req)"
  by (simp_all add: handleStatus_def handleSysInfo_def handleProcs_def Let_def)

lemma refresh_replies: "handleRefresh env req = Reply t \<Longrightarrow> server_reply t"
  by (auto simp: handleRefresh_def Let_def split: if_splits option.splits)

lemma run_replies: "handleRun env req = Reply t \<Longrightarrow> server_reply t"
  by (auto simp: handleRun_def resolveRun_def resolve_json_def Let_def split: if_splits option.splits)

lemma parsed_replies: "handle_parsed fmt env req = Reply t \<Longrightarrow> server_reply t"
  by (auto simp: handle_parsed_def handler_replies refresh_replies run_replies split: if_splits)

lemma client_replies: "fst (serve_client fmt env ip now reads rl) = Reply t \<Longrightarrow> server_reply t"
  by (auto simp: serve_client_def handleRequest_def parsed_replies split: if_splits prod.splits parse_result.splits)

lemma server_reply_reads:
  assumes "server_reply t"
  shows "\<exists>st \<in> {200, 400, 401, 404, 429}. \<exists>body. read_response (t @ next_text) = Some (st, body, next_text)"
proof -
  obtain st b where st: "st \<in> {200, 400, 401, 404, 429}" and t: "t = http_response st ''application/json'' b \<or> t = cors_response st b"
    using assms by (auto simp: server_reply_def)
  define n where "n = nat st"
  have n: "st = int n" "n \<in> {200, 400, 401, 404, 429}" using st by (auto simp: n_def)
  have ok: "plain_text ''OK''" by (simp add: plain_text_def)
  have ne: "plain_fields b \<noteq> []" "cors_fields b \<noteq> []" by (simp_all add: plain_fields_def cors_fields_def)
  show ?thesis
    using n t read_framed [OF reply_fields(1) ne(1) reply_length(1) ok, of n next_text]
      read_framed [OF reply_fields(2) ne(2) reply_length(2) ok, of n next_text]
    by (auto simp del: insert_iff simp: http_response_framed cors_response_framed)
qed



end
