(* ===== verification/GK_WaitPage.thy ===== *)
theory GK_WaitPage
  imports GK_Http GK_RelayProps
begin

text \<open>
  The pages a port shows while its backend is not there: \<open>buildWaitPageHtml\<close>, \<open>buildStartupResponse\<close> and \<open>buildResourceBusyResponse\<close> of
  \<open>relay.cpp\<close>, byte for byte, and the reply to a refresh request. The values the page puts into its script and the requests its
  script sends (to the port itself, and to the control server) are definitions of their own, so that the theorems join page, port and server.
\<close>

section \<open>The page\<close>

text \<open>Bytes of the UTF-8 texts, and lines with their ends.\<close>

definition u8 :: "nat list \<Rightarrow> string" where
  "u8 bs = map char_of bs"

definition page_lines :: "string list \<Rightarrow> string" where
  "page_lines ls = concat (map (\<lambda>l. l @ [NL]) ls)"

definition PAGE_OPEN :: string where
  "PAGE_OPEN = page_lines [
     ''<!DOCTYPE html>'',
     ''<html>'',
     ''<head>'',
     ''  <meta charset=\"utf-8\">'']"

definition PAGE_SCRIPT :: string where
  "PAGE_SCRIPT = page_lines [
     ''    function render() {'',
     ''      var el = document.getElementById('cd');'',
     ''      if (!el) return;'',
     ''      el.textContent = enabled ? secs + ' '' @ u8 [0xE7, 0xA7, 0x92, 0xE5, 0x90, 0x8E, 0xE8, 0x87, 0xAA, 0xE5, 0x8A, 0xA8, 0xE9, 0x87, 0x8D, 0xE8, 0xAF, 0x95] @ [SQ] @ '' : '' @ [SQ] @ u8 [0xE8, 0x87, 0xAA, 0xE5, 0x8A, 0xA8, 0xE9, 0x87, 0x8D, 0xE8, 0xAF, 0x95, 0xE5, 0xB7, 0xB2, 0xE5, 0x81, 0x9C, 0xE7, 0x94, 0xA8] @ [SQ] @ '';'',
     ''    }'',
     ''    function setMeta(n) {'',
     ''      var m = document.querySelector('meta[http-equiv=\"refresh\"]');'',
     ''      if (!m) { m = document.createElement('meta'); m.setAttribute('http-equiv', 'refresh'); document.head.appendChild(m); }'',
     ''      m.setAttribute('content', String(n));'',
     ''    }'',
     ''    function clearMeta() {'',
     ''      var m = document.querySelector('meta[http-equiv=\"refresh\"]');'',
     ''      if (m) m.parentNode.removeChild(m);'',
     ''    }'',
     ''    function tick() {'',
     ''      render();'',
     ''      if (enabled && secs > 0) { secs--; setTimeout(tick, 1000); }'',
     ''    }'',
     ''    function setRefresh(n) {'',
     ''      var st = document.getElementById('st');'',
     ''      var tries = 0;'',
     ''      var done = false;'',
     ''      function finish(j) {'',
     ''        if (done) return;'',
     ''        done = true;'',
     ''        if (j && j.ok) {'',
     ''          secs = n;'',
     ''          base = n;'',
     ''          enabled = n > 0;'',
     ''          if (enabled) {'',
     ''            setMeta(n); tick();'',
     ''            st.textContent = '' @ [SQ] @ u8 [0xE5, 0xB7, 0xB2, 0xE8, 0xB0, 0x83, 0xE6, 0x95, 0xB4, 0xE4, 0xB8, 0xBA] @ '' ' + n + ' '' @ u8 [0xE7, 0xA7, 0x92] @ [SQ] @ '';'',
     ''            st.style.color = '#060';'',
     ''          } else {'',
     ''            clearMeta(); render();'',
     ''            st.textContent = '' @ [SQ] @ u8 [0xE5, 0xB7, 0xB2, 0xE5, 0x81, 0x9C, 0xE7, 0x94, 0xA8, 0xEF, 0xBC, 0x8C, 0xE7, 0xAB, 0x8B, 0xE5, 0x8D, 0xB3, 0xE5, 0x88, 0xB7, 0xE6, 0x96, 0xB0] @ [SQ] @ '';'',
     ''            st.style.color = '#060';'',
     ''            location.reload();'',
     ''          }'',
     ''        } else {'',
     ''          st.textContent = '' @ [SQ] @ u8 [0xE8, 0xB0, 0x83, 0xE6, 0x95, 0xB4, 0xE5, 0xA4, 0xB1, 0xE8, 0xB4, 0xA5] @ [SQ] @ '';'',
     ''          st.style.color = '#c00';'',
     ''        }'',
     ''      }'',
     ''      function fail() {'',
     ''        if (done) return;'',
     ''        done = true;'',
     ''        st.textContent = '' @ [SQ] @ u8 [0xE8, 0xAF, 0xB7, 0xE6, 0xB1, 0x82, 0xE5, 0xA4, 0xB1, 0xE8, 0xB4, 0xA5] @ [SQ] @ '';'',
     ''        st.style.color = '#c00';'',
     ''      }'',
     ''      function attemptLocal() {'',
     ''        tries++;'',
     ''        fetch('/__set_refresh?secs=' + n, {cache: 'no-store'})'',
     ''          .then(function(r) { return r.json(); })'',
     ''          .then(finish)'',
     ''          .catch(function(e) {'',
     ''            // '' @ u8 [0xE9, 0x97, 0xA8, 0xE5, 0x8D, 0xAB, 0xE9, 0x87, 0x8D, 0xE7, 0x9B, 0x91, 0xE5, 0x90, 0xAC, 0xE9, 0x97, 0xB4, 0xE9, 0x9A, 0x99, 0xE6, 0x88, 0x96, 0xE7, 0xAB, 0xAF, 0xE5, 0x8F, 0xA3, 0xE5, 0xB7, 0xB2, 0xE7, 0xA7, 0xBB, 0xE4, 0xBA, 0xA4] @ '':'' @ u8 [0xE6, 0x9C, 0xAC, 0xE7, 0xAB, 0xAF, 0xE5, 0x8F, 0xA3, 0xE4, 0xB8, 0x8D, 0xE5, 0x8F, 0xAF, 0xE8, 0xBE, 0xBE] @ '','' @ u8 [0xE9, 0x87, 0x8D, 0xE8, 0xAF, 0x95, 0xE5, 0x90, 0x8E, 0xE6, 0x94, 0xB9, 0xE8, 0xB5, 0xB0, 0xE6, 0x8E, 0xA7, 0xE5, 0x88, 0xB6, 0xE7, 0xAB, 0xAF, 0xE5, 0x8F, 0xA3, 0xE4, 0xB8, 0x93, 0xE7, 0x94, 0xA8, 0xE9, 0x80, 0x9A, 0xE9, 0x81, 0x93],
     ''            if (tries < 3) setTimeout(attemptLocal, 400);'',
     ''            else attemptCtl();'',
     ''          });'',
     ''      }'',
     ''      function attemptCtl() {'',
     ''        if (!ctl.port) return fail();'',
     ''        var url = 'http://' + location.hostname + ':' + ctl.port'',
     ''          + '/__set_refresh?name=' + encodeURIComponent(ctl.name)'',
     ''          + '&listen=' + encodeURIComponent(ctl.listen)'',
     ''          + '&secs=' + n + '&token=' + encodeURIComponent(ctl.token);'',
     ''        fetch(url, {cache: 'no-store'}).then(function(r) { return r.json(); })'',
     ''          .then(finish)'',
     ''          .catch(fail);'',
     ''      }'',
     ''      attemptLocal();'',
     ''    }'',
     ''    function adjustRefresh(delta) {'',
     ''      var n = base + delta;'',
     ''      if (n > 3600) n = 3600;'',
     ''      if (n < 0) n = 0;'',
     ''      if (n === base) return;'',
     ''      setRefresh(n);'',
     ''    }'',
     ''  </script>'',
     ''</head>'',
     ''<body onload=\"tick()\">'']"

definition PAGE_BUTTONS :: string where
  "PAGE_BUTTONS = page_lines [
     ''  <div style=\"margin-top:10px\">'',
     ''    '' @ u8 [0xE5, 0xBF, 0xAB, 0xE9, 0x80, 0x9F, 0xE8, 0xB0, 0x83, 0xE6, 0x95, 0xB4, 0xE7, 0xAD, 0x89, 0xE5, 0xBE, 0x85, 0xE5, 0xBB, 0xB6, 0xE6, 0x97, 0xB6] @ '':'',
     ''    <button onclick=\"adjustRefresh(-5)\">-5'' @ u8 [0xE7, 0xA7, 0x92] @ ''</button>'',
     ''    <button onclick=\"adjustRefresh(-1)\">-1'' @ u8 [0xE7, 0xA7, 0x92] @ ''</button>'',
     ''    <button onclick=\"adjustRefresh(1)\">+1'' @ u8 [0xE7, 0xA7, 0x92] @ ''</button>'',
     ''    <button onclick=\"adjustRefresh(5)\">+5'' @ u8 [0xE7, 0xA7, 0x92] @ ''</button>'',
     ''    <button onclick=\"setRefresh(1)\">1'' @ u8 [0xE7, 0xA7, 0x92] @ ''</button>'',
     ''    <button onclick=\"setRefresh(5)\">5'' @ u8 [0xE7, 0xA7, 0x92] @ ''</button>'',
     ''    <button onclick=\"setRefresh(10)\">10'' @ u8 [0xE7, 0xA7, 0x92] @ ''</button>'',
     ''    <button onclick=\"setRefresh(30)\">30'' @ u8 [0xE7, 0xA7, 0x92] @ ''</button>'',
     ''    <button onclick=\"setRefresh(60)\">60'' @ u8 [0xE7, 0xA7, 0x92] @ ''</button>'',
     ''    <button onclick=\"setRefresh(0)\">'' @ u8 [0xE5, 0x81, 0x9C, 0xE7, 0x94, 0xA8] @ ''</button>'',
     ''    <span id=\"st\" style=\"margin-left:8px\"></span>'',
     ''  </div>'',
     ''</body>'',
     ''</html>'']"

definition page_meta :: "int \<Rightarrow> string" where
  "page_meta secs = (if 0 < secs then ''  <meta http-equiv=\"refresh\" content=\"'' @ to_string secs @ ''\">'' @ [NL] else [])"

definition page_countdown :: "int \<Rightarrow> string" where
  "page_countdown secs =
     (if 0 < secs then ''  <p id=\"cd\">'' @ to_string secs @ '' '' @ u8 [0xE7, 0xA7, 0x92, 0xE5, 0x90, 0x8E, 0xE8, 0x87, 0xAA, 0xE5, 0x8A, 0xA8, 0xE9, 0x87, 0x8D, 0xE8, 0xAF, 0x95] @ ''</p>'' @ [NL]
      else ''  <p id=\"cd\">'' @ u8 [0xE8, 0x87, 0xAA, 0xE5, 0x8A, 0xA8, 0xE9, 0x87, 0x8D, 0xE8, 0xAF, 0x95, 0xE5, 0xB7, 0xB2, 0xE5, 0x81, 0x9C, 0xE7, 0x94, 0xA8] @ ''</p>'' @ [NL])"

text \<open>The variables of the script.\<close>

definition page_vars :: "int \<Rightarrow> string \<Rightarrow> string \<Rightarrow> relay \<Rightarrow> string" where
  "page_vars secs ctlPort token r =
     ''    var secs = '' @ to_string secs @ '';'' @ [NL]
     @ ''    // '' @ u8 [0xE9, 0x85, 0x8D, 0xE7, 0xBD, 0xAE, 0xE5, 0x9F, 0xBA, 0xE5, 0x87, 0x86] @ ''('' @ u8 [0xE7, 0xA7, 0x92] @ ''):'' @ u8 [0xE6, 0x8C, 0x89, 0xE9, 0x92, 0xAE, 0xE5, 0xA2, 0x9E, 0xE5, 0x87, 0x8F, 0xE5, 0x9F, 0xBA, 0xE4, 0xBA, 0x8E, 0xE5, 0xAE, 0x83] @ '','' @ u8 [0xE8, 0x80, 0x8C, 0xE9, 0x9D, 0x9E, 0xE9, 0x9A, 0x8F] @ '' tick() '' @ u8 [0xE9, 0x80, 0x92, 0xE5, 0x87, 0x8F, 0xE7, 0x9A, 0x84, 0xE5, 0x89, 0xA9, 0xE4, 0xBD, 0x99, 0xE5, 0x80, 0x92, 0xE8, 0xAE, 0xA1, 0xE6, 0x97, 0xB6] @ '' secs'' @ [NL]
     @ ''    var base = '' @ to_string secs @ '';'' @ [NL]
     @ ''    var enabled = '' @ (if 0 < secs then ''true'' else ''false'') @ '';'' @ [NL]
     @ ''    var ctl = {port:'' @ [SQ] @ ctlPort @ [SQ] @ '', token:'' @ [SQ] @ token @ [SQ]
     @ '', name:'' @ [SQ] @ jsStrEscape (r_name r) @ [SQ] @ '', listen:'' @ [SQ] @ jsStrEscape (r_listenAddr r) @ [SQ] @ ''};'' @ [NL]"

text \<open>\<open>ctlListen\<close> is the address of the control server, \<open>token\<close> the refresh token.\<close>

definition buildWaitPageHtml :: "string \<Rightarrow> string \<Rightarrow> relay \<Rightarrow> string \<Rightarrow> string \<Rightarrow> string \<Rightarrow> string" where
  "buildWaitPageHtml ctlListen token r title heading desc =
     PAGE_OPEN @ page_meta (r_refreshSeconds r) @ ''  <title>'' @ title @ ''</title>'' @ [NL] @ ''  <script>'' @ [NL]
     @ page_vars (r_refreshSeconds r) (controlListenPort ctlListen) token r @ PAGE_SCRIPT
     @ ''  <h1>'' @ heading @ ''</h1>'' @ [NL] @ (if desc = [] then [] else ''  <p>'' @ desc @ ''</p>'' @ [NL])
     @ page_countdown (r_refreshSeconds r) @ PAGE_BUTTONS"

section \<open>The replies\<close>

definition html_reply :: "string \<Rightarrow> string \<Rightarrow> string" where
  "html_reply status html =
     ''HTTP/1.1 '' @ status @ CRLF @ ''Content-Type: text/html; charset=utf-8'' @ CRLF
     @ ''Content-Length: '' @ to_string (int (length html)) @ CRLF @ ''Connection: close'' @ CRLF @ CRLF @ html"

definition startup_html :: "string \<Rightarrow> string \<Rightarrow> relay \<Rightarrow> string" where
  "startup_html ctlListen token r =
     buildWaitPageHtml ctlListen token r (r_name r @ '' '' @ u8 [0xE5, 0x90, 0xAF, 0xE5, 0x8A, 0xA8, 0xE4, 0xB8, 0xAD])
       (r_name r @ '' '' @ u8 [0xE5, 0x90, 0xAF, 0xE5, 0x8A, 0xA8, 0xE4, 0xB8, 0xAD] @ ''...'') []"

definition buildStartupResponse :: "string \<Rightarrow> string \<Rightarrow> relay \<Rightarrow> string" where
  "buildStartupResponse ctlListen token r = html_reply ''200 OK'' (startup_html ctlListen token r)"

definition busy_html :: "string \<Rightarrow> string \<Rightarrow> relay \<Rightarrow> string" where
  "busy_html ctlListen token r =
     buildWaitPageHtml ctlListen token r
       (r_name r @ '' '' @ u8 [0xE8, 0xB5, 0x84, 0xE6, 0xBA, 0x90, 0xE4, 0xB8, 0x8D, 0xE8, 0xB6, 0xB3])
       (r_name r @ '' '' @ u8 [0xE8, 0xB5, 0x84, 0xE6, 0xBA, 0x90, 0xE4, 0xB8, 0x8D, 0xE8, 0xB6, 0xB3, 0xEF, 0xBC, 0x8C, 0xE6, 0x9A, 0x82, 0xE7, 0xBC, 0x93, 0xE5, 0x90, 0xAF, 0xE5, 0x8A, 0xA8])
       (u8 [0xE7, 0xB3, 0xBB, 0xE7, 0xBB, 0x9F, 0xE5, 0x86, 0x85, 0xE5, 0xAD, 0x98, 0xE6, 0x88, 0x96, 0xE4, 0xBA, 0xA4, 0xE6, 0x8D, 0xA2, 0xE5, 0x88, 0x86, 0xE5, 0x8C, 0xBA, 0xE5, 0x8D, 0xA0, 0xE7, 0x94, 0xA8, 0xE8, 0xBF, 0x87, 0xE9, 0xAB, 0x98, 0xEF, 0xBC, 0x8C, 0xE6, 0x9C, 0x8D, 0xE5, 0x8A, 0xA1, 0xE6, 0x9A, 0x82, 0xE7, 0xBC, 0x93, 0xE5, 0x90, 0xAF, 0xE5, 0x8A, 0xA8, 0xE3, 0x80, 0x82])"

definition buildResourceBusyResponse :: "string \<Rightarrow> string \<Rightarrow> relay \<Rightarrow> string" where
  "buildResourceBusyResponse ctlListen token r = html_reply ''503 Service Unavailable'' (busy_html ctlListen token r)"

text \<open>The reply of \<open>tryHandleRefreshRequest\<close>: \<open>ok\<close> is that the value is written to the file.\<close>

definition local_refresh_reply :: "bool \<Rightarrow> int \<Rightarrow> string" where
  "local_refresh_reply ok secs =
     (let body = (if ok then ''{\"ok\":true,\"refresh_seconds\":'' @ to_string secs @ ''}'' else ''{\"ok\":false,\"error\":\"persist failed\"}'')
      in ''HTTP/1.1 200 OK'' @ CRLF @ ''Content-Type: application/json; charset=utf-8'' @ CRLF
         @ ''Content-Length: '' @ to_string (int (length body)) @ CRLF @ ''Connection: close'' @ CRLF @ CRLF @ body)"

section \<open>What the script sends\<close>

text \<open>\<open>adjustRefresh\<close>, \<open>attemptLocal\<close> and \<open>attemptCtl\<close> of the script; \<open>ctl_name\<close> and \<open>ctl_listen\<close> are the values of its variables.\<close>

definition page_adjust :: "int \<Rightarrow> int \<Rightarrow> int" where
  "page_adjust base delta = (let n = base + delta; n1 = (if n > 3600 then 3600 else n) in if n1 < 0 then 0 else n1)"

definition local_path :: "int \<Rightarrow> string" where
  "local_path n = ''/__set_refresh?secs='' @ to_string n"

definition ctl_path :: "string \<Rightarrow> string \<Rightarrow> string \<Rightarrow> int \<Rightarrow> string" where
  "ctl_path token ctl_name ctl_listen n =
     ''/__set_refresh?name='' @ uri_encode ctl_name @ ''&listen='' @ uri_encode ctl_listen
     @ ''&secs='' @ to_string n @ ''&token='' @ uri_encode token"

section \<open>The page and the server understand each other\<close>

lemma page_adjust_range: "0 \<le> page_adjust base delta \<and> page_adjust base delta \<le> 3600"
  by (simp add: page_adjust_def Let_def)

text \<open>Two pages that differ in the name only, and two buttons with different values, send different requests.\<close>

lemma ctl_path_name: "ctl_path t nm li n = ctl_path t nm' li n \<longleftrightarrow> nm = nm'"
  using uris.enc_eq_iff [of nm nm'] by (simp add: ctl_path_def)

lemma local_path_value: "local_path (page_adjust b d) = local_path (page_adjust b' d') \<longleftrightarrow> page_adjust b d = page_adjust b' d'"
  using page_adjust_range [of b d] page_adjust_range [of b' d'] numbers.enc_eq_iff [of "page_adjust b d" "page_adjust b' d'"]
  by (simp add: local_path_def INT_MIN_def INT_MAX_def)

lemma uri_encode_number: "0 \<le> n \<Longrightarrow> uri_encode (to_string n) = to_string n"
proof -
  have "uri_encode ds = ds" if "list_all is_digit ds" for ds
    using that by (induction ds) (simp_all add: uri_encode_def uri_char_def uri_plain_def is_alnum_def)
  then show "0 \<le> n \<Longrightarrow> uri_encode (to_string n) = to_string n" by (simp add: to_string_def list_all_iff)
qed

lemma whole_long_number: "LONG_MIN \<le> n \<Longrightarrow> n \<le> LONG_MAX \<Longrightarrow> whole_long (to_string n) = Some n"
proof -
  assume n: "LONG_MIN \<le> n" "n \<le> LONG_MAX"
  have "c \<noteq> CHR 0x00" if "c \<in> set (to_string n)" for c using set_to_string [OF that] by (auto simp: is_digit_def)
  then have "cstr (to_string n) = to_string n" unfolding cstr_def by (simp add: takeWhile_eq_all_conv)
  moreover have "strtol (to_string n) = Some (n, [])"
    using scan_long_to_string [of "[]" n] n by (simp add: strtol_def)
  ultimately show "whole_long (to_string n) = Some n" by (simp add: whole_long_def)
qed

lemma ctl_path_query:
  assumes "0 \<le> n"
  shows "ctl_path token nm li n = ''/__set_refresh'' @ CHR ''?'' # query_text [(''name'', nm), (''listen'', li), (''secs'', to_string n), (''token'', token)]"
  using assms by (simp add: ctl_path_def query_pair_def uri_encode_number)

lemma ctl_values:
  assumes "0 \<le> n"
  shows "queryValue (ctl_path token nm li n) ''name'' = nm" "queryValue (ctl_path token nm li n) ''listen'' = li"
    "queryValue (ctl_path token nm li n) ''secs'' = to_string n" "queryValue (ctl_path token nm li n) ''token'' = token"
proof -
  have path: "CHR ''?'' \<notin> set ''/__set_refresh''" by simp
  have keys: "list_all (query_key \<circ> fst) [(''name'', nm), (''listen'', li), (''secs'', to_string n), (''token'', token)]"
    by (simp add: query_key_def)
  note q = queryValue_roundtrip [OF path keys]
  show "queryValue (ctl_path token nm li n) ''name'' = nm" "queryValue (ctl_path token nm li n) ''listen'' = li"
    "queryValue (ctl_path token nm li n) ''secs'' = to_string n" "queryValue (ctl_path token nm li n) ''token'' = token"
    unfolding ctl_path_query [OF assms] by (rule q; simp)+
qed

lemma digits_length: "n < 10 ^ Suc k \<Longrightarrow> length (nat_digits n) \<le> Suc k"
proof (induction k arbitrary: n)
  case (Suc k)
  show ?case
  proof (cases "n < 10")
    case False
    have "n div 10 < 10 ^ Suc k" using Suc.prems by (simp add: div_less_iff_less_mult)
    then show ?thesis using Suc.IH [of "n div 10"] False by (subst nat_digits.simps) simp
  qed (simp add: nat_digits.simps)
qed (simp add: nat_digits.simps)

lemma local_request:
  assumes "0 \<le> n" and "n \<le> 3600"
  shows "tryHandleRefreshRequest (''GET '' @ local_path n @ SP # rest) p2 r = Some (setRefreshSeconds n r)"
proof -
  have pre: "''GET '' @ local_path n @ SP # rest = REFRESH_PREFIX @ to_string n @ SP # rest"
    by (simp add: local_path_def REFRESH_PREFIX_def)
  have short: "length (to_string n) \<le> 4" using assms digits_length [of "nat n" 3] by (simp add: to_string_def)
  have t: "take 256 (REFRESH_PREFIX @ to_string n @ SP # rest) = REFRESH_PREFIX @ to_string n @ SP # take (231 - length (to_string n)) rest"
    using short by (simp add: REFRESH_PREFIX_def take_Cons')
  have v: "refresh_secs (REFRESH_PREFIX @ to_string n @ SP # take (231 - length (to_string n)) rest) = Some n"
    using refresh_request_value [of n "SP # take (231 - length (to_string n)) rest"] assms by (simp add: is_digit_def)
  show ?thesis unfolding tryHandleRefreshRequest_def pre using v t by (simp add: REFRESH_PREFIX_def Let_def)
qed

text \<open>
  C19: the buttons of the wait page work on both ways: the values the page's script reads from its literals are the relay's name and address, and for
  every button and every base the request it sends to the control server sets the refresh time of the first relay of that address to exactly the value the
  button computes, and the request it sends to the port itself sets it on the relay.
\<close>
theorem wait_page_buttons:
  assumes "js_read (jsStrEscape (r_name r) @ SQ # rest1) = Some nm" and "js_read (jsStrEscape (r_listenAddr r) @ SQ # rest2) = Some li"
    and "r_listenAddr r \<noteq> []" and "find (\<lambda>v. rv_listen v = r_listenAddr r) (en_relays env) = Some v" and "en_refreshToken env \<noteq> []"
    and "rq_method req = ''GET''" and "rq_path req = ctl_path (en_refreshToken env) nm li (page_adjust base delta)"
  shows "handle_parsed fmt env req = SetRefresh (rv_id v) (page_adjust base delta) \<and>
    tryHandleRefreshRequest (''GET '' @ local_path (page_adjust base delta) @ SP # rest) p2 r
      = Some (r\<lparr>r_refreshSeconds := page_adjust base delta\<rparr>, page_adjust base delta)"
proof -
  define n where "n = page_adjust base delta"
  have n: "0 \<le> n" "n \<le> 3600" using page_adjust_range by (simp_all add: n_def)
  have li: "li = r_listenAddr r" using assms(2) by (simp add: jsStrEscape_reads)
  note q = ctl_values [OF n(1), of "en_refreshToken env" nm li, folded n_def]
  have path: "rq_path req = ctl_path (en_refreshToken env) nm li n" using assms(7) by (simp add: n_def)
  have sw: "starts_with ''/__set_refresh?'' (rq_path req)" unfolding path ctl_path_query [OF n(1)] by simp
  have w: "whole_long (to_string n) = Some n" using n by (intro whole_long_number) (simp_all add: LONG_MIN_def LONG_MAX_def)
  have "handleRefresh env req = SetRefresh (rv_id v) n"
    unfolding handleRefresh_def path q Let_def using assms(3,4,5) n by (simp add: w find_relay_def li clamp3600_def)
  moreover have "handle_parsed fmt env req = handleRefresh env req" using assms(6) sw by (simp add: handle_parsed_def)
  moreover have "setRefreshSeconds n r = (r\<lparr>r_refreshSeconds := n\<rparr>, n)" using n by (simp add: setRefreshSeconds_def)
  ultimately show ?thesis using local_request [OF n] unfolding n_def [symmetric] by simp
qed

theorem wait_page_buttons_witness:
  "handle_parsed (\<lambda>_. []) sample_env (sample_req ''GET'' (ctl_path ''abc'' ''web'' '':80'' (page_adjust 3598 5)) None []) = SetRefresh 7 3600"
proof -
  let ?r = "(new_relay default_port 0)\<lparr>r_name := ''web'', r_listenAddr := '':80''\<rparr>"
  have "handle_parsed (\<lambda>_. []) sample_env (sample_req ''GET'' (ctl_path ''abc'' ''web'' '':80'' (page_adjust 3598 5)) None [])
      = SetRefresh (rv_id \<lparr>rv_id = 7, rv_name = ''web'', rv_listen = '':80'', rv_running = True\<rparr>) (page_adjust 3598 5)"
  proof (rule conjunct1 [OF wait_page_buttons [where r = ?r]])
    show "js_read (jsStrEscape (r_name ?r) @ SQ # []) = Some ''web''" "js_read (jsStrEscape (r_listenAddr ?r) @ SQ # []) = Some '':80''"
      by (simp_all add: jsStrEscape_reads)
  qed (simp_all add: sample_env_def sample_req_def)
  then show ?thesis by (simp add: page_adjust_def)
qed

section \<open>The pages are framed\<close>

definition html_fields :: "string \<Rightarrow> (string \<times> string) list" where
  "html_fields html = [(''Content-Type'', ''text/html; charset=utf-8''), (''Content-Length'', to_string (int (length html))), (''Connection'', ''close'')]"

lemma html_fields_good: "list_all good_header (html_fields html)" "html_fields html \<noteq> []"
  by (simp_all add: html_fields_def number_header) (simp_all add: good_header_def plain_text_def trim_def is_space_def)

lemma html_length: "header_map (html_fields html) (\<lambda>_. None) ''content-length'' = Some (to_string (int (length html)))"
proof -
  have lower: "map to_lower ''Content-Length'' = ''content-length''" "map to_lower ''Connection'' = ''connection''" by code_simp+
  show ?thesis by (simp only: html_fields_def header_map_def foldl.simps fst_conv snd_conv lower fun_upd_apply) simp
qed

lemma html_reply_reads:
  "read_response (html_reply ''200 OK'' html @ next_text) = Some (200, html, next_text)"
  "read_response (html_reply ''503 Service Unavailable'' html @ next_text) = Some (503, html, next_text)"
proof -
  have st: "to_string 200 = ''200''" "to_string 503 = ''503''" by code_simp+
  have f: "html_reply ''200 OK'' html = crlf_lines (status_line 200 ''OK'' # map header_text (html_fields html)) @ CRLF2 @ html"
    "html_reply ''503 Service Unavailable'' html = crlf_lines (status_line 503 ''Service Unavailable'' # map header_text (html_fields html)) @ CRLF2 @ html"
    by (simp_all add: html_reply_def html_fields_def status_line_def header_text_def CRLF_def CRLF2_def st)
  note fr = read_framed [OF html_fields_good html_length, where next_text = next_text]
  show "read_response (html_reply ''200 OK'' html @ next_text) = Some (200, html, next_text)"
    unfolding f append_assoc using fr [where reason = "''OK''" and st = 200] by (simp add: plain_text_def)
  show "read_response (html_reply ''503 Service Unavailable'' html @ next_text) = Some (503, html, next_text)"
    unfolding f append_assoc using fr [where reason = "''Service Unavailable''" and st = 503] by (simp add: plain_text_def)
qed

text \<open>
  The pages arrive whole: a client that follows the \<open>Content-Length\<close> gets the status 200 with the wait page, or 503 with the busy page, with the
  bytes of the page as its body, the multi-byte characters included, and what follows on the connection is left.
\<close>
theorem pages_framed:
  "read_response (buildStartupResponse c t r @ next_text) = Some (200, startup_html c t r, next_text) \<and>
    read_response (buildResourceBusyResponse c t r @ next_text) = Some (503, busy_html c t r, next_text)"
  unfolding buildStartupResponse_def buildResourceBusyResponse_def using html_reply_reads by blast

text \<open>What the escape leaves as it is: the end tag of the script.\<close>

lemma script_end_kept: "jsStrEscape ''</script>'' = ''</script>''"
  by code_simp

end
