(* ===== verification/GK_ServerLoop.thy ===== *)
theory GK_ServerLoop
  imports GK_Http GK_Address
begin

text \<open>
  The thread of the control server, \<open>serverLoop\<close> of \<open>control_server.cpp\<close>, with its start and its stop: the listening socket, the rounds
  of the accept loop, and the rate limit over whole runs of it. The answers of the system, the stop flag where
  the loop reads it, and what each client sends are arguments.
\<close>

section \<open>The listening socket\<close>

text \<open>The descriptor, or \<open>None\<close> when the loop returns before it begins; a socket that is opened and cannot be used is closed.\<close>

definition server_listen ::
    "(string \<Rightarrow> 'a option) \<Rightarrow> (('a, 'b) sockaddr \<Rightarrow> int) \<Rightarrow> (int \<Rightarrow> bool) \<Rightarrow> (int \<Rightarrow> bool) \<Rightarrow> (int \<Rightarrow> bool) \<Rightarrow> control_config \<Rightarrow> int option" where
  "server_listen pton4 sock binds listens nonblocks cfg =
     (case control_parseSockaddr pton4 (ct_listen cfg) of
        None \<Rightarrow> None
      | Some sa \<Rightarrow>
          let fd = sock sa
          in if fd < 0 then None else if \<not> binds fd then None else if \<not> listens fd then None else if \<not> nonblocks fd then None else Some fd)"

section \<open>The accept loop\<close>

text \<open>
  What a call of \<open>accept\<close> gives: a failure (whether its code is one of the two that mean that nobody is there, and the stop flag after it), or a client, with its
  address, the time of the limiter, what the server sees of the program, and its reads.
\<close>

datatype accept_event = AcceptFails bool bool | AcceptClient string int server_env "string list"

datatype server_act = Slept | Served string int outcome | Refused string int outcome

definition accept_client :: "(rat \<Rightarrow> string) \<Rightarrow> string \<Rightarrow> int \<Rightarrow> server_env \<Rightarrow> string list \<Rightarrow> rate_limiter \<Rightarrow> server_act \<times> rate_limiter" where
  "accept_client fmt ip now env reads rl =
     (let (o', rl') = serve_client fmt env ip now reads rl
      in (if fst (allow ip now rl) then Served ip now o' else Refused ip now o', rl'))"

text \<open>The rounds, each with the stop flag at the head of the loop.\<close>

fun server_rounds :: "(rat \<Rightarrow> string) \<Rightarrow> (bool \<times> accept_event) list \<Rightarrow> rate_limiter \<Rightarrow> server_act list \<times> rate_limiter" where
  "server_rounds fmt [] rl = ([], rl)"
| "server_rounds fmt ((stopped, ev) # rs) rl =
     (if stopped then ([], rl)
      else (case ev of
              AcceptFails nobody stop \<Rightarrow>
                if stop then ([], rl)
                else (let (acts, rl') = server_rounds fmt rs rl in (if nobody then Slept # acts else acts, rl'))
            | AcceptClient ip now env reads \<Rightarrow>
                (let (act, rl1) = accept_client fmt ip now env reads rl; (acts, rl2) = server_rounds fmt rs rl1 in (act # acts, rl2))))"

definition serverLoop :: "int option \<Rightarrow> (rat \<Rightarrow> string) \<Rightarrow> (bool \<times> accept_event) list \<Rightarrow> rate_limiter \<Rightarrow> server_act list \<times> rate_limiter" where
  "serverLoop listener fmt rs rl = (case listener of None \<Rightarrow> ([], rl) | Some fd \<Rightarrow> server_rounds fmt rs rl)"

section \<open>Start and stop\<close>

definition isEnabled :: "control_config \<Rightarrow> bool" where
  "isEnabled cfg \<longleftrightarrow> ct_listen cfg \<noteq> []"

record server_state =
  sv_stop :: bool
  sv_listenFd :: int
  sv_thread :: bool
  sv_streams :: "bool list"

text \<open>The threads are given by whether they are joinable; the acts are the descriptor closed and the threads joined, by their place.\<close>

datatype stop_act = CloseListener int | JoinLoop | JoinStream nat

definition server_stop :: "server_state \<Rightarrow> server_state \<times> stop_act list" where
  "server_stop s =
     (if sv_stop s then (s, [])
      else (s\<lparr>sv_stop := True, sv_streams := []\<rparr>,
            (if sv_listenFd s \<ge> 0 then [CloseListener (sv_listenFd s)] else [])
            @ (if sv_thread s then [JoinLoop] else [])
            @ map JoinStream (filter (\<lambda>i. sv_streams s ! i) [0..<length (sv_streams s)])))"

definition config_reply :: "reload_summary \<Rightarrow> string" where
  "config_reply s =
     (if rs_success s then
        json_response (''{\"result\":\"config accepted\",\"added\":'' @ to_string (int (length (rs_added s)))
          @ '',\"removed\":'' @ to_string (int (length (rs_removed s)))
          @ '',\"modified\":'' @ to_string (int (length (rs_modified s))) @ ''}'')
      else error_response 400 ''Invalid config'')"

section \<open>The rate limit over a run\<close>

fun served_times :: "string \<Rightarrow> server_act list \<Rightarrow> int list" where
  "served_times ip [] = []"
| "served_times ip (Served ip' now o' # acts) = (if ip' = ip then now # served_times ip acts else served_times ip acts)"
| "served_times ip (_ # acts) = served_times ip acts"

text \<open>The clock of the limiter does not go back.\<close>

fun clock_ok :: "int \<Rightarrow> (bool \<times> accept_event) list \<Rightarrow> bool" where
  "clock_ok t [] = True"
| "clock_ok t ((s, AcceptClient ip now env reads) # rs) = (t \<le> now \<and> clock_ok now rs)"
| "clock_ok t (_ # rs) = clock_ok t rs"

lemma served_spaced:
  "lim_inv mx w (rl, acc, t) \<Longrightarrow> clock_ok t rs \<Longrightarrow> server_rounds fmt rs rl = (acts, rl') \<Longrightarrow> spaced (nat mx) w (acc ip @ served_times ip acts)"
proof (induction rs arbitrary: rl acc t acts)
  case Nil
  then show ?case by (simp add: lim_inv_def)
next
  case (Cons r rs)
  obtain stopped ev where r: "r = (stopped, ev)" by (cases r) auto
  show ?case
  proof (cases "stopped \<or> (\<exists>nobody. ev = AcceptFails nobody True)")
    case True
    then have "acts = []" using Cons.prems(3) by (auto simp: r split: if_splits)
    then show ?thesis using Cons.prems(1) by (simp add: lim_inv_def)
  next
    case False
    show ?thesis
    proof (cases ev)
      case (AcceptFails nobody stop)
      then obtain acts1 where "server_rounds fmt rs rl = (acts1, rl')" "acts = (if nobody then Slept # acts1 else acts1)"
        using Cons.prems(3) False by (auto simp: r split: prod.splits)
      then show ?thesis using Cons.IH [OF Cons.prems(1)] Cons.prems(2) by (simp add: r AcceptFails)
    next
      case (AcceptClient ip1 now env reads)
      obtain ok rl1 where al: "allow ip1 now rl = (ok, rl1)" by (cases "allow ip1 now rl") auto
      have now: "t \<le> now" "clock_ok now rs" using Cons.prems(2) by (simp_all add: r AcceptClient)
      obtain act acts2 where a: "accept_client fmt ip1 now env reads rl = (act, rl1)" "server_rounds fmt rs rl1 = (acts2, rl')" "acts = act # acts2"
        using Cons.prems(3) False al by (auto simp: r AcceptClient accept_client_def serve_client_def split: prod.splits if_splits)
      have act: "\<exists>o'. act = (if ok then Served ip1 now o' else Refused ip1 now o')"
        using a(1) al by (auto simp: accept_client_def serve_client_def split: if_splits)
      have "lim_step (rl, acc, t) (ip1, nat (now - t)) = (rl1, if ok then acc(ip1 := acc ip1 @ [now]) else acc, now)"
        using now(1) al by (simp add: lim_step_def)
      then have inv: "lim_inv mx w (rl1, if ok then acc(ip1 := acc ip1 @ [now]) else acc, now)"
        using lim_inv_step [OF Cons.prems(1)] by metis
      from Cons.IH [OF inv now(2) a(2)] show ?thesis using act by (auto simp: a(3) split: if_splits)
    qed
  qed
qed

text \<open>
  C18: the rate limit over a run of the server: with whatever clients in whatever order, of the connections of one address that
  are served, any one and the one \<open>max_connections\<close> places later are at least the window apart; every other client of that
  address gets the 429 reply.
\<close>
theorem server_rate_limit:
  assumes "serverLoop (Some fd) fmt rs (setRateLimit mx secs rate_limiter0) = (acts, rl')" and "clock_ok t rs"
  shows "(\<forall>i. i + nat mx < length (served_times ip acts) \<longrightarrow> served_times ip acts ! (i + nat mx) - served_times ip acts ! i \<ge> secs * 1000) \<and>
    (\<forall>now o'. Refused ip now o' \<in> set acts \<longrightarrow> o' = Reply (error_response 429 ''Too Many Requests''))"
proof -
  have run: "server_rounds fmt rs (setRateLimit mx secs rate_limiter0) = (acts, rl')" using assms(1) by (simp add: serverLoop_def)
  have "lim_inv mx (secs * 1000) (setRateLimit mx secs rate_limiter0, (\<lambda>_. []), t)"
    by (simp add: lim_inv_def setRateLimit_def rate_limiter0_def spaced_def)
  from served_spaced [OF this assms(2) run, of ip] have "spaced (nat mx) (secs * 1000) (served_times ip acts)" by simp
  moreover have "Refused ip now o' \<in> set acts' \<Longrightarrow> server_rounds fmt rs rl = (acts', rl'') \<Longrightarrow> o' = Reply (error_response 429 ''Too Many Requests'')"
    for now o' acts' rs rl rl''
    by (induction fmt rs rl arbitrary: acts' rl'' rule: server_rounds.induct)
      (fastforce simp: accept_client_def serve_client_def split: if_splits accept_event.splits prod.splits)+
  ultimately show ?thesis using run by (auto simp: spaced_def)
qed

theorem server_rate_limit_witness:
  "\<exists>acts rl'. serverLoop (Some 3) (\<lambda>_. []) [(False, AcceptClient ''a'' 5 sample_env []), (False, AcceptClient ''a'' 10 sample_env []),
      (False, AcceptFails True False), (False, AcceptClient ''a'' 2000 sample_env [])] (setRateLimit 1 1 rate_limiter0) = (acts, rl') \<and>
     served_times ''a'' acts ! 1 - served_times ''a'' acts ! 0 \<ge> 1000"
proof -
  let ?rs = "[(False, AcceptClient ''a'' 5 sample_env []), (False, AcceptClient ''a'' 10 sample_env []),
      (False, AcceptFails True False), (False, AcceptClient ''a'' 2000 sample_env [])]"
  obtain acts rl' where run: "serverLoop (Some 3) (\<lambda>_. []) ?rs (setRateLimit 1 1 rate_limiter0) = (acts, rl')"
    by (cases "serverLoop (Some 3) (\<lambda>_. []) ?rs (setRateLimit 1 1 rate_limiter0)") auto
  then have "served_times ''a'' acts = [5, 2000]"
    by (auto simp: serverLoop_def accept_client_def serve_client_def allow_def setRateLimit_def rate_limiter0_def Let_def)
  moreover have "clock_ok 0 ?rs" by simp
  ultimately show ?thesis using server_rate_limit [OF run, of 0 "''a''"] run by auto
qed

lemma stop_once: "server_stop (fst (server_stop s)) = (fst (server_stop s), [])"
  by (simp add: server_stop_def)

end
