(* ===== verification/GK_Boot.thy ===== *)
theory GK_Boot
  imports GK_WaitPage GK_Start GK_RelayLoop GK_ServerLoop
begin

text \<open>
  What surrounds the objects of the program: the wait for a launched backend and the log line of a failed bind (\<open>relay.cpp\<close>), the threads that
  \<open>main\<close> starts and how it starts the control server and waits for its end (\<open>main.cpp\<close>), and the notification of the service
  manager (\<open>sd-daemon.h\<close>). Clocks, sockets and signals are arguments.
\<close>

section \<open>Waiting for a backend\<close>

text \<open>\<open>launchBackend\<close>, and the rounds of \<open>waitForBackend\<close>: whether a connection succeeds, and the milliseconds passed since the start; \<open>None\<close> while it waits.\<close>

definition launchBackend :: "(string list \<times> string list \<Rightarrow> int) \<Rightarrow> relay \<Rightarrow> int" where
  "launchBackend fork_result r = launchProcess fork_result (r_command r)"

fun wait_rounds :: "int \<Rightarrow> (bool \<times> int) list \<Rightarrow> bool option" where
  "wait_rounds ms [] = None"
| "wait_rounds ms ((reached, elapsed) # rs) = (if reached then Some True else if elapsed > ms then Some False else wait_rounds ms rs)"

definition waitForBackend :: "(string \<Rightarrow> 'a option) \<Rightarrow> (string \<Rightarrow> 'b option) \<Rightarrow> int \<Rightarrow> (bool \<times> int) list \<Rightarrow> relay \<Rightarrow> bool option" where
  "waitForBackend pton4 pton6 ms rounds r =
     (case parseSockaddr pton4 pton6 (r_listenAddr r) of None \<Rightarrow> Some False | Some sa \<Rightarrow> wait_rounds ms rounds)"

lemma wait_rounds_ends: "(reached, elapsed) \<in> set rs \<Longrightarrow> ms < elapsed \<Longrightarrow> wait_rounds ms rs \<noteq> None"
  by (induction ms rs rule: wait_rounds.induct) auto

lemma wait_rounds_true: "wait_rounds ms rs = Some True \<Longrightarrow> \<exists>k < length rs. fst (rs ! k) \<and> (\<forall>j < k. snd (rs ! j) \<le> ms)"
proof (induction ms rs rule: wait_rounds.induct)
  case (2 ms reached elapsed rs)
  show ?case
  proof (cases reached)
    case False
    then obtain k where "k < length rs" "fst (rs ! k)" "\<forall>j < k. snd (rs ! j) \<le> ms" using 2 by (auto split: if_splits)
    moreover have "elapsed \<le> ms" using 2(2) False by (simp split: if_splits)
    ultimately show ?thesis by (intro exI [of _ "Suc k"]) (auto simp: nth_Cons split: nat.splits)
  qed auto
qed simp

text \<open>
  The wait for a backend is bounded: once the clock has passed the delay it has an answer, and the answer is positive only when a
  connection succeeded in a round that began within the delay; without an address to connect to, it is negative at once.
\<close>
theorem backend_wait_bounded:
  assumes "(reached, elapsed) \<in> set rounds" and "ms < elapsed"
  shows "\<exists>b. waitForBackend pton4 pton6 ms rounds r = Some b \<and>
    (b \<longrightarrow> parseSockaddr pton4 pton6 (r_listenAddr r) \<noteq> None \<and> (\<exists>k < length rounds. fst (rounds ! k) \<and> (\<forall>j < k. snd (rounds ! j) \<le> ms)))"
  using wait_rounds_ends [OF assms] wait_rounds_true [of ms rounds]
  by (cases "wait_rounds ms rounds") (auto simp: waitForBackend_def split: option.splits)

theorem backend_wait_bounded_witness:
  "\<exists>b. waitForBackend (\<lambda>_. None :: nat option) (\<lambda>_. None :: nat option) 100 [(False, 0), (False, 50), (False, 101)] ((new_relay default_port 0)\<lparr>r_listenAddr := '':80''\<rparr>) = Some b"
  using backend_wait_bounded [of False 101 "[(False, 0), (False, 50), (False, 101)]" 100] by force

section \<open>The log line of a failed bind\<close>

datatype bind_error = NoPermission | AddressInUse | OtherError string

text \<open>\<open>occupant\<close> is what \<open>findProcessUsingPort\<close> returns.\<close>

definition bind_reason :: "bind_error \<Rightarrow> (nat \<Rightarrow> string) \<Rightarrow> relay \<Rightarrow> string" where
  "bind_reason err occupant r =
     (case err of
        NoPermission \<Rightarrow> u8 [0xE6, 0x9D, 0x83, 0xE9, 0x99, 0x90, 0xE4, 0xB8, 0x8D, 0xE8, 0xB6, 0xB3, 0xEF, 0xBC, 0x8C, 0xE9, 0x9C, 0x80, 0xE8, 0xA6, 0x81] @ '' CAP_NET_BIND_SERVICE''
      | AddressInUse \<Rightarrow>
          u8 [0xE7, 0xAB, 0xAF, 0xE5, 0x8F, 0xA3, 0xE8, 0xA2, 0xAB, 0xE5, 0x8D, 0xA0, 0xE7, 0x94, 0xA8]
          @ (if relay_port r > 0 \<and> occupant (nat (relay_port r)) \<noteq> [] then '' by '' @ occupant (nat (relay_port r)) else [])
      | OtherError s \<Rightarrow> s)"

definition logBindFailed :: "bind_error \<Rightarrow> (nat \<Rightarrow> string) \<Rightarrow> relay \<Rightarrow> string" where
  "logBindFailed err occupant r =
     ''  ['' @ r_name r @ ''] '' @ u8 [0xE7, 0xBB, 0x91, 0xE5, 0xAE, 0x9A] @ '' '' @ r_listenAddr r @ '' '' @ u8 [0xE5, 0xA4, 0xB1, 0xE8, 0xB4, 0xA5, 0xEF, 0xBC, 0x88]
     @ bind_reason err occupant r
     @ u8 [0xEF, 0xBC, 0x89, 0xEF, 0xBC, 0x8C] @ to_string (r_retrySeconds r)
     @ '' '' @ u8 [0xE7, 0xA7, 0x92, 0xE5, 0x90, 0x8E, 0xE9, 0x87, 0x8D, 0xE8, 0xAF, 0x95, 0xEF, 0xBC, 0x88, 0xE6, 0x9C, 0x80, 0xE5, 0xA4, 0xA7] @ '' ''
     @ to_string (r_retrySecondsMax r) @ '' '' @ u8 [0xE7, 0xA7, 0x92, 0xEF, 0xBC, 0x89]"

section \<open>The threads of the program\<close>

datatype program_thread = RelayThread nat relay_thread | ControlThread | MonitorThread | SamplerThread

definition any_monitor :: "port_config list \<Rightarrow> bool" where
  "any_monitor cfgs \<longleftrightarrow> list_ex (\<lambda>c. mo_enabled (pc_monitor c)) cfgs"

text \<open>In the order of \<open>main\<close>; \<open>cfgs\<close> is the configuration the program started with.\<close>

definition program_threads :: "port_config list \<Rightarrow> gatekeeper \<Rightarrow> control_config \<Rightarrow> system_monitor_config \<Rightarrow> program_thread list" where
  "program_threads cfgs st g sm =
     concat (map (\<lambda>(i, r). map (RelayThread i) (relay_start r)) (gk_relays st))
     @ (if isEnabled g then [ControlThread] else [])
     @ (if any_monitor cfgs then [MonitorThread] else [])
     @ (if sm_enabled sm then [SamplerThread] else [])"

definition is_listener :: "nat \<Rightarrow> program_thread \<Rightarrow> bool" where
  "is_listener i t \<longleftrightarrow> t \<in> {RelayThread i SimpleThread, RelayThread i MixedThread, RelayThread i Socks5Thread}"

lemma relay_listeners: "length (filter (is_listener i) (map (RelayThread j) (relay_start r))) = (if i = j then 1 else 0)"
  by (simp add: relay_start_def is_listener_def)

lemma objects_listeners:
  "distinct (map fst os) \<Longrightarrow> length (filter (is_listener i) (concat (map (\<lambda>(i, r). map (RelayThread i) (relay_start r)) os))) = (if i \<in> fst ` set os then 1 else 0)"
proof (induction os)
  case (Cons ob os)
  obtain j r where ob: "ob = (j, r)" by (cases ob) auto
  have "length (filter (is_listener i) (concat (map (\<lambda>(i, r). map (RelayThread i) (relay_start r)) (ob # os))))
      = (if i = j then 1 else 0) + (if i \<in> fst ` set os then 1 else 0)"
    using Cons relay_listeners [of i j r] by (simp only: ob list.map concat.simps prod.case filter_append length_append distinct.simps simp_thms)
  moreover have "j \<notin> fst ` set os" using Cons.prems by (simp add: ob)
  ultimately show ?case by (auto simp: ob)
qed simp

lemma program_listeners:
  "length (filter (is_listener i) (program_threads cfgs st g sm))
     = length (filter (is_listener i) (concat (map (\<lambda>(i, r). map (RelayThread i) (relay_start r)) (gk_relays st))))"
  by (simp add: program_threads_def is_listener_def)

text \<open>
  C32: a program that starts listens for every port of its configuration with exactly one thread, and with no thread for anything else; the monitor thread runs
  exactly when an entry is monitored, the sampler when it is enabled.
\<close>
theorem one_listener_each:
  assumes "main_start args files stdin now t1 t2 = Runs st g sm tok"
  shows "length (filter (is_listener i) (program_threads cfgs st g sm)) = (if i < gk_next st then 1 else 0) \<and>
    (MonitorThread \<in> set (program_threads cfgs st g sm) \<longleftrightarrow> any_monitor cfgs) \<and> (SamplerThread \<in> set (program_threads cfgs st g sm) \<longleftrightarrow> sm_enabled sm)"
proof -
  obtain cs where st: "gk_relays st = start_objects now cs" "gk_next st = length cs"
    using assms by (auto simp: main_start_def Let_def split: if_splits prod.splits option.splits)
  then have ids: "map fst (gk_relays st) = [0..<gk_next st]" by (simp add: start_objects_fst)
  have "fst ` set (gk_relays st) = {0..<gk_next st}" using arg_cong [OF ids, of set] by simp
  then show ?thesis using objects_listeners [of "gk_relays st" i] ids
    unfolding program_listeners by (auto simp: program_threads_def)
qed

theorem one_listener_each_witness:
  "\<exists>st g sm. main_start [''g.json''] start_files [] 0 ''refresh'' ''token'' = Runs st g sm ''refresh'' \<and>
     length (filter (is_listener 0) (program_threads [start_port] st g sm)) = 1 \<and> length (filter (is_listener 1) (program_threads [start_port] st g sm)) = 0"
proof -
  obtain st g sm where r: "main_start [''g.json''] start_files [] 0 ''refresh'' ''token'' = Runs st g sm ''refresh''" and n: "gk_next st = 1"
    by (rule start_runs)
  from one_listener_each [OF r, of 0 "[start_port]"] one_listener_each [OF r, of 1 "[start_port]"] r n show ?thesis by auto
qed

section \<open>Starting the control server\<close>

datatype control_msg = SevereOpen string | InterfaceAt string | AllInterfaces | TokenShown string | TokenLoaded | NoAuthentication

datatype control_start = ControlOff | ControlCrash | ControlUp "control_msg list"

text \<open>\<open>generated\<close> is that the token was made at this start. \<open>substr\<close> with a position past the end throws, and nothing catches it.\<close>

definition start_control :: "bool \<Rightarrow> control_config \<Rightarrow> control_start" where
  "start_control generated g =
     (if \<not> isEnabled g then ControlOff
      else let addr = ct_listen g; exposed = control_exposed addr; token = (ca_type (ct_auth g) = ''token'')
           in if exposed \<and> \<not> token \<and> find_char (CHR '':'') addr = None then ControlCrash
              else ControlUp ((if exposed \<and> \<not> token then [SevereOpen (drop (the (find_char (CHR '':'') addr)) addr)] else [])
                @ [InterfaceAt addr] @ (if exposed then [AllInterfaces] else [])
                @ [if token then (if generated then TokenShown (ca_token (ct_auth g)) else TokenLoaded) else NoAuthentication]))"

text \<open>
  A token from the configuration is not printed: what the start prints about the control server does not depend on it, and a token is
  printed only when it was made at this start.
\<close>
theorem configured_token_secret:
  "start_control False (g\<lparr>ct_auth := (ct_auth g)\<lparr>ca_token := t1\<rparr>\<rparr>) = start_control False (g\<lparr>ct_auth := (ct_auth g)\<lparr>ca_token := t2\<rparr>\<rparr>) \<and>
    start_control False g \<noteq> ControlUp (pre @ TokenShown t # post)"
proof
  show "start_control False (g\<lparr>ct_auth := (ct_auth g)\<lparr>ca_token := t1\<rparr>\<rparr>) = start_control False (g\<lparr>ct_auth := (ct_auth g)\<lparr>ca_token := t2\<rparr>\<rparr>)"
    by (simp add: start_control_def isEnabled_def)
  have "TokenShown t \<notin> set ms" if "start_control False g = ControlUp ms" for ms
    using that by (auto simp: start_control_def Let_def split: if_splits)
  then show "start_control False g \<noteq> ControlUp (pre @ TokenShown t # post)" by fastforce
qed

text \<open>An address for all interfaces without a port and without authentication ends the program with an exception, after the relays are started.\<close>

lemma control_start_crash:
  assumes "ca_type (ct_auth g) \<noteq> ''token''" and "ct_listen g = ''0.0.0.0''"
  shows "start_control generated g = ControlCrash"
  using assms by (simp add: start_control_def isEnabled_def control_exposed_def)

section \<open>Waiting for the end\<close>

text \<open>
  Where a signal meets the last loop of \<open>main\<close>: before the test of the flag, between the test and \<open>pause\<close>, or while it waits. A
  wait that has begun ends with the next signal only.
\<close>

datatype signal_point = BeforeTest | BeforePause | WhileWaiting

fun main_wait :: "signal_point list \<Rightarrow> bool" where
  "main_wait [] = False"
| "main_wait (BeforeTest # ps) = True"
| "main_wait (WhileWaiting # ps) = True"
| "main_wait (BeforePause # ps) = (ps \<noteq> [])"

lemma signal_lost: "main_wait [p] \<longleftrightarrow> p \<noteq> BeforePause"
  by (cases p) simp_all

section \<open>The service manager\<close>

text \<open>
  \<open>sd_notify\<close>: the value of \<open>NOTIFY_SOCKET\<close>, what \<open>socket\<close>, \<open>connect\<close> and \<open>write\<close> give (a negative value is the error code with its
  sign). The result, and whether the variable is removed. A path longer than the field is cut.
\<close>

definition sd_notify :: "bool \<Rightarrow> string option \<Rightarrow> string option \<Rightarrow> int \<Rightarrow> (string \<Rightarrow> int) \<Rightarrow> (string \<Rightarrow> int) \<Rightarrow> int \<times> bool" where
  "sd_notify unset state path sock connects writes =
     (case state of
        None \<Rightarrow> (- 1, False)
      | Some msg \<Rightarrow>
          (case path of
             None \<Rightarrow> (0, False)
           | Some p \<Rightarrow>
               if p = [] \<or> hd p \<noteq> CHR ''/'' then (0, False)
               else if sock < 0 then (sock, False)
               else if connects (take 107 p) < 0 then (connects (take 107 p), unset)
               else if writes msg < 0 then (writes msg, unset)
               else (1, unset)))"

lemma sd_notify_abstract: "sd_notify unset (Some m) (Some (CHR ''@'' # p)) sock connects writes = (0, False)"
  by (simp add: sd_notify_def)

end
