(* ===== verification/GK_System.thy ===== *)
theory GK_System
  imports GK_Serve GK_RelayLoopProps
begin

text \<open>
  The whole program as one transition system: the lists of relays with the monitor thread, the control server and the evictions of the sampler, and
  the listening thread of every relay with its program counter. It justifies the assumptions under which the threads were
  studied one by one: whatever another part of the program does to a relay is one of the changes \<open>relay_env\<close> lists, or
  it starts the relay's thread anew after the old one has ended.
\<close>

section \<open>The state\<close>

text \<open>
  Per object: the kind and the program counter of its listening thread, \<open>None\<close> when the thread is created and has not begun, and what it has
  done since. The victim is the relay an eviction holds outside the lists.
\<close>

record sys =
  sy_gk :: gatekeeper
  sy_victim :: "obj option"
  sy_pcs :: "nat \<Rightarrow> (relay_thread \<times> lpc) option"
  sy_tr :: "nat \<Rightarrow> lact list"

definition objects :: "sys \<Rightarrow> obj set" where
  "objects s = set (gk_relays (sy_gk s)) \<union> set (gk_pending (sy_gk s)) \<union> (case sy_victim s of None \<Rightarrow> {} | Some v \<Rightarrow> {v})"

definition loop_of :: "eviction_config \<Rightarrow> relay_thread \<Rightarrow> answers \<Rightarrow> lpc \<times> relay \<Rightarrow> (lpc \<times> relay) \<times> lact list" where
  "loop_of ec k = (case k of MixedThread \<Rightarrow> mixed_step ec | Socks5Thread \<Rightarrow> socks5_step | _ \<Rightarrow> simple_step ec)"

text \<open>How a thread begins; \<open>qs\<close> are the answers for the backends the hold-port mode starts with.\<close>

definition begin_thread :: "(int \<times> bool \<times> bool) list \<Rightarrow> relay \<Rightarrow> relay_thread \<times> lpc \<times> relay" where
  "begin_thread qs r = (let k = hd (relay_start r) in (k, if k = MixedThread then mixed_init qs r else (LTop, r)))"

text \<open>A relay is changed in place; a thread that is made anew has done nothing.\<close>

definition put_object :: "nat \<Rightarrow> relay \<Rightarrow> sys \<Rightarrow> sys" where
  "put_object i r' s =
     s\<lparr>sy_gk := (sy_gk s)\<lparr>gk_relays := touch i (\<lambda>_. r') (gk_relays (sy_gk s)), gk_pending := touch i (\<lambda>_. r') (gk_pending (sy_gk s))\<rparr>,
       sy_victim := map_option (\<lambda>v. (fst v, if fst v = i then r' else snd v)) (sy_victim s)\<rparr>"

definition anew :: "nat set \<Rightarrow> sys \<Rightarrow> sys" where
  "anew is s = s\<lparr>sy_pcs := (\<lambda>i. if i \<in> is then None else sy_pcs s i), sy_tr := (\<lambda>i. if i \<in> is then [] else sy_tr s i)\<rparr>"

text \<open>The thread of an object has ended, so that it can be joined.\<close>

definition joined :: "sys \<Rightarrow> nat \<Rightarrow> bool" where
  "joined s i \<longleftrightarrow> (\<exists>k. sy_pcs s i = Some (k, LDone))"

definition rearmed :: "gatekeeper \<Rightarrow> nat set" where
  "rearmed st = fst ` {ob \<in> set (gk_pending st). \<not> isBackendRunning (snd ob) \<and> r_autoRestart (snd ob)}"

section \<open>The steps\<close>

text \<open>\<open>evict\<close> up to the join of the thread.\<close>

definition evict_signal :: "(int \<Rightarrow> bool) \<Rightarrow> bool list \<Rightarrow> alive_poll list \<Rightarrow> alive_poll list \<Rightarrow> relay \<Rightarrow> relay" where
  "evict_signal alive bounds polls1 polls2 r =
     (let r1 = r\<lparr>r_evicted := True\<rparr>;
          r2 = (if r_backendPid r > 0 \<or> r_externalOccupied r then fst (gracefulStop bounds polls1 polls2 r1) else r1)
      in signalStop (r2\<lparr>r_backends := fst (evict_backends alive (r_backends r2))\<rparr>))"

lemma evict_split: "fst (evict alive bounds polls1 polls2 r) = resetForIdle (evict_signal alive bounds polls1 polls2 r)"
  by (simp add: evict_def evict_signal_def split_beta Let_def)

text \<open>
  The critical sections of the monitor thread, a reload, a refresh value, the three parts of an eviction (taking the victim out of the list, stopping its backend, joining its thread and putting
  it back), a thread that begins, a step of a listening thread, and a change by one of a relay's other threads.
\<close>

inductive sys_step :: "eviction_config \<Rightarrow> sys \<Rightarrow> sys \<Rightarrow> bool" for ec where
  sy_sample: "sys_step ec s (s\<lparr>sy_gk := sample_pass now query (sy_gk s)\<rparr>)"
| sy_idle: "sys_step ec s (s\<lparr>sy_gk := idle_pass now (sy_gk s)\<rparr>)"
| sy_pending: "(\<And>i. i \<in> rearmed (sy_gk s) \<Longrightarrow> joined s i) \<Longrightarrow>
    sys_step ec s (anew (rearmed (sy_gk s)) (s\<lparr>sy_gk := fst (pending_pass now (\<lambda>i. gracefulStop (bounds i) (polls1 i) (polls2 i)) (sy_gk s))\<rparr>))"
| sy_reload: "sys_step ec s (anew {gk_next (sy_gk s)..<gk_next (snd (reload_parsed now new (sy_gk s)))} (s\<lparr>sy_gk := snd (reload_parsed now new (sy_gk s))\<rparr>))"
| sy_refresh: "sys_step ec s (s\<lparr>sy_gk := snd (change_refresh wr i secs (sy_gk s))\<rparr>)"
| sy_take: "sy_victim s = None \<Longrightarrow> evict_take now rss (sy_gk s) = Some (v, st') \<Longrightarrow> sys_step ec s (s\<lparr>sy_gk := st', sy_victim := Some v\<rparr>)"
| sy_evict: "sy_victim s = Some (i, r) \<Longrightarrow> evict_signal alive bounds polls1 polls2 r = r' \<Longrightarrow> sys_step ec s (put_object i r' s)"
| sy_put: "sy_victim s = Some (i, r) \<Longrightarrow> joined s i \<Longrightarrow>
    sys_step ec s (anew {i} (s\<lparr>sy_gk := fst (evict_put alive (i, resetForIdle r) (sy_gk s)), sy_victim := None\<rparr>))"
| sy_begin: "(i, r) \<in> objects s \<Longrightarrow> sy_pcs s i = None \<Longrightarrow> begin_thread qs r = (k, pc, r') \<Longrightarrow>
    sys_step ec s ((put_object i r' s)\<lparr>sy_pcs := (sy_pcs s)(i \<mapsto> (k, pc))\<rparr>)"
| sy_own: "(i, r) \<in> objects s \<Longrightarrow> sy_pcs s i = Some (k, pc) \<Longrightarrow> loop_of ec k a (pc, r) = ((pc', r'), acts) \<Longrightarrow>
    sys_step ec s ((put_object i r' s)\<lparr>sy_pcs := (sy_pcs s)(i \<mapsto> (k, pc')), sy_tr := (sy_tr s)(i := sy_tr s i @ acts)\<rparr>)"
| sy_other: "(i, r) \<in> objects s \<Longrightarrow> relay_env r r' \<Longrightarrow> sys_step ec s (put_object i r' s)"

inductive sys_reach :: "eviction_config \<Rightarrow> sys \<Rightarrow> sys \<Rightarrow> bool" for ec s0 where
  sys_init: "sys_reach ec s0 s0"
| sys_next: "sys_reach ec s0 s \<Longrightarrow> sys_step ec s s' \<Longrightarrow> sys_reach ec s0 s'"

section \<open>What other parts do to a relay\<close>

abbreviation env_star :: "relay \<Rightarrow> relay \<Rightarrow> bool" where "env_star \<equiv> relay_env\<^sup>*\<^sup>*"

lemma env_one: "relay_env r r' \<Longrightarrow> env_star r r'"
  by blast

interpretation env_fd: step_rel relay_env "\<lambda>r. r_listenFd r < 0"
  by unfold_locales (use relay_env_keeps in fastforce)

lemma env_closed: "env_star r r' \<Longrightarrow> r_listenFd r < 0 \<Longrightarrow> r_listenFd r' < 0"
  by (rule env_fd.star_inv)

lemma env_reach: "env_star r r' \<Longrightarrow> loop_reach stp s0 (pc, r) tr \<Longrightarrow> loop_reach stp s0 (pc, r') tr"
  by (induction rule: rtranclp_induct) (auto intro: reach_env)

text \<open>A sample changes the fields of the sampling only; the relay counts as active when the query lists a connection.\<close>

lemma sample_shape:
  "\<exists>act t n c. fst (sample_one now query r) = updateActivity now act (r\<lparr>r_lastSampleTime := t, r_lastNonListen := n, r_logDedupCounter := c\<rparr>) \<and>
     (act \<longrightarrow> nonListen (query (relay_port r) (r_monitorIpv6 r)) > 0)"
proof -
  have same: "r = updateActivity now False (r\<lparr>r_lastSampleTime := r_lastSampleTime r, r_lastNonListen := r_lastNonListen r, r_logDedupCounter := r_logDedupCounter r\<rparr>)"
    by (simp add: updateActivity_def)
  define q where "q = r\<lparr>r_lastSampleTime := now\<rparr>"
  have q: "q = updateActivity now False (r\<lparr>r_lastSampleTime := now, r_lastNonListen := r_lastNonListen r, r_logDedupCounter := r_logDedupCounter r\<rparr>)"
    by (simp add: updateActivity_def q_def)
  have off: "fst (sample_one now query r) = r" if "\<not> monitorEnabled r \<or> now - r_lastSampleTime r < r_tcpMonitorInterval r"
    using that by (auto simp: sample_one_def)
  have no_port: "fst (sample_one now query r) = q" if "monitorEnabled r" "\<not> now - r_lastSampleTime r < r_tcpMonitorInterval r" "relay_port q \<le> 0"
    using that by (simp add: sample_one_def q_def)
  consider "fst (sample_one now query r) = r" | "fst (sample_one now query r) = q"
    | "monitorEnabled r" "\<not> now - r_lastSampleTime r < r_tcpMonitorInterval r" "\<not> relay_port q \<le> 0"
    using off no_port by blast
  then show ?thesis
  proof cases
    case 1
    then show ?thesis using same by metis
  next
    case 2
    then show ?thesis using q by metis
  next
    case 3
    define n where "n = nonListen (query (relay_port r) (r_monitorIpv6 r))"
    have n: "nonListen (query (relay_port q) (r_monitorIpv6 q)) = n" by (simp add: n_def q_def relay_port_def)
    obtain pr c where d: "dedup (r_logDedupMode r) (n = r_lastNonListen r) (r_logDedupCounter r) = (pr, c)" by fastforce
    have u: "r_logDedupMode (updateActivity now (n > 0) q) = r_logDedupMode r" "r_lastNonListen (updateActivity now (n > 0) q) = r_lastNonListen r"
      "r_logDedupCounter (updateActivity now (n > 0) q) = r_logDedupCounter r" by (simp_all add: updateActivity_def q_def)
    have "fst (sample_one now query r) = updateActivity now (n > 0)
        (r\<lparr>r_lastSampleTime := now, r_lastNonListen := (if pr then n else r_lastNonListen r), r_logDedupCounter := c\<rparr>)"
      using 3 unfolding sample_one_def q_def [symmetric] n Let_def u d prod.case if_False
      by (simp add: updateActivity_def q_def)
    then show ?thesis unfolding n_def by metis
  qed
qed

lemma sample_env: "env_star r (fst (sample_one now query r))"
  using sample_shape [of now query r]
  by (metis env_activity env_sampled converse_rtranclp_into_rtranclp r_into_rtranclp)

lemma evict_signal_env: "env_star r (evict_signal alive bounds polls1 polls2 r)"
proof -
  define q where "q = r\<lparr>r_evicted := True\<rparr>"
  define q2 where "q2 = (if r_backendPid r > 0 \<or> r_externalOccupied r then fst (gracefulStop bounds polls1 polls2 q) else q)"
  have "env_star r q" unfolding q_def by (rule env_one [OF env_evicted])
  moreover have "env_star q q2" unfolding q2_def using env_one [OF env_graceful] by simp
  moreover have "env_star q2 (q2\<lparr>r_backends := fst (evict_backends alive (r_backends q2))\<rparr>)" by (rule env_one [OF env_killed])
  moreover have "env_star (q2\<lparr>r_backends := fst (evict_backends alive (r_backends q2))\<rparr>) (evict_signal alive bounds polls1 polls2 r)"
    unfolding evict_signal_def Let_def q_def [symmetric] q2_def [symmetric] by (rule env_one [OF env_stop])
  ultimately show ?thesis by (meson rtranclp_trans)
qed

text \<open>An object of the new lists is one of the old ones, changed by the environment.\<close>

definition moved :: "obj set \<Rightarrow> obj \<Rightarrow> bool" where
  "moved os ob \<longleftrightarrow> (\<exists>r. (fst ob, r) \<in> os \<and> env_star r (snd ob))"

lemma moved_same: "ob \<in> os \<Longrightarrow> moved os ob"
  unfolding moved_def by (rule exI [of _ "snd ob"]) simp

lemma moved_env: "(i, r) \<in> os \<Longrightarrow> env_star r r' \<Longrightarrow> moved os (i, r')"
  unfolding moved_def by auto

lemma moved_mono: "moved os ob \<Longrightarrow> os \<subseteq> os' \<Longrightarrow> moved os' ob"
  unfolding moved_def by blast

lemma lists_objects: "set (gk_relays (sy_gk s)) \<union> set (gk_pending (sy_gk s)) \<subseteq> objects s"
  by (auto simp: objects_def)

lemma sample_moved: "ob \<in> set (gk_relays (sample_pass now query st)) \<Longrightarrow> moved (set (gk_relays st)) ob"
  by (auto simp: sample_pass_def intro!: moved_env sample_env)

lemma idle_loop_filter:
  "\<exists>g. idle_loop now rs pend gs =
     (filter (\<lambda>ob. \<not> idle_due now (snd ob)) rs,
      pend @ map (\<lambda>ob. (fst ob, setPendingRemoval (snd ob))) (filter (\<lambda>ob. idle_due now (snd ob)) rs), g)"
proof (induction now rs pend gs rule: idle_loop.induct)
  case (2 now i r rs pend gs)
  then show ?case by (cases "idle_due now r") auto
qed simp

lemma idle_loop_moved:
  assumes "idle_loop now rs pend gs = (kept, pend', gs')" and "ob \<in> set kept \<union> set pend'"
  shows "moved (set rs \<union> set pend) ob"
proof -
  have "ob \<in> set rs \<union> set pend \<or> (\<exists>x \<in> set rs. ob = (fst x, setPendingRemoval (snd x)))"
    using assms idle_loop_filter [of now rs pend gs] by auto
  then show ?thesis using moved_env [of _ _ "set rs \<union> set pend", OF _ env_one [OF env_remove]] by (auto intro: moved_same)
qed

lemma pending_moved:
  assumes "ob \<in> set (gk_relays (fst (pending_pass now (\<lambda>i. gracefulStop (b i) (p i) (q i)) st))) \<union> set (gk_pending (fst (pending_pass now (\<lambda>i. gracefulStop (b i) (p i) (q i)) st)))"
  shows "moved (set (gk_relays st) \<union> set (gk_pending st)) ob \<or>
    (\<exists>r. ob = (fst ob, resetForIdle r) \<and> fst ob \<in> rearmed st)"
proof -
  have stay: "moved (set (gk_relays st) \<union> set (gk_pending st)) (after_stop now (\<lambda>i. gracefulStop (b i) (p i) (q i)) (i, r))" if "(i, r) \<in> set (gk_pending st)" for i r
    using that env_one [OF env_graceful [of r "b i" "p i" "q i"]]
    by (auto simp: after_stop_def intro: moved_same moved_env)
  show ?thesis using assms unfolding pending_pass_def pending_loop_filter
    by (auto intro: moved_same stay simp: rearmed_def image_iff)
qed

lemma reload_moved:
  assumes "ob \<in> set (gk_relays (snd (reload_parsed now new st))) \<union> set (gk_pending (snd (reload_parsed now new st)))"
  shows "moved (set (gk_relays st) \<union> set (gk_pending st)) ob \<or> gk_next st \<le> fst ob \<and> fst ob < gk_next (snd (reload_parsed now new st)) \<and> r_listenFd (snd ob) < 0"
proof (cases "new = [] \<or> gk_reloading st")
  case True
  then have "snd (reload_parsed now new st) = st" by (auto simp: reload_parsed_def reloadConfig_def)
  then show ?thesis using assms by (auto intro: moved_same)
next
  case False
  have ret: "moved (set (gk_relays st) \<union> set (gk_pending st)) (i, setPendingRemoval r)" if "(i, r) \<in> set (gk_relays st)" for i r
    using that by (intro moved_env [of i r]) (auto intro: env_one [OF env_remove])
  have new_obj: "n \<le> fst x \<and> fst x < n + length cs \<and> r_listenFd (snd x) < 0" if x: "x \<in> set (zip [n..<n + length cs] (map (\<lambda>c. new_relay c now) cs))" for x n cs
  proof -
    obtain j where j: "j < length cs" "n + j = fst x" "new_relay (cs ! j) now = snd x" using x by (auto simp: in_set_zip)
    have "r_listenFd (snd x) = - 1" unfolding j(3) [symmetric] by simp
    then show ?thesis using j(1,2) by simp
  qed
  show ?thesis using assms False
    by (auto simp: reload_parsed_def reloadConfig_def Let_def add_relays_list intro: moved_same ret dest: new_obj simp del: upt_Suc)
qed

lemma refresh_moved:
  assumes "distinct (map fst (gk_relays st))"
    and "ob \<in> set (gk_relays (snd (change_refresh wr i secs st))) \<union> set (gk_pending (snd (change_refresh wr i secs st)))"
  shows "moved (set (gk_relays st) \<union> set (gk_pending st)) ob"
proof (cases "map_of (gk_relays st) i")
  case None
  then show ?thesis using assms(2) by (auto simp: change_refresh_def intro: moved_same)
next
  case (Some r)
  have r: "(i, r) \<in> set (gk_relays st)" using Some by (rule map_of_SomeD)
  obtain q s where q: "setRefreshSeconds secs r = (q, s)" by fastforce
  then have e: "env_star r q" using env_one [OF env_refresh [of r secs]] by simp
  have "gk_relays (snd (change_refresh wr i secs st)) = touch i (\<lambda>_. q) (gk_relays st)" "gk_pending (snd (change_refresh wr i secs st)) = gk_pending st"
    by (simp_all add: change_refresh_def Some q persistRefreshSeconds_def Let_def)
  then show ?thesis using assms(2) r e by (auto simp: touch_def intro: moved_same moved_env split: if_splits)
qed

section \<open>The invariant\<close>

definition thread_ok :: "eviction_config \<Rightarrow> sys \<Rightarrow> obj \<Rightarrow> bool" where
  "thread_ok ec s ob =
     (case sy_pcs s (fst ob) of
        None \<Rightarrow> sy_tr s (fst ob) = [] \<and> r_listenFd (snd ob) < 0
      | Some (k, pc) \<Rightarrow> \<exists>s0. fd_inv s0 \<and> loop_reach (loop_of ec k) s0 (pc, snd ob) (sy_tr s (fst ob)))"

definition sys_inv :: "eviction_config \<Rightarrow> sys \<Rightarrow> bool" where
  "sys_inv ec s \<longleftrightarrow> own_inv (sy_gk s, sy_victim s) \<and> (\<forall>ob \<in> objects s. thread_ok ec s ob)"

lemma objects_ids: "fst ` objects s = set (owned (sy_gk s, sy_victim s))"
  by (auto simp: objects_def owned_def split: option.splits)

lemma own_unique:
  assumes "own_inv (sy_gk s, sy_victim s)" and "(i, r) \<in> objects s" and "(i, q) \<in> objects s"
  shows "r = q"
proof -
  define os where "os = gk_relays (sy_gk s) @ gk_pending (sy_gk s) @ (case sy_victim s of None \<Rightarrow> [] | Some v \<Rightarrow> [v])"
  have "map fst os = owned (sy_gk s, sy_victim s)" by (cases "sy_victim s") (simp_all add: owned_def os_def)
  then have "distinct (map fst os)" using assms(1) by (simp add: own_inv_def)
  moreover have "set os = objects s" by (auto simp: os_def objects_def split: option.splits)
  ultimately show ?thesis using assms(2,3) by (metis eq_key_imp_eq_value)
qed

lemma own_lt: "own_inv (sy_gk s, sy_victim s) \<Longrightarrow> (i, r) \<in> objects s \<Longrightarrow> i < gk_next (sy_gk s)"
  using objects_ids [of s] unfolding own_inv_def by (metis fst_conv image_eqI)

lemma thread_moved:
  assumes "\<And>ob. ob \<in> objects s \<Longrightarrow> thread_ok ec s ob" and "moved (objects s) ob"
    and "sy_pcs s' (fst ob) = sy_pcs s (fst ob)" and "sy_tr s' (fst ob) = sy_tr s (fst ob)"
  shows "thread_ok ec s' ob"
proof -
  obtain r where r: "(fst ob, r) \<in> objects s" "env_star r (snd ob)" using assms(2) by (auto simp: moved_def)
  have ok: "thread_ok ec s (fst ob, r)" using assms(1) r(1) by blast
  show ?thesis
  proof (cases "sy_pcs s (fst ob)")
    case None
    then show ?thesis using ok env_closed [OF r(2)] by (simp add: thread_ok_def assms(3,4))
  next
    case (Some x)
    then show ?thesis using ok env_reach [OF r(2)] by (cases x) (simp add: thread_ok_def assms(3,4), blast)
  qed
qed

text \<open>A step that moves all objects and keeps the threads keeps the invariant.\<close>

lemma inv_moved:
  assumes "sys_inv ec s" and "own_inv (sy_gk s', sy_victim s')" and "sy_pcs s' = sy_pcs s" and "sy_tr s' = sy_tr s"
    and "\<And>ob. ob \<in> objects s' \<Longrightarrow> moved (objects s) ob"
  shows "sys_inv ec s'"
  using assms thread_moved [of s ec _ s'] by (auto simp: sys_inv_def)

text \<open>A step that also makes threads anew: those objects are closed.\<close>

lemma inv_anew:
  assumes "sys_inv ec s" and "own_inv (sy_gk s', sy_victim s')" and "sy_pcs s' = sy_pcs s" and "sy_tr s' = sy_tr s"
    and "\<And>ob. ob \<in> objects s' \<Longrightarrow> fst ob \<notin> is \<Longrightarrow> moved (objects s) ob"
    and "\<And>ob. ob \<in> objects s' \<Longrightarrow> fst ob \<in> is \<Longrightarrow> r_listenFd (snd ob) < 0"
  shows "sys_inv ec (anew is s')"
proof -
  have same: "objects (anew is s') = objects s'" "sy_gk (anew is s') = sy_gk s'" "sy_victim (anew is s') = sy_victim s'"
    by (simp_all add: anew_def objects_def)
  have "thread_ok ec (anew is s') ob" if "ob \<in> objects s'" for ob
  proof (cases "fst ob \<in> is")
    case True
    then show ?thesis using assms(6) that by (simp add: thread_ok_def anew_def)
  next
    case False
    have "\<And>ob. ob \<in> objects s \<Longrightarrow> thread_ok ec s ob" using assms(1) by (simp add: sys_inv_def)
    then show ?thesis by (rule thread_moved [OF _ assms(5) [OF that False]]) (simp_all add: anew_def False assms(3,4))
  qed
  then show ?thesis using assms(2) by (simp add: sys_inv_def same)
qed

lemma put_objects:
  "ob \<in> objects (put_object i r' s) \<Longrightarrow> ob = (i, r') \<or> fst ob \<noteq> i \<and> ob \<in> objects s"
  by (auto simp: put_object_def objects_def touch_def split: option.splits if_splits)

lemma put_owned: "own_inv (sy_gk s, sy_victim s) \<Longrightarrow> own_inv (sy_gk (put_object i r' s), sy_victim (put_object i r' s))"
  by (rule own_inv_same, assumption) (simp_all add: put_object_def owned_def split: option.splits)

lemma put_inv:
  assumes "sys_inv ec s" and "moved (objects s) (i, r')"
  shows "sys_inv ec (put_object i r' s)"
proof (rule inv_moved [OF assms(1)])
  show "own_inv (sy_gk (put_object i r' s), sy_victim (put_object i r' s))" using assms(1) by (simp add: sys_inv_def put_owned)
  show "moved (objects s) ob" if "ob \<in> objects (put_object i r' s)" for ob
    using put_objects [OF that] assms(2) moved_same by blast
qed (simp_all add: put_object_def)

text \<open>A step of one thread: its own object is as the loop leaves it, the other threads are where they were.\<close>

lemma inv_thread:
  assumes "sys_inv ec s" and "sy_gk s' = sy_gk (put_object i r' s)" and "sy_victim s' = sy_victim (put_object i r' s)"
    and "thread_ok ec s' (i, r')" and "\<And>j. j \<noteq> i \<Longrightarrow> sy_pcs s' j = sy_pcs s j \<and> sy_tr s' j = sy_tr s j"
  shows "sys_inv ec s'"
proof -
  have ob: "objects s' = objects (put_object i r' s)" by (simp add: objects_def assms(2,3))
  have "thread_ok ec s' ob" if "ob \<in> objects s'" for ob
  proof (cases "ob = (i, r')")
    case True
    then show ?thesis using assms(4) by simp
  next
    case False
    then have ne: "fst ob \<noteq> i" and "ob \<in> objects s" using put_objects that unfolding ob by blast+
    then have "thread_ok ec s ob" using assms(1) by (simp add: sys_inv_def)
    then show ?thesis using assms(5) [OF ne] by (simp add: thread_ok_def split: option.splits prod.splits)
  qed
  then show ?thesis using assms(1) by (simp add: sys_inv_def assms(2,3) put_owned)
qed

section \<open>Every step keeps it\<close>

lemma mixed_init_fd: "r_listenFd (snd (mixed_init qs r)) = r_listenFd r"
proof -
  have "r_listenFd (fst (launch_protocols qs q bs)) = r_listenFd q" for qs q bs
    by (induction qs q bs rule: launch_protocols.induct) (auto simp: launchProtocolBackend_def Let_def split: prod.splits if_splits)
  then have "launch_protocols qs q bs = (q', bs') \<Longrightarrow> r_listenFd q' = r_listenFd q" for qs q bs q' bs' by (metis fst_conv)
  from this [of qs "(init_backends r)\<lparr>r_launchOnStart := False\<rparr>" "r_backends (init_backends r)"] show ?thesis
    by (auto simp: mixed_init_def Let_def split: prod.splits) (simp_all add: init_backends_def)
qed

lemma begin_fd: "begin_thread qs r = (k, pc, r') \<Longrightarrow> r_listenFd r' = r_listenFd r"
  using mixed_init_fd [of qs r] by (auto simp: begin_thread_def Let_def split: if_splits)

lemma step_owned:
  assumes "sys_step ec s s'" and "own_inv (sy_gk s, sy_victim s)"
  shows "own_inv (sy_gk s', sy_victim s')"
  using assms
proof (induction rule: sys_step.induct)
  case (sy_sample s now query)
  then show ?case using owning.step_inv [of "(sy_gk s, sy_victim s)" "Sampling now query"] by simp
next
  case (sy_idle s now)
  then show ?case using owning.step_inv [of "(sy_gk s, sy_victim s)" "Idling now"] by simp
next
  case (sy_pending s now bounds polls1 polls2)
  then show ?case using owning.step_inv [of "(sy_gk s, sy_victim s)" "Pending now (\<lambda>i. gracefulStop (bounds i) (polls1 i) (polls2 i))"] by (simp add: anew_def)
next
  case (sy_reload s now new)
  then show ?case using owning.step_inv [of "(sy_gk s, sy_victim s)" "ReloadWith now new"] by (simp add: anew_def)
next
  case (sy_refresh s wr i secs)
  then show ?case
    by (intro own_inv_same [OF sy_refresh]) (auto simp: owned_def change_refresh_def persistRefreshSeconds_def Let_def split: option.split prod.split)
next
  case (sy_take s now rss v st')
  then show ?case using owning.step_inv [of "(sy_gk s, sy_victim s)" "TakeVictim now rss"] by simp
next
  case (sy_put s i r alive)
  then show ?case using owning.step_inv [of "(sy_gk s, sy_victim s)" "PutVictim alive resetForIdle"] by (simp add: anew_def)
qed (simp_all add: put_owned)

lemma step_inv:
  assumes "sys_step ec s s'" and "sys_inv ec s"
  shows "sys_inv ec s'"
  using assms
proof (induction rule: sys_step.induct)
  case (sy_sample s now query)
  have own: "own_inv (sy_gk s, sy_victim s)" using sy_sample by (simp add: sys_inv_def)
  have "moved (objects s) ob" if "ob \<in> objects (s\<lparr>sy_gk := sample_pass now query (sy_gk s)\<rparr>)" for ob
    using that sample_moved [of ob now query "sy_gk s"] by (auto simp: objects_def intro: moved_same elim: moved_mono)
  then show ?case using step_owned [OF sys_step.sy_sample own] by (intro inv_moved [OF sy_sample]) simp_all
next
  case (sy_idle s now)
  have own: "own_inv (sy_gk s, sy_victim s)" using sy_idle by (simp add: sys_inv_def)
  obtain kept pend gs where l: "idle_loop now (gk_relays (sy_gk s)) (gk_pending (sy_gk s)) (gk_groups (sy_gk s)) = (kept, pend, gs)" by (metis prod.exhaust)
  have "moved (objects s) ob" if "ob \<in> objects (s\<lparr>sy_gk := idle_pass now (sy_gk s)\<rparr>)" for ob
    using that idle_loop_moved [OF l, of ob] l by (auto simp: objects_def idle_pass_def intro: moved_same elim: moved_mono)
  then show ?case using step_owned [OF sys_step.sy_idle own] by (intro inv_moved [OF sy_idle]) simp_all
next
  case (sy_pending s now bounds polls1 polls2)
  let ?st = "sy_gk s" and ?f = "\<lambda>i. gracefulStop (bounds i) (polls1 i) (polls2 i)"
  let ?s' = "s\<lparr>sy_gk := fst (pending_pass now ?f ?st)\<rparr>"
  have own: "own_inv (sy_gk s, sy_victim s)" using sy_pending by (simp add: sys_inv_def)
  have own': "own_inv (sy_gk ?s', sy_victim ?s')" using step_owned [OF sys_step.sy_pending own, OF sy_pending(1)] by (simp add: anew_def)
  have mv: "moved (objects s) ob \<or> (\<exists>r. ob = (fst ob, resetForIdle r) \<and> fst ob \<in> rearmed ?st)" if "ob \<in> objects ?s'" for ob
  proof (cases "sy_victim s = Some ob")
    case True
    then show ?thesis by (auto simp: objects_def intro: moved_same)
  next
    case False
    then have "ob \<in> set (gk_relays (fst (pending_pass now ?f ?st))) \<union> set (gk_pending (fst (pending_pass now ?f ?st)))"
      using that by (auto simp: objects_def split: option.splits)
    from pending_moved [OF this] show ?thesis using moved_mono [OF _ lists_objects] by blast
  qed
  have again: "\<exists>r. (i, resetForIdle r) \<in> objects ?s'" if "i \<in> rearmed ?st" for i
    using that by (force simp: rearmed_def objects_def pending_pass_def pending_loop_filter)
  show ?case
  proof (rule inv_anew [OF sy_pending(2) own'])
    show "moved (objects s) ob" if "ob \<in> objects ?s'" "fst ob \<notin> rearmed ?st" for ob using mv [OF that(1)] that(2) by blast
    show "r_listenFd (snd ob) < 0" if o: "ob \<in> objects ?s'" and j: "fst ob \<in> rearmed ?st" for ob
    proof -
      obtain r where "(fst ob, resetForIdle r) \<in> objects ?s'" using again [OF j] by blast
      then have "snd ob = resetForIdle r" using own_unique [OF own', of "fst ob" "snd ob"] o by simp
      then show ?thesis by (simp add: resetForIdle_def)
    qed
  qed simp_all
next
  case (sy_reload s now new)
  let ?st' = "snd (reload_parsed now new (sy_gk s))"
  let ?s' = "s\<lparr>sy_gk := ?st'\<rparr>"
  have own: "own_inv (sy_gk s, sy_victim s)" using sy_reload by (simp add: sys_inv_def)
  have own': "own_inv (sy_gk ?s', sy_victim ?s')" using step_owned [OF sys_step.sy_reload own] by (simp add: anew_def)
  have mv: "moved (objects s) ob \<or> gk_next (sy_gk s) \<le> fst ob \<and> fst ob < gk_next ?st' \<and> r_listenFd (snd ob) < 0" if "ob \<in> objects ?s'" for ob
  proof (cases "sy_victim s = Some ob")
    case True
    then show ?thesis by (auto simp: objects_def intro: moved_same)
  next
    case False
    then have "ob \<in> set (gk_relays ?st') \<union> set (gk_pending ?st')" using that by (auto simp: objects_def split: option.splits)
    from reload_moved [OF this] show ?thesis using moved_mono [OF _ lists_objects] by blast
  qed
  show ?case
  proof (rule inv_anew [OF sy_reload own'])
    show "moved (objects s) ob" if "ob \<in> objects ?s'" "fst ob \<notin> {gk_next (sy_gk s)..<gk_next ?st'}" for ob using mv [OF that(1)] that(2) by auto
    show "r_listenFd (snd ob) < 0" if "ob \<in> objects ?s'" "fst ob \<in> {gk_next (sy_gk s)..<gk_next ?st'}" for ob
    proof -
      have "\<not> moved (objects s) ob" using own_lt [OF own] that(2) by (fastforce simp: moved_def)
      then show ?thesis using mv [OF that(1)] by blast
    qed
  qed simp_all
next
  case (sy_refresh s wr i secs)
  have own: "own_inv (sy_gk s, sy_victim s)" using sy_refresh by (simp add: sys_inv_def)
  then have d: "distinct (map fst (gk_relays (sy_gk s)))" by (simp add: own_inv_def owned_def)
  have "moved (objects s) ob" if "ob \<in> objects (s\<lparr>sy_gk := snd (change_refresh wr i secs (sy_gk s))\<rparr>)" for ob
    using that refresh_moved [OF d, of ob wr i secs] by (auto simp: objects_def intro: moved_same elim: moved_mono)
  then show ?case using step_owned [OF sys_step.sy_refresh own] by (intro inv_moved [OF sy_refresh]) simp_all
next
  case (sy_take s now rss v st')
  have own: "own_inv (sy_gk s, sy_victim s)" using sy_take by (simp add: sys_inv_def)
  have "objects (s\<lparr>sy_gk := st', sy_victim := Some v\<rparr>) \<subseteq> objects s"
  proof -
    from sy_take(2) obtain k where k: "choose_victim now (map (candidate_of rss \<circ> snd) (gk_relays (sy_gk s))) = Some k"
      "v = gk_relays (sy_gk s) ! k" "st' = (sy_gk s)\<lparr>gk_relays := take k (gk_relays (sy_gk s)) @ drop (Suc k) (gk_relays (sy_gk s))\<rparr>"
      by (auto simp: evict_take_def split: option.splits)
    then have "k < length (gk_relays (sy_gk s))" using choose_victim_Some by (fastforce simp: best_among_def)
    then show ?thesis using k by (auto simp: objects_def dest: in_set_takeD in_set_dropD)
  qed
  then show ?case using step_owned [OF sys_step.sy_take [OF sy_take(1,2)] own] by (intro inv_moved [OF sy_take(3)]) (auto intro: moved_same)
next
  case (sy_evict s i r alive bounds polls1 polls2 r')
  have "(i, r) \<in> objects s" using sy_evict(1) by (simp add: objects_def)
  then have "moved (objects s) (i, r')" using evict_signal_env sy_evict(2) by (auto intro: moved_env)
  then show ?case by (rule put_inv [OF sy_evict(3)])
next
  case (sy_put s i r alive)
  let ?s' = "s\<lparr>sy_gk := fst (evict_put alive (i, resetForIdle r) (sy_gk s)), sy_victim := None\<rparr>"
  have own: "own_inv (sy_gk s, sy_victim s)" using sy_put by (simp add: sys_inv_def)
  have own': "own_inv (sy_gk ?s', sy_victim ?s')" using step_owned [OF sys_step.sy_put [OF sy_put(1,2)] own] by (simp add: anew_def)
  have o': "ob \<in> set (gk_relays (sy_gk s)) \<union> set (gk_pending (sy_gk s)) \<or> ob = (i, resetForIdle r)" if "ob \<in> objects ?s'" for ob
    using that by (auto simp: objects_def evict_put_def split: if_splits)
  have ni: "fst ob \<noteq> i" if "ob \<in> set (gk_relays (sy_gk s)) \<union> set (gk_pending (sy_gk s))" for ob
    using own that by (auto simp: own_inv_def owned_def sy_put(1))
  show ?case
  proof (rule inv_anew [OF sy_put(3) own'])
    show "moved (objects s) ob" if "ob \<in> objects ?s'" "fst ob \<notin> {i}" for ob
      using o' [OF that(1)] that(2) by (auto simp: objects_def intro: moved_same)
    show "r_listenFd (snd ob) < 0" if "ob \<in> objects ?s'" "fst ob \<in> {i}" for ob
    proof -
      have "ob = (i, resetForIdle r)" using o' [OF that(1)] that(2) ni [of ob] by blast
      then show ?thesis by (simp add: resetForIdle_def)
    qed
  qed simp_all
next
  case (sy_begin i r s qs k pc r')
  have ok: "sy_tr s i = []" "r_listenFd r < 0" using sy_begin by (fastforce simp: sys_inv_def thread_ok_def)+
  let ?s' = "(put_object i r' s)\<lparr>sy_pcs := (sy_pcs s)(i \<mapsto> (k, pc))\<rparr>"
  have "fd_inv (pc, r')" using ok(2) begin_fd [OF sy_begin(3)] by (simp add: fd_inv_def)
  then have "thread_ok ec ?s' (i, r')" using reach_start [of "loop_of ec k" "(pc, r')"] ok(1)
    by (auto simp: thread_ok_def put_object_def)
  then show ?case by (rule inv_thread [OF sy_begin(4), where i = i and r' = r', rotated 2]) (simp_all add: put_object_def)
next
  case (sy_own i r s k pc a pc' r' acts)
  obtain s0 where s0: "fd_inv s0" "loop_reach (loop_of ec k) s0 (pc, r) (sy_tr s i)" using sy_own by (fastforce simp: sys_inv_def thread_ok_def)
  let ?s' = "(put_object i r' s)\<lparr>sy_pcs := (sy_pcs s)(i \<mapsto> (k, pc')), sy_tr := (sy_tr s)(i := sy_tr s i @ acts)\<rparr>"
  have "thread_ok ec ?s' (i, r')" using s0(1) reach_own [OF s0(2) sy_own(3)] by (cases s0) (auto simp: thread_ok_def)
  then show ?case by (rule inv_thread [OF sy_own(4), where i = i and r' = r', rotated 2]) (simp_all add: put_object_def)
next
  case (sy_other i r s r')
  have "moved (objects s) (i, r')" using sy_other(1,2) by (auto intro: moved_env)
  then show ?case by (rule put_inv [OF sy_other(3)])
qed

interpretation whole: step_rel "sys_step ec" "sys_inv ec" for ec
  by unfold_locales (rule step_inv)

lemma reach_star: "sys_reach ec s0 s \<Longrightarrow> (sys_step ec)\<^sup>*\<^sup>* s0 s"
  by (induction rule: sys_reach.induct) (auto intro: rtranclp.rtrancl_into_rtrancl)

lemma reach_inv: "sys_reach ec s0 s \<Longrightarrow> sys_inv ec s0 \<Longrightarrow> sys_inv ec s"
  by (rule whole.star_inv [OF reach_star])

section \<open>From the start of the program\<close>

text \<open>No thread has begun and no eviction is under way.\<close>

definition start_sys :: "gatekeeper \<Rightarrow> sys" where
  "start_sys st = \<lparr>sy_gk = st, sy_victim = None, sy_pcs = (\<lambda>_. None), sy_tr = (\<lambda>_. [])\<rparr>"

lemma start_inv:
  assumes "main_start args files stdin now token1 token2 = Runs st g sm tok"
  shows "sys_inv ec (start_sys st)"
proof -
  obtain cfgs where m: "gk_relays st = start_objects now cfgs" "gk_pending st = []" "gk_next st = length cfgs"
    using main_start_Runs [OF assms] by blast
  have "own_inv (st, None)" by (simp add: own_inv_def owned_def m start_objects_fst)
  moreover have "r_listenFd r < 0" if o': "(i, r) \<in> set (start_objects now cfgs)" for i r
    using o' [unfolded start_objects_in] by (auto simp: start_relay_def Let_def)
  ultimately show ?thesis by (auto simp: sys_inv_def objects_def start_sys_def thread_ok_def m)
qed

lemma loop_of_listen: "listen_loop (loop_of ec k)"
  by (rule relay_loopsD [of _ ec]) (simp add: loop_of_def relay_loops_def split: relay_thread.split)

lemma thread_ok_launches:
  assumes "thread_ok ec s (i, r)" and "\<not> r_autoRestart r"
  shows "launches (sy_tr s i) \<le> 1"
proof (cases "sy_pcs s i")
  case None
  then show ?thesis using assms(1) by (simp add: thread_ok_def)
next
  case (Some x)
  obtain k pc where x: "x = (k, pc)" by fastforce
  obtain s0 where l: "loop_reach (loop_of ec k) s0 (pc, r) (sy_tr s i)" using assms(1) by (auto simp: thread_ok_def Some x)
  have "\<not> r_autoRestart (snd s0)" using listen_loop.reach_keeps [OF loop_of_listen l] assms(2) by (simp add: keeps_def)
  then show ?thesis using listen_loop.reach_once [OF loop_of_listen l] by auto
qed

lemma thread_ok_closed:
  assumes "thread_ok ec s (i, r)" and "sy_pcs s i = None \<or> (\<exists>k pc. sy_pcs s i = Some (k, pc) \<and> pc \<notin> {LStart, LAccept, LClose})"
  shows "r_listenFd r < 0"
proof (cases "sy_pcs s i")
  case None
  then show ?thesis using assms(1) by (simp add: thread_ok_def)
next
  case (Some x)
  then obtain k pc where x: "x = (k, pc)" "pc \<notin> {LStart, LAccept, LClose}" using assms(2) by auto
  obtain s0 where l: "fd_inv s0" "loop_reach (loop_of ec k) s0 (pc, r) (sy_tr s i)" using assms(1) by (auto simp: thread_ok_def Some x)
  from listen_loop.reach_fd [OF loop_of_listen l(2) l(1)] show ?thesis using x(2) by (simp add: fd_inv_def)
qed



end
