(* ===== verification/GK_Cycle.thy ===== *)
theory GK_Cycle
  imports GK_System
begin

text \<open>
  The life of a port: an idle backend is found by the monitor thread, stopped, and its port listened on again, until the next client has the
  backend launched again. The passes of the monitor thread (\<open>monitor_pass\<close>) and the listening thread (\<open>simple_step\<close>) meet here.
\<close>

section \<open>The two rounds of the monitor thread\<close>

lemma sample_idle:
  assumes "nonListen (query (relay_port r) (r_monitorIpv6 r)) \<le> 0"
  obtains t n c where "fst (sample_one now query r) = r\<lparr>r_lastSampleTime := t, r_lastNonListen := n, r_logDedupCounter := c\<rparr>"
  using sample_shape [of now query r] assms by (fastforce simp: updateActivity_def)

lemma idle_round:
  assumes "(i, r) \<in> set (gk_relays st)" and "idle_due now (fst (sample_one now query r))"
  shows "(i, fst (stop i (setPendingRemoval (fst (sample_one now query r))))) \<in> set (gk_pending (fst (monitor_pass now query stop st))) \<and>
    set (snd (stop i (setPendingRemoval (fst (sample_one now query r))))) \<subseteq> set (snd (monitor_pass now query stop st))"
proof -
  let ?q = "setPendingRemoval (fst (sample_one now query r))"
  let ?st = "idle_pass now (sample_pass now query st)"
  have "(i, fst (sample_one now query r)) \<in> set (gk_relays (sample_pass now query st))" using assms(1) by (force simp: sample_pass_def)
  then have p: "(i, ?q) \<in> set (gk_pending ?st)"
    using idle_loop_filter [of now "gk_relays (sample_pass now query st)" "gk_pending (sample_pass now query st)" "gk_groups (sample_pass now query st)"] assms(2)
    by (force simp: idle_pass_def)
  have run: "isBackendRunning ?q" "stop_due now ?q"
    using assms(2) by (simp_all add: idle_due_def stop_due_def monitorEnabled_def hasRecentActivity_def setPendingRemoval_def signalStop_def isBackendRunning_def)
  have "(i, fst (stop i ?q)) = after_stop now stop (i, ?q)" "snd (stop i ?q) = stop_signals now stop (i, ?q)"
    using run by (simp_all add: after_stop_def stop_signals_def)
  then show ?thesis using p run(1) unfolding monitor_pass_def pending_pass_def pending_loop_filter by force
qed

lemma rearm_round:
  assumes "(i, r) \<in> set (gk_pending st)" and "\<not> isBackendRunning r" and "r_autoRestart r"
  shows "(i, resetForIdle r) \<in> set (gk_relays (fst (monitor_pass now query stop st)))"
proof -
  have "(i, r) \<in> set (gk_pending (idle_pass now (sample_pass now query st)))"
    using assms(1) idle_loop_filter [of now "gk_relays (sample_pass now query st)" "gk_pending (sample_pass now query st)" "gk_groups (sample_pass now query st)"]
    by (auto simp: idle_pass_def sample_pass_def)
  then show ?thesis using assms(2,3) unfolding monitor_pass_def pending_pass_def pending_loop_filter by force
qed

section \<open>The cycle\<close>

lemma refresh_none_same: "tryHandleRefreshRequest p1 p2 r = None \<Longrightarrow> tryHandleRefreshRequest p1 p2 q = None"
  by (auto simp: tryHandleRefreshRequest_def Let_def split: option.splits if_splits)

text \<open>What stays of a relay when its backend is stopped and it is armed again.\<close>

definition same_port :: "relay \<Rightarrow> relay \<Rightarrow> bool" where
  "same_port r q \<longleftrightarrow> r_listenAddr q = r_listenAddr r \<and> r_command q = r_command r \<and> r_mode q = r_mode r \<and> r_group q = r_group r \<and>
     r_evicted q = r_evicted r \<and> r_launchOnStart q = r_launchOnStart r \<and> r_autoRestart q = r_autoRestart r"

lemma stopped_again:
  assumes "0 < r_backendPid r" and "\<not> r_externalOccupied r"
    and "q = fst (gracefulStop b p1 p2 (setPendingRemoval (r\<lparr>r_lastSampleTime := t, r_lastNonListen := n, r_logDedupCounter := c\<rparr>)))"
  shows "same_port r (resetForIdle q) \<and> \<not> isBackendRunning q \<and> r_backendPid q = 0 \<and> \<not> r_externalOccupied (resetForIdle q)"
  using assms(1,2) unfolding assms(3)
  by (simp add: gracefulStop_def setPendingRemoval_def signalStop_def resetForIdle_def same_port_def isBackendRunning_def Let_def)

text \<open>The first round: the idle backend is stopped, and the relay waits for removal.\<close>

lemma first_round:
  assumes "(i, r) \<in> set (gk_relays st)" and "monitorEnabled r" and "0 < r_backendPid r" and "\<not> r_externalOccupied r"
    and "r_idleMinutes r \<noteq> 0" and "r_lastActiveTime r < t1 - r_idleMinutes r * 60" and "nonListen (query (relay_port r) (r_monitorIpv6 r)) \<le> 0"
    and "monitor_pass t1 query (\<lambda>j. gracefulStop (b j) (p j) (q j)) st = (st1, acts1)"
  obtains r1 where "(i, r1) \<in> set (gk_pending st1)" and "same_port r (resetForIdle r1)" and "\<not> isBackendRunning r1" and "r_backendPid r1 = 0"
    and "\<not> r_externalOccupied (resetForIdle r1)"
    and "(if r_stopCommand r = [] then Term (r_backendPid r) else Run (r_stopCommand r)) \<in> set acts1"
proof -
  obtain t n c where sm: "fst (sample_one t1 query r) = r\<lparr>r_lastSampleTime := t, r_lastNonListen := n, r_logDedupCounter := c\<rparr>"
    using sample_idle [where query = query and r = r and now = t1, OF assms(7)] by metis
  define stp where "stp = gracefulStop (b i) (p i) (q i) (setPendingRemoval (fst (sample_one t1 query r)))"
  have "idle_due t1 (fst (sample_one t1 query r))"
    using assms(2,3,5,6) by (simp add: sm idle_due_def monitorEnabled_def isBackendRunning_def hasRecentActivity_def)
  note round1 = idle_round [OF assms(1) this, of "\<lambda>j. gracefulStop (b j) (p j) (q j)", folded stp_def, unfolded assms(8) fst_conv snd_conv]
  have "(if r_stopCommand r = [] then Term (r_backendPid r) else Run (r_stopCommand r)) \<in> set (snd stp)"
    using assms(3,4) by (simp add: stp_def sm gracefulStop_def setPendingRemoval_def signalStop_def Let_def)
  then show ?thesis using that [of "fst stp"] round1 stopped_again [OF assms(3,4), of "fst stp"] by (auto simp: stp_def sm)
qed

text \<open>A listening thread that binds, is asked by a client and launches.\<close>

lemma armed_launches:
  assumes "\<not> r_stop r" and "\<not> r_groupReleased r" and "r_backendPid r = 0" and "\<not> r_externalOccupied r" and "\<not> r_launchOnStart r"
    and "r_group r = None" and "\<not> r_evicted r" and "0 \<le> an_fd a1"
    and "an_client a2 = Client p8 p1 p2" and "tryHandleRefreshRequest p1 p2 r = None" and "0 < an_pid a3"
  obtains r' where "thread_run (simple_step ec) [a1, a2, a3] (LTop, r) = ((LLaunch (an_pid a3), r'), [SendStart, CloseClient, Launch (an_pid a3)])"
    and "r_backendPid r' = an_pid a3" and "r_listenFd r' = - 1"
  using assms refresh_none_same [OF assms(10)]
  by (simp add: simple_step_def simple_top_def bind_attempt_def bind_ok_simple_def simple_accept_def launch_begin_def Let_def)


text \<open>The passes keep who owns which relay.\<close>

lemma pass_own:
  assumes "own_inv (st, None)"
  shows "own_inv (sample_pass now query st, None)" and "own_inv (idle_pass now st, None)" and "own_inv (fst (pending_pass now stop st), None)"
  using owning.step_inv [OF assms, of "Sampling now query"] owning.step_inv [OF assms, of "Idling now"] owning.step_inv [OF assms, of "Pending now stop"]
  by simp_all

text \<open>
  Without \<open>auto_restart\<close> the port ends there: the second round deletes the relay, and a pointer to it that was looked up before, as \<open>handleRefresh\<close>
  does under the mutex it then gives back, leads nowhere.
\<close>

lemma port_dropped:
  assumes "own_inv (st, None)" and "(i, r) \<in> set (gk_relays st)" and "monitorEnabled r" and "0 < r_backendPid r" and "\<not> r_externalOccupied r"
    and "\<not> r_autoRestart r" and "r_idleMinutes r \<noteq> 0" and "r_lastActiveTime r < t1 - r_idleMinutes r * 60"
    and "nonListen (query (relay_port r) (r_monitorIpv6 r)) \<le> 0"
    and "monitor_pass t1 query (\<lambda>j. gracefulStop (b j) (p j) (q j)) st = (st1, acts1)" and "monitor_pass t2 query2 stop2 st1 = (st2, acts2)"
  shows "heap_of st i \<noteq> None \<and> heap_of st2 i = None"
proof -
  obtain r1 where r1: "(i, r1) \<in> set (gk_pending st1)" "same_port r (resetForIdle r1)" "\<not> isBackendRunning r1"
    by (rule first_round [OF assms(2-5,7,8,9,10)])
  have own1: "own_inv (st1, None)" using pass_own assms(1,10) by (metis fst_conv monitor_pass_def)
  define st1' where "st1' = idle_pass t2 (sample_pass t2 query2 st1)"
  have d: "distinct (map fst (gk_relays st1' @ gk_pending st1'))" using pass_own [OF pass_own(1) [OF own1]] by (simp add: own_inv_def owned_def st1'_def)
  have "(i, r1) \<in> set (gk_pending st1')"
    using r1(1) idle_loop_filter [of t2 "gk_relays (sample_pass t2 query2 st1)" "gk_pending (sample_pass t2 query2 st1)" "gk_groups (sample_pass t2 query2 st1)"]
    by (auto simp: st1'_def idle_pass_def sample_pass_def)
  then have "heap_of (fst (pending_pass t2 stop2 st1')) i = None"
    using dropped_gone [OF d] r1(2,3) assms(6) by (simp add: same_port_def resetForIdle_def)
  moreover have "i \<in> fst ` set (gk_relays st @ gk_pending st)" using assms(2) by force
  then have "heap_of st i \<noteq> None" unfolding heap_of_def map_of_eq_None_iff by blast
  ultimately show ?thesis using assms(11) by (simp add: monitor_pass_def st1'_def)
qed

definition idle_relay :: relay where
  "idle_relay = (new_relay default_port 0)\<lparr>r_mode := ''simple'', r_autoRestart := True, r_backendPid := 42, r_tcpMonitorInterval := 5, r_idleMinutes := 1\<rparr>"

definition idle_state :: gatekeeper where
  "idle_state = \<lparr>gk_relays = [(0, idle_relay)], gk_pending = [], gk_groups = [], gk_cfgs = [], gk_configPath = [], gk_reloading = False, gk_next = 1\<rparr>"

definition some_answers :: answers where
  "some_answers = \<lparr>an_fd = 7, an_bound = False, an_pid = 43, an_now = 120, an_wait = WaitBlocks, an_client = Client [] [] [], an_mem = None,
     an_valid = True, an_reached = True\<rparr>"


end
