(* ===== verification/GK_Locks.thy ===== *)
theory GK_Locks
  imports GK_Boot
begin

text \<open>
  The mutexes. Every operation that takes one is a list of lock actions, in the order of the code: \<open>g_relaysMutex\<close>, \<open>g_pendingMutex\<close>,
  \<open>g_groupsMutex\<close> of \<open>main.cpp\<close>, the mutex of each group, that of the stream threads and that of the rate limiter, with the joins of
  threads between them. The interface \<open>lock_discipline\<close> holds what keeps threads from blocking each other: locks are taken in the order of
  a rank, and a thread joins others only when it holds none. Most of the program obeys it; what does not can deadlock.
\<close>

section \<open>Threads and locks\<close>

text \<open>A thread of the program, or \<open>None\<close> for \<open>main\<close> itself.\<close>

type_synonym tid = "program_thread option"

datatype mutex = GroupsMutex | RelaysMutex | PendingMutex | GroupMutex string | StreamsMutex | LimiterMutex

datatype lock_act = Lock mutex | Unlock mutex | Join tid

text \<open>What every thread has still to do, and who holds which mutex.\<close>

record lock_state =
  lk_todo :: "tid \<Rightarrow> lock_act list"
  lk_owner :: "mutex \<Rightarrow> tid option"

text \<open>A thread goes on with its next action, unless it has to wait: for a mutex somebody holds (its own included), or for a thread that has not ended.\<close>

definition lock_step :: "tid \<Rightarrow> lock_state \<Rightarrow> lock_state option" where
  "lock_step t s =
     (case lk_todo s t of
        [] \<Rightarrow> None
      | Lock m # p \<Rightarrow> if lk_owner s m = None then Some (s\<lparr>lk_todo := (lk_todo s)(t := p), lk_owner := (lk_owner s)(m := Some t)\<rparr>) else None
      | Unlock m # p \<Rightarrow> Some (s\<lparr>lk_todo := (lk_todo s)(t := p), lk_owner := (lk_owner s)(m := None)\<rparr>)
      | Join j # p \<Rightarrow> if lk_todo s j = [] then Some (s\<lparr>lk_todo := (lk_todo s)(t := p)\<rparr>) else None)"

inductive lock_reach :: "lock_state \<Rightarrow> lock_state \<Rightarrow> bool" for s0 where
  lock_init: "lock_reach s0 s0"
| lock_next: "lock_reach s0 s \<Longrightarrow> lock_step t s = Some s' \<Longrightarrow> lock_reach s0 s'"

definition lock_start :: "(tid \<Rightarrow> lock_act list) \<Rightarrow> lock_state" where
  "lock_start todo = \<lparr>lk_todo = todo, lk_owner = (\<lambda>_. None)\<rparr>"

definition all_ended :: "lock_state \<Rightarrow> bool" where
  "all_ended s \<longleftrightarrow> (\<forall>t. lk_todo s t = [])"

text \<open>Threads have work left and none can do it.\<close>

definition deadlocked :: "lock_state \<Rightarrow> bool" where
  "deadlocked s \<longleftrightarrow> \<not> all_ended s \<and> (\<forall>t. lock_step t s = None)"

lemma lock_reach_trans: "lock_reach s1 s2 \<Longrightarrow> lock_reach s0 s1 \<Longrightarrow> lock_reach s0 s2"
  by (induction rule: lock_reach.induct) (auto intro: lock_next)

lemma lock_step_SomeE:
  assumes "lock_step t s = Some s'"
  obtains m p where "lk_todo s t = Lock m # p" "lk_owner s m = None" "s' = s\<lparr>lk_todo := (lk_todo s)(t := p), lk_owner := (lk_owner s)(m := Some t)\<rparr>"
  | m p where "lk_todo s t = Unlock m # p" "s' = s\<lparr>lk_todo := (lk_todo s)(t := p), lk_owner := (lk_owner s)(m := None)\<rparr>"
  | j p where "lk_todo s t = Join j # p" "lk_todo s j = []" "s' = s\<lparr>lk_todo := (lk_todo s)(t := p)\<rparr>"
  using assms by (auto simp: lock_step_def split: list.splits lock_act.splits if_splits)

section \<open>The discipline\<close>

text \<open>
  The list of actions is in order, from the mutexes held: each is above those held, is given back, and threads are joined with empty hands
  and are below the joining one.
\<close>

fun in_order :: "(mutex \<Rightarrow> nat) \<Rightarrow> (tid \<Rightarrow> nat) \<Rightarrow> tid \<Rightarrow> mutex list \<Rightarrow> lock_act list \<Rightarrow> bool" where
  "in_order rk lev t hs [] \<longleftrightarrow> hs = []"
| "in_order rk lev t hs (Lock m # p) \<longleftrightarrow> (\<forall>h \<in> set hs. rk h < rk m) \<and> in_order rk lev t (m # hs) p"
| "in_order rk lev t hs (Unlock m # p) \<longleftrightarrow> m \<in> set hs \<and> in_order rk lev t (remove1 m hs) p"
| "in_order rk lev t hs (Join j # p) \<longleftrightarrow> hs = [] \<and> lev j < lev t \<and> in_order rk lev t hs p"

lemma in_order_append: "in_order rk lev t hs p \<Longrightarrow> in_order rk lev t [] q \<Longrightarrow> in_order rk lev t hs (p @ q)"
  by (induction rk lev t hs p rule: in_order.induct) auto

lemma in_order_concat: "(\<And>p. p \<in> set ps \<Longrightarrow> in_order rk lev t [] p) \<Longrightarrow> in_order rk lev t [] (concat ps)"
  by (induction ps) (auto intro: in_order_append)

text \<open>Every thread is in order with what it holds.\<close>

definition order_inv :: "(mutex \<Rightarrow> nat) \<Rightarrow> (tid \<Rightarrow> nat) \<Rightarrow> lock_state \<Rightarrow> bool" where
  "order_inv rk lev s \<longleftrightarrow>
     finite {t. lk_todo s t \<noteq> []} \<and>
     (\<forall>t. \<exists>hs. distinct hs \<and> set hs = {m. lk_owner s m = Some t} \<and> in_order rk lev t hs (lk_todo s t))"

lemma order_invD:
  assumes "order_inv rk lev s"
  obtains hs where "distinct hs" "set hs = {m. lk_owner s m = Some t}" "in_order rk lev t hs (lk_todo s t)"
  using assms unfolding order_inv_def by blast

lemma order_step:
  assumes inv: "order_inv rk lev s" and st: "lock_step t s = Some s'"
  shows "order_inv rk lev s'"
proof -
  have fin: "finite {t. lk_todo s t \<noteq> []}" using inv by (simp add: order_inv_def)
  have fin': "finite {u. ((lk_todo s)(t := p)) u \<noteq> []}" for p
    by (rule finite_subset [OF _ finite.insertI [OF fin, of t]]) auto
  obtain hs where hs: "distinct hs" "set hs = {m. lk_owner s m = Some t}" "in_order rk lev t hs (lk_todo s t)" by (rule order_invD [OF inv])
  have rest: "\<exists>ks. distinct ks \<and> set ks = {m. lk_owner s m = Some u} \<and> in_order rk lev u ks (lk_todo s u)" for u
    by (rule order_invD [OF inv, of u]) blast
  have build: "order_inv rk lev s''"
    if own: "\<And>u. u \<noteq> t \<Longrightarrow> {m. lk_owner s'' m = Some u} = {m. lk_owner s m = Some u}" and todo: "lk_todo s'' = (lk_todo s)(t := p)"
      and ks: "distinct ks" "set ks = {m. lk_owner s'' m = Some t}" "in_order rk lev t ks p" for s'' p ks
    unfolding order_inv_def
  proof (intro conjI allI)
    show "finite {u. lk_todo s'' u \<noteq> []}" unfolding todo by (rule fin')
    show "\<exists>hs. distinct hs \<and> set hs = {m. lk_owner s'' m = Some u} \<and> in_order rk lev u hs (lk_todo s'' u)" for u
    proof (cases "u = t")
      case True
      then show ?thesis using ks todo by auto
    next
      case False
      then show ?thesis using rest [of u] own [OF False] todo by simp
    qed
  qed
  from st show ?thesis
  proof (cases rule: lock_step_SomeE)
    case (1 m p)
    then show ?thesis using hs by (intro build [of _ p "m # hs"]) auto
  next
    case (2 m p)
    then show ?thesis using hs by (intro build [of _ p "remove1 m hs"]) auto
  next
    case (3 j p)
    then show ?thesis using hs by (intro build [of _ p hs]) auto
  qed
qed

text \<open>Who is in order and has work left can go on, or somebody else can.\<close>

lemma order_progress:
  assumes inv: "order_inv rk lev s" and left: "\<not> all_ended s"
  shows "\<exists>t s'. lock_step t s = Some s'"
proof (rule ccontr)
  assume "\<nexists>t s'. lock_step t s = Some s'"
  then have stuck: "lock_step t s = None" for t by (meson not_None_eq)
  have fin: "finite {t. lk_todo s t \<noteq> []}" using inv by (simp add: order_inv_def)
  have no_unlock: "lk_todo s t \<noteq> Unlock m # p" for t m p using stuck [of t] by (auto simp: lock_step_def)
  let ?wait = "{m. \<exists>t p. lk_todo s t = Lock m # p}"
  have "?wait \<subseteq> (\<lambda>t. case hd (lk_todo s t) of Lock m \<Rightarrow> m | _ \<Rightarrow> GroupsMutex) ` {t. lk_todo s t \<noteq> []}"
  proof
    fix m
    assume "m \<in> ?wait"
    then obtain t p where "lk_todo s t = Lock m # p" by blast
    then show "m \<in> (\<lambda>t. case hd (lk_todo s t) of Lock m \<Rightarrow> m | _ \<Rightarrow> GroupsMutex) ` {t. lk_todo s t \<noteq> []}"
      by (intro image_eqI [of _ _ t]) simp_all
  qed
  then have finw: "finite ?wait" using fin by (rule finite_subset [OF _ finite_imageI])
  have higher: "\<exists>m' \<in> ?wait. rk m < rk m'" if w: "m \<in> ?wait" for m
  proof -
    obtain t p where t: "lk_todo s t = Lock m # p" using w by blast
    then obtain u where u: "lk_owner s m = Some u" using stuck [of t] by (auto simp: lock_step_def split: if_splits)
    obtain hs where hs: "set hs = {m. lk_owner s m = Some u}" "in_order rk lev u hs (lk_todo s u)" by (rule order_invD [OF inv])
    have m: "m \<in> set hs" using u hs(1) by simp
    show ?thesis
    proof (cases "lk_todo s u")
      case Nil
      then show ?thesis using hs(2) m by auto
    next
      case (Cons x p)
      then obtain m' where "x = Lock m'" using hs(2) m no_unlock [of u] by (cases x) auto
      then show ?thesis using hs(2) m Cons by auto
    qed
  qed
  have none: "?wait = {}"
  proof (rule ccontr)
    assume ne: "?wait \<noteq> {}"
    obtain m where m: "m \<in> ?wait" "rk m = Max (rk ` ?wait)" using Max_in [of "rk ` ?wait"] finw ne by fastforce
    then show False using higher [OF m(1)] finw Max_ge [of "rk ` ?wait"] by (metis (no_types, lifting) finite_imageI imageI leD)
  qed
  have lower: "\<exists>j. lk_todo s j \<noteq> [] \<and> lev j < lev t" if w: "lk_todo s t \<noteq> []" for t
  proof -
    obtain x p where x: "lk_todo s t = x # p" using w by (cases "lk_todo s t") auto
    obtain hs where hs: "in_order rk lev t hs (lk_todo s t)" by (rule order_invD [OF inv])
    have "\<exists>j. x = Join j" using x none no_unlock [of t] by (cases x) auto
    then show ?thesis using x hs stuck [of t] by (auto simp: lock_step_def split: if_splits)
  qed
  obtain t where "lk_todo s t \<noteq> []" using left by (auto simp: all_ended_def)
  then show False using lower by (induction "lev t" arbitrary: t rule: less_induct) blast
qed

text \<open>Every step is work done.\<close>

definition work :: "lock_state \<Rightarrow> nat" where
  "work s = (\<Sum>t | lk_todo s t \<noteq> []. length (lk_todo s t))"

lemma step_work:
  assumes fin: "finite {t. lk_todo s t \<noteq> []}" and st: "lock_step t s = Some s'"
  shows "work s' < work s"
proof -
  obtain x p where x: "lk_todo s t = x # p" "lk_todo s' = (lk_todo s)(t := p)"
    using st by (auto elim!: lock_step_SomeE)
  have "work s' = (\<Sum>u | lk_todo s u \<noteq> []. length (lk_todo s' u))"
    unfolding work_def by (rule sum.mono_neutral_left [OF fin]) (auto simp: x split: if_splits)
  also have "\<dots> < work s"
    unfolding work_def by (rule sum_strict_mono_ex1 [OF fin]) (auto simp: x intro!: exI [of _ t])
  finally show ?thesis .
qed

lemma order_ends:
  assumes "order_inv rk lev s"
  shows "\<exists>s'. lock_reach s s' \<and> all_ended s' \<and> (\<forall>m. lk_owner s' m = None)"
  using assms
proof (induction "work s" arbitrary: s rule: less_induct)
  case less
  show ?case
  proof (cases "all_ended s")
    case True
    have "lk_owner s m = None" for m
    proof (rule ccontr)
      assume "lk_owner s m \<noteq> None"
      then obtain t where t: "lk_owner s m = Some t" by blast
      obtain hs where "set hs = {m. lk_owner s m = Some t}" "in_order rk lev t hs (lk_todo s t)" by (rule order_invD [OF less.prems])
      then show False using True t by (auto simp: all_ended_def)
    qed
    then show ?thesis using True lock_init by blast
  next
    case False
    obtain t s1 where s1: "lock_step t s = Some s1" using order_progress [OF less.prems False] by blast
    have "work s1 < work s" by (rule step_work [OF _ s1]) (use less.prems in \<open>simp add: order_inv_def\<close>)
    then obtain s' where "lock_reach s1 s'" "all_ended s'" "\<forall>m. lk_owner s' m = None"
      using less.hyps [OF _ order_step [OF less.prems s1]] by blast
    then show ?thesis using lock_reach_trans [OF _ lock_next [OF lock_init s1]] by blast
  qed
qed

section \<open>The interface\<close>

text \<open>
  Operations with their lock actions, a rank of the mutexes, a level of the threads, and which operations are promised to be in order on a thread.
  Threads that run such operations one after the other never block each other for good.
\<close>

locale lock_discipline =
  fixes acts :: "'op \<Rightarrow> lock_act list" and rk :: "mutex \<Rightarrow> nat" and lev :: "tid \<Rightarrow> nat" and may :: "tid \<Rightarrow> 'op \<Rightarrow> bool"
  assumes may_in_order: "may t x \<Longrightarrow> in_order rk lev t [] (acts x)"
begin

definition threads :: "(tid \<Rightarrow> 'op list) \<Rightarrow> lock_state" where
  "threads ops = lock_start (\<lambda>t. concat (map acts (ops t)))"

lemma threads_inv:
  assumes "finite {t. ops t \<noteq> []}" and "\<And>t x. x \<in> set (ops t) \<Longrightarrow> may t x" and "lock_reach (threads ops) s"
  shows "order_inv rk lev s"
  using assms(3)
proof (induction rule: lock_reach.induct)
  case lock_init
  have "finite {t. concat (map acts (ops t)) \<noteq> []}" by (rule finite_subset [OF _ assms(1)]) auto
  moreover have "in_order rk lev t [] (concat (map acts (ops t)))" for t
    using assms(2) by (intro in_order_concat) (auto intro: may_in_order)
  ultimately show ?case by (force simp: order_inv_def threads_def lock_start_def)
next
  case (lock_next s t s')
  then show ?case using order_step by blast
qed

lemma no_deadlock:
  assumes "finite {t. ops t \<noteq> []}" and "\<And>t x. x \<in> set (ops t) \<Longrightarrow> may t x" and "lock_reach (threads ops) s"
  shows "\<not> deadlocked s" and "\<exists>s'. lock_reach s s' \<and> all_ended s' \<and> (\<forall>m. lk_owner s' m = None)"
proof -
  have inv: "order_inv rk lev s" using threads_inv assms by blast
  show "\<not> deadlocked s" using order_progress [OF inv] by (auto simp: deadlocked_def)
  show "\<exists>s'. lock_reach s s' \<and> all_ended s' \<and> (\<forall>m. lk_owner s' m = None)" by (rule order_ends [OF inv])
qed

end

section \<open>The operations of the program\<close>

text \<open>The threads that \<open>stop\<close> and \<open>resetForIdle\<close> join, in their order.\<close>

definition stop_joins :: "nat \<Rightarrow> relay \<Rightarrow> lock_act list" where
  "stop_joins i r =
     [Join (Some (RelayThread i (hd (relay_start r)))), Join (Some (RelayThread i BackendMonitorThread))]
     @ (if ProxyMonitorThread \<in> set (relay_start r) then [Join (Some (RelayThread i ProxyMonitorThread))] else [])"

text \<open>The three passes of the monitor thread.\<close>

definition sample_locks :: "lock_act list" where
  "sample_locks = [Lock RelaysMutex, Unlock RelaysMutex]"

definition idle_locks :: "int \<Rightarrow> obj list \<Rightarrow> lock_act list" where
  "idle_locks now rs =
     [Lock RelaysMutex]
     @ concat (map (\<lambda>(i, r). (case r_group r of None \<Rightarrow> [] | Some g \<Rightarrow> [Lock (GroupMutex g), Unlock (GroupMutex g)])
         @ [Lock PendingMutex, Unlock PendingMutex]) (filter (\<lambda>(i, r). idle_due now r) rs))
     @ [Unlock RelaysMutex]"

definition rearms :: "obj \<Rightarrow> bool" where
  "rearms ob \<longleftrightarrow> \<not> isBackendRunning (snd ob) \<and> r_autoRestart (snd ob)"

definition pending_locks :: "obj list \<Rightarrow> lock_act list" where
  "pending_locks os =
     [Lock PendingMutex]
     @ concat (map (\<lambda>ob. stop_joins (fst ob) (snd ob) @ [Lock RelaysMutex, Unlock RelaysMutex]) (filter rearms os))
     @ [Unlock PendingMutex]"

text \<open>A reload of a new configuration over the relays that are served.\<close>

definition retire_locks :: "string list \<Rightarrow> obj list \<Rightarrow> lock_act list" where
  "retire_locks as rs =
     (if as = [] then []
      else [Lock RelaysMutex]
        @ concat (map (\<lambda>_. [Lock PendingMutex, Unlock PendingMutex]) (filter (\<lambda>(i, r). r_listenAddr r \<in> set as) rs))
        @ [Unlock RelaysMutex])"

definition reload_locks :: "port_config list \<Rightarrow> port_config list \<Rightarrow> obj list \<Rightarrow> lock_act list" where
  "reload_locks old new rs =
     retire_locks (to_remove old new) rs
     @ retire_locks (map pc_listenAddr (to_modify old new)) (filter (\<lambda>(i, r). r_listenAddr r \<notin> set (to_remove old new)) rs)
     @ (if to_add old new = [] \<and> to_modify old new = [] then [] else [Lock RelaysMutex, Unlock RelaysMutex])"

text \<open>A new refresh time, the search for its relay before it, the list of the relays, a streamed command, the rate limiter.\<close>

definition persist_locks :: "lock_act list" where
  "persist_locks = [Lock RelaysMutex, Unlock RelaysMutex]"

definition refresh_locks :: "bool \<Rightarrow> lock_act list" where
  "refresh_locks found = [Lock RelaysMutex, Unlock RelaysMutex] @ (if found then persist_locks else [])"

definition status_locks :: "lock_act list" where
  "status_locks = [Lock RelaysMutex, Unlock RelaysMutex]"

definition stream_locks :: "lock_act list" where
  "stream_locks = [Lock StreamsMutex, Unlock StreamsMutex]"

definition allow_locks :: "lock_act list" where
  "allow_locks = [Lock LimiterMutex, Unlock LimiterMutex]"

text \<open>
  \<open>maybeEvict\<close> with its victim; \<open>replaced\<close> is that another relay has come to its address meanwhile. Putting the victim back is a part of its own, as
  the victim has new threads then.
\<close>

definition evict_put_locks :: "nat \<Rightarrow> relay \<Rightarrow> bool \<Rightarrow> lock_act list" where
  "evict_put_locks i r replaced = [Lock RelaysMutex] @ (if replaced then stop_joins i r else []) @ [Unlock RelaysMutex]"

definition evict_locks :: "obj option \<Rightarrow> bool \<Rightarrow> lock_act list" where
  "evict_locks victim replaced =
     [Lock RelaysMutex, Unlock RelaysMutex]
     @ (case victim of
          None \<Rightarrow> []
        | Some (i, r) \<Rightarrow> stop_joins i r @ evict_put_locks i r replaced)"

text \<open>The operations of a group, and the end of the program.\<close>

definition group_locks :: "string \<Rightarrow> lock_act list" where
  "group_locks g = [Lock (GroupMutex g), Unlock (GroupMutex g)]"

definition group_stop_locks :: "string \<times> obj list \<Rightarrow> lock_act list" where
  "group_stop_locks gm =
     [Lock (GroupMutex (fst gm))] @ concat (map (\<lambda>(i, r). stop_joins i r) (snd gm)) @ [Unlock (GroupMutex (fst gm))]"

definition end_locks :: "(string \<times> obj list) list \<Rightarrow> obj list \<Rightarrow> bool \<Rightarrow> bool \<Rightarrow> lock_act list" where
  "end_locks gs rs mon samp =
     [Lock GroupsMutex] @ concat (map group_stop_locks gs) @ [Unlock GroupsMutex]
     @ [Lock RelaysMutex] @ concat (map (\<lambda>(i, r). stop_joins i r) rs) @ [Unlock RelaysMutex]
     @ (if mon then [Join (Some MonitorThread)] else []) @ (if samp then [Join (Some SamplerThread)] else [])"

datatype lock_op =
  SamplePass | IdlePass int "obj list" | PendingPass "obj list" | Reload "port_config list" "port_config list" "obj list"
  | Persist | Refresh bool | Status | Stream | Limiter | Evict "obj option" bool | GroupUse string
  | ProgramEnd "(string \<times> obj list) list" "obj list" bool bool

fun op_locks :: "lock_op \<Rightarrow> lock_act list" where
  "op_locks SamplePass = sample_locks"
| "op_locks (IdlePass now rs) = idle_locks now rs"
| "op_locks (PendingPass os) = pending_locks os"
| "op_locks (Reload old new rs) = reload_locks old new rs"
| "op_locks Persist = persist_locks"
| "op_locks (Refresh found) = refresh_locks found"
| "op_locks Status = status_locks"
| "op_locks Stream = stream_locks"
| "op_locks Limiter = allow_locks"
| "op_locks (Evict v replaced) = evict_locks v replaced"
| "op_locks (GroupUse g) = group_locks g"
| "op_locks (ProgramEnd gs rs mon samp) = end_locks gs rs mon samp"

section \<open>The discipline of the program\<close>

fun mutex_rank :: "mutex \<Rightarrow> nat" where
  "mutex_rank GroupsMutex = 0"
| "mutex_rank RelaysMutex = 1"
| "mutex_rank PendingMutex = 2"
| "mutex_rank (GroupMutex g) = 3"
| "mutex_rank StreamsMutex = 4"
| "mutex_rank LimiterMutex = 5"

text \<open>\<open>main\<close> joins the others, the sampler joins the threads of a relay, and those join nobody.\<close>

definition thread_level :: "tid \<Rightarrow> nat" where
  "thread_level t = (case t of None \<Rightarrow> 2 | Some (RelayThread i k) \<Rightarrow> 0 | Some _ \<Rightarrow> 1)"

text \<open>
  What is in order: every operation, except a pending pass that listens again for a port, an eviction whose victim has been replaced, and an end
  that still has threads of relays to join.
\<close>

fun orderly :: "tid \<Rightarrow> lock_op \<Rightarrow> bool" where
  "orderly t (PendingPass os) = (filter rearms os = [])"
| "orderly t (Evict v replaced) = (v = None \<or> \<not> replaced \<and> 0 < thread_level t)"
| "orderly t (ProgramEnd gs rs mon samp) = (t = None \<and> rs = [] \<and> list_all (\<lambda>g. snd g = []) gs)"
| "orderly t _ = True"

lemma joins_in_order: "0 < thread_level t \<Longrightarrow> in_order rk thread_level t [] (stop_joins i r)"
  by (simp add: stop_joins_def thread_level_def)

text \<open>A sequence of mutexes that are taken and given back at once, inside one of a lower rank.\<close>

definition brackets :: "mutex list \<Rightarrow> lock_act list" where
  "brackets ms = concat (map (\<lambda>m. [Lock m, Unlock m]) ms)"

lemma bracketed:
  "\<forall>m \<in> set ms. rk l < rk m \<Longrightarrow> in_order rk lev t [l] q \<Longrightarrow> in_order rk lev t [l] (brackets ms @ q)"
  by (induction ms) (simp_all add: brackets_def)

definition idle_mutexes :: "obj \<Rightarrow> mutex list" where
  "idle_mutexes ob = (case r_group (snd ob) of None \<Rightarrow> [] | Some g \<Rightarrow> [GroupMutex g]) @ [PendingMutex]"

lemma idle_brackets:
  "concat (map (\<lambda>(i, r). (case r_group r of None \<Rightarrow> [] | Some g \<Rightarrow> [Lock (GroupMutex g), Unlock (GroupMutex g)])
      @ [Lock PendingMutex, Unlock PendingMutex]) xs) = brackets (concat (map idle_mutexes xs))"
  by (induction xs) (auto simp: brackets_def idle_mutexes_def split: option.splits)

lemma idle_in_order: "in_order mutex_rank lev t [] (idle_locks now rs)"
proof -
  have "Suc 0 < mutex_rank m" if "m \<in> set (idle_mutexes ob)" for m ob
    using that by (auto simp: idle_mutexes_def split: option.splits)
  then show ?thesis unfolding idle_locks_def idle_brackets by (auto intro!: bracketed)
qed

lemma retire_in_order: "in_order mutex_rank lev t [] (retire_locks as rs)"
proof -
  have "concat (map (\<lambda>_. [Lock PendingMutex, Unlock PendingMutex]) xs) = brackets (map (\<lambda>_. PendingMutex) xs)" for xs :: "obj list"
    by (simp add: comp_def brackets_def)
  then show ?thesis unfolding retire_locks_def by (simp add: bracketed)
qed

lemma end_in_order:
  assumes "list_all (\<lambda>g. snd g = []) gs"
  shows "in_order mutex_rank thread_level None [] (end_locks gs [] mon samp)"
proof -
  have "concat (map group_stop_locks gs) = brackets (map (\<lambda>g. GroupMutex (fst g)) gs)"
    using assms by (induction gs) (simp_all add: brackets_def group_stop_locks_def)
  then show ?thesis unfolding end_locks_def by (simp add: bracketed thread_level_def)
qed

lemma orderly_in_order: "orderly t x \<Longrightarrow> in_order mutex_rank thread_level t [] (op_locks x)"
proof (induction t x rule: orderly.induct)
  case (2 t v replaced)
  then show ?case by (auto simp: evict_locks_def evict_put_locks_def split: option.splits intro!: in_order_append joins_in_order)
qed (auto simp: idle_in_order reload_locks_def retire_in_order end_in_order sample_locks_def pending_locks_def persist_locks_def refresh_locks_def
    status_locks_def stream_locks_def allow_locks_def group_locks_def intro!: in_order_append)

interpretation gk: lock_discipline op_locks mutex_rank thread_level orderly
  by unfold_locales (rule orderly_in_order)

end
