(* ===== verification/GK_LockProps.thy ===== *)
theory GK_LockProps
  imports GK_Locks
begin

text \<open>
  What the locking of the program guarantees and what it does not: the orderly operations of \<open>GK_Locks\<close> never deadlock, in any interleaving of
  any number of threads. The pending pass takes the two mutexes of the lists against the order of a reload, and the end of the program
  joins threads of relays while it holds a mutex they may want, as does an eviction whose victim has been replaced: each can block for ever.
\<close>

section \<open>Progress\<close>


definition some_ops :: "tid \<Rightarrow> lock_op list" where
  "some_ops t =
     (if t = Some MonitorThread then [SamplePass, IdlePass 0 []]
      else if t = Some ControlThread then [Limiter, Refresh True]
      else if t = Some SamplerThread then [Evict (Some (0, new_relay default_port 0)) False]
      else [])"


section \<open>Deadlocks\<close>

text \<open>A thread that joins only ended threads gets past the joins.\<close>

lemma joins_pass:
  assumes "lk_todo s t = map Join js @ p" and "\<And>j. j \<in> set js \<Longrightarrow> j \<noteq> t \<and> lk_todo s j = []"
  shows "lock_reach s (s\<lparr>lk_todo := (lk_todo s)(t := p)\<rparr>)"
  using assms
proof (induction js arbitrary: s)
  case Nil
  then have "(lk_todo s)(t := p) = lk_todo s" by (simp add: fun_upd_idem)
  then show ?case using lock_init [of s] by simp
next
  case (Cons j js)
  let ?s = "s\<lparr>lk_todo := (lk_todo s)(t := map Join js @ p)\<rparr>"
  have "lock_step t s = Some ?s" using Cons.prems by (simp add: lock_step_def)
  moreover have "lock_reach ?s (?s\<lparr>lk_todo := (lk_todo ?s)(t := p)\<rparr>)" by (rule Cons.IH) (use Cons.prems in auto)
  ultimately show ?case using lock_reach_trans [OF _ lock_next [OF lock_init]] by fastforce
qed

lemma stop_joins_joins: "\<exists>js. stop_joins i r = map Join js \<and> set js \<subseteq> range (\<lambda>k. Some (RelayThread i k))"
  by (rule exI [of _ "map (\<lambda>k. Some (RelayThread i k)) ([hd (relay_start r), BackendMonitorThread]
        @ (if ProxyMonitorThread \<in> set (relay_start r) then [ProxyMonitorThread] else []))"]) (auto simp: stop_joins_def)

text \<open>Two threads, with their operations.\<close>

definition two_threads :: "tid \<Rightarrow> lock_act list \<Rightarrow> tid \<Rightarrow> lock_act list \<Rightarrow> lock_state" where
  "two_threads t p u q = lock_start (\<lambda>x. if x = t then p else if x = u then q else [])"

lemma two_blocked:
  assumes "t \<noteq> u" and "lk_todo s = (\<lambda>x. if x = t then a # p else if x = u then b # q else [])"
    and "lock_step t s = None" and "lock_step u s = None"
  shows "deadlocked s"
proof -
  have "lock_step x s = None" for x using assms by (cases "x = t"; cases "x = u") (auto simp: lock_step_def)
  moreover have "lk_todo s t \<noteq> []" using assms(2) by simp
  ultimately show ?thesis unfolding deadlocked_def all_ended_def by blast
qed

text \<open>Two threads that take two mutexes in opposite orders, the first one with joins of ended threads in between.\<close>

lemma crossed:
  assumes "t \<noteq> u" and "a \<noteq> b" and "t \<notin> set js" and "u \<notin> set js"
  shows "\<exists>s. lock_reach (two_threads t (Lock a # map Join js @ Lock b # p) u (Lock b # Lock a # q)) s \<and>
    deadlocked s \<and> lk_owner s a = Some t \<and> lk_owner s b = Some u"
proof -
  let ?s0 = "two_threads t (Lock a # map Join js @ Lock b # p) u (Lock b # Lock a # q)"
  define s1 where "s1 = ?s0\<lparr>lk_todo := (lk_todo ?s0)(t := map Join js @ Lock b # p), lk_owner := (lk_owner ?s0)(a := Some t)\<rparr>"
  define s2 where "s2 = s1\<lparr>lk_todo := (lk_todo s1)(t := Lock b # p)\<rparr>"
  define s3 where "s3 = s2\<lparr>lk_todo := (lk_todo s2)(u := Lock a # q), lk_owner := (lk_owner s2)(b := Some u)\<rparr>"
  note defs = two_threads_def lock_start_def s1_def s2_def s3_def
  have "lock_step t ?s0 = Some s1" using assms by (simp add: lock_step_def defs)
  then have r1: "lock_reach ?s0 s1" by (rule lock_next [OF lock_init])
  have "lk_todo s1 t = map Join js @ Lock b # p" "\<And>j. j \<in> set js \<Longrightarrow> j \<noteq> t \<and> lk_todo s1 j = []"
    using assms by (auto simp: s1_def two_threads_def lock_start_def)
  then have "lock_reach s1 s2" unfolding s2_def by (rule joins_pass)
  then have r2: "lock_reach ?s0 s2" by (rule lock_reach_trans [OF _ r1])
  have "lock_step u s2 = Some s3" using assms by (simp add: lock_step_def defs)
  then have r3: "lock_reach ?s0 s3" by (rule lock_next [OF r2])
  have own: "lk_owner s3 a = Some t" "lk_owner s3 b = Some u" using assms by (simp_all add: defs)
  have todo: "lk_todo s3 = (\<lambda>x. if x = t then Lock b # p else if x = u then Lock a # q else [])"
    using assms(1) by (intro ext) (simp add: defs)
  have "deadlocked s3" by (rule two_blocked [OF assms(1) todo]) (use assms(1) in \<open>simp_all add: lock_step_def todo own\<close>)
  then show ?thesis using r3 own by blast
qed

text \<open>
  C8: a reload and the monitor thread can block each other for ever: when a pending port is to be listened on again while a reload retires another
  one, the monitor thread can hold the mutex of the pending list and wait for that of the served list, which the control thread holds,
  waiting for the first. Neither comes back, and everything that needs one of the two waits with them.
\<close>
theorem reload_deadlocks:
  assumes "ob \<in> set os" and "rearms ob" and "(i, r) \<in> set rs" and "r_listenAddr r \<in> set (to_remove old new)"
  shows "\<exists>s. lock_reach (two_threads (Some MonitorThread) (op_locks (PendingPass os)) (Some ControlThread) (op_locks (Reload old new rs))) s \<and>
    deadlocked s \<and> lk_owner s PendingMutex = Some (Some MonitorThread) \<and> lk_owner s RelaysMutex = Some (Some ControlThread)"
proof -
  let ?m = "Some MonitorThread :: tid" and ?c = "Some ControlThread :: tid"
  obtain o1 os1 where o1: "filter rearms os = o1 # os1" using assms(1,2) by (cases "filter rearms os") (auto simp: filter_empty_conv)
  obtain js where js: "stop_joins (fst o1) (snd o1) = map Join js" "set js \<subseteq> range (\<lambda>k. Some (RelayThread (fst o1) k))"
    using stop_joins_joins by metis
  obtain p where p: "op_locks (PendingPass os) = Lock PendingMutex # map Join js @ Lock RelaysMutex # p"
    by (simp add: pending_locks_def o1 js(1))
  obtain x xs where x: "filter (\<lambda>(i, r). r_listenAddr r \<in> set (to_remove old new)) rs = x # xs"
    using assms(3,4) by (cases "filter (\<lambda>(i, r). r_listenAddr r \<in> set (to_remove old new)) rs") (auto simp: filter_empty_conv)
  have "to_remove old new \<noteq> []" using assms(4) by auto
  then obtain q where q: "op_locks (Reload old new rs) = Lock RelaysMutex # Lock PendingMutex # q"
    by (simp add: reload_locks_def retire_locks_def x)
  show ?thesis unfolding p q by (rule crossed) (use js(2) in auto)
qed

theorem reload_deadlocks_witness:
  "\<exists>s. lock_reach (two_threads (Some MonitorThread) (op_locks (PendingPass [(0, new_relay auto_port 0)]))
       (Some ControlThread) (op_locks (Reload [port_a] [] [(1, new_relay port_a 0)]))) s \<and> deadlocked s"
proof -
  have "rearms (0, new_relay auto_port 0)" by (simp add: rearms_def)
  moreover have "r_listenAddr (new_relay port_a 0) \<in> set (to_remove [port_a] [])" by (simp add: to_remove_filter)
  ultimately show ?thesis
    using reload_deadlocks [of "(0, new_relay auto_port 0)" "[(0, new_relay auto_port 0)]" 1 "new_relay port_a 0" "[(1, new_relay port_a 0)]" "[port_a]" "[]"]
    unfolding list.set(2) by blast
qed

text \<open>A thread that joins another with a mutex in its hand the other one wants.\<close>

lemma waits_holding:
  assumes "t \<noteq> j" and "lk_todo s = (\<lambda>x. if x = t then Lock m # Join j # p else if x = j then Lock m # q else [])" and "lk_owner s m = None"
  shows "\<exists>s'. lock_reach s s' \<and> deadlocked s'"
proof -
  let ?s = "s\<lparr>lk_todo := (lk_todo s)(t := Join j # p), lk_owner := (lk_owner s)(m := Some t)\<rparr>"
  have "lock_step t s = Some ?s" using assms by (simp add: lock_step_def)
  then have "lock_reach s ?s" by (rule lock_next [OF lock_init])
  moreover have todo: "lk_todo ?s = (\<lambda>x. if x = t then Join j # p else if x = j then Lock m # q else [])" using assms(1,2) by (intro ext) simp
  have "deadlocked ?s" by (rule two_blocked [OF assms(1) todo]) (use assms in \<open>simp_all add: lock_step_def\<close>)
  ultimately show ?thesis by blast
qed

text \<open>
  So for \<open>main\<close> at its end, which joins the listening thread of a relay with the mutex of the served list, or of a group, in its hand, and for an eviction whose
  victim has been replaced: the thread may wait for the mutex to store a refresh time, or to launch the group.
\<close>

lemma main_waits:
  assumes "j \<noteq> None" and "a \<noteq> m"
  shows "\<exists>s. lock_reach (two_threads None (Lock a # Unlock a # Lock m # Join j # p) j (Lock m # q)) s \<and> deadlocked s" (is "\<exists>s. lock_reach ?u s \<and> _")
    and "\<exists>s. lock_reach (two_threads None (Lock a # Lock m # Join j # p) j (Lock m # q)) s \<and> deadlocked s" (is "\<exists>s. lock_reach ?v s \<and> _")
proof -
  define u1 where "u1 = ?u\<lparr>lk_todo := (lk_todo ?u)(None := Unlock a # Lock m # Join j # p), lk_owner := (lk_owner ?u)(a := Some None)\<rparr>"
  define u2 where "u2 = u1\<lparr>lk_todo := (lk_todo u1)(None := Lock m # Join j # p), lk_owner := (lk_owner u1)(a := None)\<rparr>"
  define v1 where "v1 = ?v\<lparr>lk_todo := (lk_todo ?v)(None := Lock m # Join j # p), lk_owner := (lk_owner ?v)(a := Some None)\<rparr>"
  note defs = two_threads_def lock_start_def u1_def u2_def v1_def
  have "lock_step None ?u = Some u1" "lock_step None u1 = Some u2" "lock_step None ?v = Some v1" using assms by (simp_all add: lock_step_def defs)
  then have r: "lock_reach ?u u2" "lock_reach ?v v1" by (blast intro: lock_init lock_next)+
  have "\<exists>s. lock_reach u2 s \<and> deadlocked s" "\<exists>s. lock_reach v1 s \<and> deadlocked s"
    by (rule waits_holding [of None j _ m p q], use assms in \<open>auto simp: defs\<close>)+
  then show "\<exists>s. lock_reach ?u s \<and> deadlocked s" "\<exists>s. lock_reach ?v s \<and> deadlocked s" using r lock_reach_trans by blast+
qed

lemma evict_deadlocks:
  "\<exists>s. lock_reach (two_threads (Some SamplerThread) (evict_put_locks i r True) (Some (RelayThread i (hd (relay_start r)))) (op_locks Persist)) s \<and> deadlocked s"
  by (rule waits_holding [of "Some SamplerThread" "Some (RelayThread i (hd (relay_start r)))" _ RelaysMutex])
    (auto simp: two_threads_def lock_start_def evict_put_locks_def stop_joins_def persist_locks_def)

lemma end_deadlocks:
  "\<exists>s. lock_reach (two_threads None (op_locks (ProgramEnd [] ((i, r) # rs) mon samp)) (Some (RelayThread i (hd (relay_start r)))) (op_locks Persist)) s \<and> deadlocked s"
  using main_waits(1) [of "Some (RelayThread i (hd (relay_start r)))" GroupsMutex RelaysMutex]
  by (simp add: end_locks_def persist_locks_def stop_joins_def)

lemma group_stop_deadlocks:
  "\<exists>s. lock_reach (two_threads None (op_locks (ProgramEnd ((g, (i, r) # ms) # gs) rs mon samp)) (Some (RelayThread i (hd (relay_start r)))) (op_locks (GroupUse g))) s \<and> deadlocked s"
  using main_waits(2) [of "Some (RelayThread i (hd (relay_start r)))" GroupsMutex "GroupMutex g"]
  by (simp add: end_locks_def group_locks_def group_stop_locks_def stop_joins_def)

section \<open>Joins\<close>

text \<open>The threads of a relay in a group are joined twice at the end of the program, which POSIX leaves undefined.\<close>

lemma joined_twice:
  assumes "(g, ms) \<in> set gs" and "(i, r) \<in> set ms" and "(i, r) \<in> set rs"
  shows "2 \<le> count_list (end_locks gs rs mon samp) (Join (Some (RelayThread i BackendMonitorThread)))"
proof -
  let ?j = "Join (Some (RelayThread i BackendMonitorThread))"
  have once: "1 \<le> count_list xs ?j" if "?j \<in> set xs" for xs using that by (induction xs) auto
  have "?j \<in> set (stop_joins i r)" by (simp add: stop_joins_def)
  then have "?j \<in> set (concat (map (\<lambda>(i, r). stop_joins i r) rs))" "?j \<in> set (concat (map group_stop_locks gs))"
    using assms by (force simp: group_stop_locks_def)+
  from this [THEN once] show ?thesis by (simp add: end_locks_def)
qed

text \<open>A relay that the pending pass deletes is deleted without joining its threads, which still use it.\<close>

lemma deleted_unjoined:
  assumes "distinct (map fst os)" and "ob \<in> set os" and "\<not> rearms ob"
  shows "Join (Some (RelayThread (fst ob) k)) \<notin> set (pending_locks os)"
proof -
  have "fst o' \<noteq> fst ob" if "o' \<in> set (filter rearms os)" for o'
  proof
    assume e: "fst o' = fst ob"
    have "o' \<in> set os" using that by simp
    then have "(fst ob, snd o') \<in> set os" "(fst ob, snd ob) \<in> set os" using assms(2) e by (metis prod.collapse)+
    then have "o' = ob" using eq_key_imp_eq_value [OF assms(1)] e by (metis prod.collapse)
    then show False using that assms(3) by simp
  qed
  moreover have "fst o' = fst ob" if "Join (Some (RelayThread (fst ob) k)) \<in> set (stop_joins (fst o') (snd o'))" for o'
    using that by (auto simp: stop_joins_def split: if_splits)
  moreover have "\<exists>o' \<in> set (filter rearms os). Join (Some (RelayThread (fst ob) k)) \<in> set (stop_joins (fst o') (snd o'))"
    if "Join (Some (RelayThread (fst ob) k)) \<in> set (pending_locks os)"
    using that by (auto simp: pending_locks_def split: if_splits)
  ultimately show ?thesis by blast
qed

end
