(* ===== verification/GK_Wrappers.thy ===== *)
theory GK_Wrappers
  imports GK_Main GK_Words
begin

text \<open>
  The wrappers of \<open>relay_posix.cpp\<close> and \<open>relay_win.cpp\<close> around system calls that do more than pass them on, and the handlers of signals and of
  console events of \<open>main.cpp\<close>. What a call returns is an argument.
\<close>

section \<open>POSIX\<close>

text \<open>\<open>set_nonblock\<close>: the flags of \<open>F_GETFL\<close>, or \<open>None\<close> when it fails; the result, and the flags given to \<open>F_SETFL\<close>.\<close>

definition O_NONBLOCK :: "32 word" where
  "O_NONBLOCK = 0x800"

definition nonblock_flags :: "bool \<Rightarrow> 32 word \<Rightarrow> 32 word" where
  "nonblock_flags on flags = (if on then or flags O_NONBLOCK else and flags (not O_NONBLOCK))"

definition posix_set_nonblock :: "32 word option \<Rightarrow> (32 word \<Rightarrow> int) \<Rightarrow> bool \<Rightarrow> int \<times> 32 word option" where
  "posix_set_nonblock getfl setfl on =
     (case getfl of None \<Rightarrow> (- 1, None) | Some flags \<Rightarrow> (setfl (nonblock_flags on flags), Some (nonblock_flags on flags)))"

text \<open>The processes: the answers of \<open>waitpid\<close> and of \<open>kill\<close> with signal 0.\<close>

definition posix_isChildAlive :: "int \<Rightarrow> bool" where
  "posix_isChildAlive ret \<longleftrightarrow> ret = 0"

definition posix_waitChild :: "int \<Rightarrow> int \<Rightarrow> int \<times> int" where
  "posix_waitChild ret status = (ret, if ret > 0 then status else 0)"

definition posix_isProcessRunning :: "int \<Rightarrow> bool" where
  "posix_isProcessRunning ret \<longleftrightarrow> ret = 0"

text \<open>\<open>last_error_str\<close>: in its GNU variant \<open>strerror_r\<close> returns a text, never a null pointer; in the other a number.\<close>

definition posix_last_error_str :: "bool \<Rightarrow> int \<Rightarrow> string \<Rightarrow> string" where
  "posix_last_error_str gnu ret buf = (if gnu then ''unknown error'' else if ret = 0 then buf else ''unknown error'')"

text \<open>\<open>createThread\<close>: a size below the least one is refused by \<open>pthread_attr_setstacksize\<close>, whose result is not looked at.\<close>

definition posix_stack :: "int \<Rightarrow> int \<Rightarrow> int \<Rightarrow> int" where
  "posix_stack least dflt kb = (if kb * 1024 < least then dflt else kb * 1024)"

text \<open>A socket that is made non-blocking for a moment, as \<open>tryHandleRefreshRequest\<close> does, gets its flags back, if it was blocking; other flags are never touched.\<close>

lemma nonblock_other_bits: "\<not> bit O_NONBLOCK n \<Longrightarrow> bit (nonblock_flags on f) n = bit f n"
  by (auto simp: nonblock_flags_def bit_simps dest: bit_imp_le_length)

lemma nonblock_restored:
  assumes "and f O_NONBLOCK = 0"
  shows "nonblock_flags False (nonblock_flags True f) = f"
proof (rule bit_word_eqI)
  fix n
  assume n: "n < LENGTH(32)"
  have "\<not> (bit f n \<and> bit O_NONBLOCK n)" using assms by (metis bit_0_eq bit_and_iff bot_apply bot_bool_def)
  then show "bit (nonblock_flags False (nonblock_flags True f)) n = bit f n" using n by (auto simp: nonblock_flags_def bit_simps)
qed

text \<open>A socket that was non-blocking before is blocking after.\<close>

lemma nonblock_not_restored: "nonblock_flags False (nonblock_flags True (or f O_NONBLOCK)) = and f (not O_NONBLOCK)"
  by (rule bit_word_eqI) (auto simp: nonblock_flags_def bit_simps)

lemma small_stack_ignored: "kb < 16 \<Longrightarrow> posix_stack 16384 dflt kb = dflt"
  by (simp add: posix_stack_def)

lemma gnu_error_lost: "posix_last_error_str True ret buf = ''unknown error''"
  by (simp add: posix_last_error_str_def)

section \<open>Windows\<close>

text \<open>Calls whose failure is \<open>SOCKET_ERROR\<close>, and those that give a socket, \<open>INVALID_SOCKET\<close> at a failure.\<close>

definition win_result :: "int \<Rightarrow> int" where
  "win_result r = (if r = - 1 then - 1 else 0)"

definition win_socket :: "64 word \<Rightarrow> int" where
  "win_socket s = (if s = - 1 then - 1 else sint s)"

text \<open>A handle survives the way through \<open>PlatformHandle\<close>, and only the invalid one is \<open>-1\<close>.\<close>

lemma win_socket_inj: "win_socket s = win_socket s' \<longleftrightarrow> s = s'"
  by (simp add: win_socket_def) (metis sint_n1 signed_word_eqI)

section \<open>Signals\<close>

text \<open>The two flags of \<open>main.cpp\<close>: \<open>g_stop\<close> and \<open>g_shutdownRequested\<close>.\<close>

definition handleSignal :: "bool \<times> bool \<Rightarrow> bool \<times> bool" where
  "handleSignal flags = (True, True)"

text \<open>The console handler of Windows, on the groups and their store, then on the served relays; \<open>None\<close> when a group points to a deleted relay.\<close>

fun signal_groups :: "port_group list \<Rightarrow> heap \<Rightarrow> (port_group list \<times> heap) option" where
  "signal_groups [] h = Some ([], h)"
| "signal_groups (g # gs) h =
     (case group_signalStop g h of
        None \<Rightarrow> None
      | Some (g1, h1) \<Rightarrow> map_option (\<lambda>(gs1, h2). (g1 # gs1, h2)) (signal_groups gs h1))"

definition ctrlHandler :: "gatekeeper \<Rightarrow> (port_group list \<times> heap) option" where
  "ctrlHandler st =
     map_option (\<lambda>(gs, h). (gs, \<lambda>i. if i \<in> fst ` set (gk_relays st) then map_option signalStop (h i) else h i))
       (signal_groups (gk_groups st) (heap_of st))"

lemma each_member_dom: "each_member f is h = Some (h', acts) \<Longrightarrow> dom h' = dom h"
proof (induction "is" arbitrary: h acts)
  case (Cons i js)
  then obtain r acts1 where r: "h i = Some r" "each_member f js (h(i \<mapsto> fst (f r))) = Some (h', acts1)" by (auto split: option.splits)
  have "dom h' = dom (h(i \<mapsto> fst (f r)))" by (rule Cons.IH [OF r(2)])
  then show ?case using r(1) by auto
qed simp

lemma signal_groups_dom: "signal_groups gs h = Some (gs', h') \<Longrightarrow> dom h' = dom h \<and> list_all pg_stop gs'"
proof (induction gs arbitrary: h gs')
  case (Cons g gs)
  then obtain g1 h1 gs1 where g: "group_signalStop g h = Some (g1, h1)" "signal_groups gs h1 = Some (gs1, h')" "gs' = g1 # gs1"
    by (auto split: option.splits)
  have "dom h1 = dom h" "pg_stop g1" using g(1) each_member_dom by (fastforce simp: group_signalStop_def split: if_splits)+
  then show ?case using Cons.IH [OF g(2)] g(3) by simp
qed simp

text \<open>After a console event every group and every served relay is told to stop, and no served relay has a listening socket.\<close>

lemma ctrlHandler_stops:
  assumes "ctrlHandler st = Some (gs, h)" and "(i, r) \<in> set (gk_relays st)"
  shows "list_all pg_stop gs \<and> (\<exists>r'. h i = Some r' \<and> r_stop r' \<and> r_listenFd r' = - 1)"
proof -
  obtain h1 where h1: "signal_groups (gk_groups st) (heap_of st) = Some (gs, h1)"
    "h = (\<lambda>i. if i \<in> fst ` set (gk_relays st) then map_option signalStop (h1 i) else h1 i)"
    using assms(1) by (auto simp: ctrlHandler_def)
  have i: "i \<in> fst ` set (gk_relays st)" using assms(2) by force
  then have "i \<in> dom (heap_of st)" by (auto simp: heap_of_def dom_map_of_conv_image_fst)
  then obtain r1 where "h1 i = Some r1" using signal_groups_dom [OF h1(1)] by blast
  then show ?thesis using signal_groups_dom [OF h1(1)] i by (simp add: h1(2) signalStop_def)
qed

end
