(* ===== verification/Spec2Isabelle.thy ===== *)
theory Spec2Isabelle
  imports GK_JsonRoundtrip GK_ConfigProps GK_RefreshFile GK_PlatformProps GK_Address GK_TcpMonitor GK_ProcFs
    GK_SysMonProps GK_ControlProps GK_RelayProps GK_Serve
    GK_Windows GK_Metrics GK_WaitPage GK_ServerLoop GK_Boot GK_Cycle
    GK_LockProps GK_Wrappers
begin

text \<open>
  Gatekeeper, a verification library.

  The program listens on the ports of its configuration in place of their servers. A client's first connection makes it launch the
  server (the backend) and give the port up; when the backend has been idle for long it is stopped and the port is listened on again. It also forwards
  connections by protocol, is a SOCKS5 proxy, watches memory and evicts backends, and is steered over a
  small HTTP server. All sources are under \<open>src/src\<close>. The models are of the Linux build; what the other systems have of their own is in \<open>GK_Windows\<close> and \<open>GK_Metrics\<close>.

  \<^bold>\<open>Parts and theories.\<close>
  \<^item> \<open>GK_Prelude\<close>, \<open>GK_Text\<close>: search in texts, the generic interfaces \<open>scanner\<close>, \<open>machine_inv\<close>, \<open>step_rel\<close> and \<open>codec\<close>; the numeric conversions of the C++ library.
  \<^item> \<open>GK_Json\<close>, \<open>GK_JsonProps\<close>, \<open>GK_JsonRoundtrip\<close>: the JSON reader (\<open>json.h\<close>, \<open>json.cpp\<close>), when it ends, and that it reads back every printed value.
  \<^item> \<open>GK_Config\<close>, \<open>GK_ConfigProps\<close>: \<open>parseConfig\<close>, \<open>loadConfig\<close>, \<open>parseSystemMonitorConfig\<close> (\<open>config.h\<close>, \<open>config.cpp\<close>); every key reaches its field, ranges after a parse.
  \<^item> \<open>GK_RefreshFile\<close>: \<open>updateRefreshSecondsInFile\<close>, the edit of the file in place, which touches nothing else.
  \<^item> \<open>GK_Platform\<close>, \<open>GK_PlatformProps\<close>: command lines, launch, captured and streamed commands, random token (\<open>relay_platform.h\<close>, \<open>relay_posix.cpp\<close>).
  \<^item> \<open>GK_Address\<close>: both address parsers, \<open>monitorPort\<close>, \<open>controlListenPort\<close>, the escape of the wait page's script.
  \<^item> \<open>GK_TcpMonitor\<close> (\<open>tcp_monitor.cpp\<close>), \<open>GK_ProcFs\<close> (\<open>relay_linux.cpp\<close>): which connections a port has and which process holds it.
  \<^item> \<open>GK_SysMon\<close>, \<open>GK_SysMonProps\<close>: metrics, process list, choice of the victim, the sampling loop with its timer (\<open>system_monitor.cpp\<close>).
  \<^item> \<open>GK_Control\<close>, \<open>GK_ControlProps\<close>: the control server (\<open>control_server.cpp\<close>): rate limiter, request reader, routes, \<open>/run\<close>.
  \<^item> \<open>GK_Relay\<close>, \<open>GK_RelayProps\<close>: the class \<open>PortRelay\<close> (\<open>relay.h\<close>, \<open>relay.cpp\<close>), its state and one definition per operation.
  \<^item> \<open>GK_Proxy\<close>: protocol detection, the tunnel, SOCKS5.
  \<^item> \<open>GK_RelayLoop\<close>, \<open>GK_RelayLoopProps\<close>: the three listening threads as step machines, in any interleaving with what the other threads do to the
    relay (\<open>relay_env\<close>); the interface \<open>listen_loop\<close> holds what all three promise.
  \<^item> \<open>GK_Group\<close>: port groups (\<open>port_group.h\<close>, \<open>port_group.cpp\<close>) over a store of relay objects.
  \<^item> \<open>GK_Main\<close>, \<open>GK_MainProps\<close>, \<open>GK_Lifecycle\<close>, \<open>GK_Start\<close>: \<open>main.cpp\<close> and the lists of \<open>maybeEvict\<close>: reload, passes of the monitor thread, start and end.
  \<^item> \<open>GK_Serve\<close>: the control server on the state of the program: what a request does, from its bytes to the ports that are served.
  \<^item> \<open>GK_Http\<close>: requests and replies as an HTTP client sees them: any cut of a request into reads is the request, every reply is framed.
  \<^item> \<open>GK_ServerLoop\<close>: the listener and the accept loop of the control server, its start and stop; the rate limit over a run.
  \<^item> \<open>GK_WaitPage\<close>: the wait and busy pages (\<open>buildWaitPageHtml\<close> and its script); what the buttons send is what both servers read.
  \<^item> \<open>GK_Boot\<close>: \<open>launchBackend\<close>, \<open>waitForBackend\<close>, the threads and the messages of the start, the wait for a signal, \<open>sd_notify\<close>.
  \<^item> \<open>GK_Windows\<close> (\<open>relay_win.cpp\<close>), \<open>GK_Metrics\<close> (metrics and process lists of Windows and macOS), on the words of \<open>GK_Words\<close>.
  \<^item> \<open>GK_System\<close>: the whole program as one transition system (\<open>sys_step\<close>) over the lists, the victim of an eviction and the program counters
    of all listening threads; the assumptions under which the threads were studied alone are discharged there.
  \<^item> \<open>GK_Cycle\<close>: the life of a port through the monitor thread and its listening thread: idle, stopped, listened on again, launched again.
  \<^item> \<open>GK_Locks\<close>, \<open>GK_LockProps\<close>: the mutexes of the program and the joins between its threads, one list of lock actions per operation: which
    operations never deadlock (\<open>orderly\<close>), and how the others can.
  \<^item> \<open>GK_Wrappers\<close>: the wrappers of system calls that do more than pass them on, the handlers of signals and console events.

  \<^bold>\<open>How the parts meet.\<close> \<open>main_start\<close> reads the configuration with \<open>parseConfig\<close>, makes the relays and groups and gives the state
  \<open>gatekeeper\<close>: the served relays \<open>gk_relays\<close>, those waiting for removal \<open>gk_pending\<close>, the groups, the remembered configuration. Each relay
  has a thread (\<open>simple_step\<close>, \<open>mixed_step\<close>, \<open>socks5_step\<close>). The monitor thread (\<open>monitor_pass\<close>) samples connections with \<open>queryPortConnections\<close>, retires
  idle relays and processes the retired ones; the system monitor takes its victim out of the list and puts it back (\<open>evict_take\<close>, \<open>evict_put\<close>); the control
  server's \<open>POST /reload\<close> ends in \<open>reloadFromFile\<close>, its refresh route in \<open>setRefreshSeconds\<close> and \<open>persistRefreshSeconds\<close>.

  \<^bold>\<open>Conventions.\<close> Strings are lists of bytes as characters. What the system answers is an argument: the pid of a fork, whether a process lives, what a
  read delivers, the clock; repeated questions take the list of the answers. A shared object is a number in a store, and following a pointer to one that is gone is \<open>None\<close>. An
  exception that is caught is a branch. Fixed-width arithmetic is written out where the code can reach its limits (\<open>digits_wrap\<close>, \<open>to_cint\<close>, \<open>back_off\<close>, the words of
  \<open>GK_TcpMonitor\<close>); a \<open>double\<close> is the exact rational.

  \<^bold>\<open>Abstract specifications.\<close> \<open>render\<close> and \<open>config_json\<close> for the readers, \<open>reload_spec\<close> for the reload (the refinement is in \<open>GK_MainProps\<close>),
  \<open>best_among\<close> for the victim, \<open>spaced\<close> for the rate limiter, \<open>dechunk\<close> and \<open>read_response\<close> for what a client reads, \<open>js_read\<close> for the page's script, \<open>own_inv\<close> for the
  ownership of relays, \<open>sys_inv\<close> for the whole program.

  \<^bold>\<open>Fuel.\<close> Only the JSON reader and the frames reader \<open>dechunk\<close> of the specification carry fuel. The reader's budget is three calls per character and one more,
  which is enough for every text on which the loops of the code end. The other loops are structural in the list of
  answers or have a measure; the listening threads are step relations without a bound.

  \<^bold>\<open>Interfaces.\<close> \<open>scanner\<close> is interpreted on the skipping and reading routines; \<open>machine_inv\<close> on the rate limiter, the eviction timer and the lists of relays;
  \<open>step_rel\<close>, of which every \<open>machine_inv\<close> is one, on what other threads do to a relay and on the whole program; \<open>listen_loop\<close> on the three threads;
  \<open>lock_discipline\<close> on the operations that take mutexes;
  \<open>codec\<close>, what is printed is read back, on numbers, JSON documents, command lines and percent encoding.

  \<^bold>\<open>Not modelled.\<close> Log lines and the text of the help; thread objects and sleeps, which show as the steps of the interleavings (mutexes are in
  \<open>GK_Locks\<close>); the wrappers of both platforms that only pass a call to the system, which are the arguments of the definitions; \<open>handleConfig\<close> beyond its reply, as no
  route reaches it; what a browser does with the wait page beyond the addresses and literals of its script.
\<close>

end
